(* ===== verification/Prelude.thy ===== *)
theory Prelude
  imports Main "HOL-Library.Word"
begin

unbundle bit_operations_syntax

text \<open>
  Shared vocabulary of the development: the faults a function of the program can stop with,
  the two sequencing combinators (with and without a state), and generic lemmas on lists and
  words.  The C code stops in four ways that the model keeps apart:
  \<^item> \<open>Assert_failed\<close>: an \<^verbatim>\<open>assert(...)\<close> whose condition is false (in the kernel build
    \<^verbatim>\<open>assert(x)\<close> is \<^verbatim>\<open>BUG_ON(!(x))\<close>);
  \<^item> \<open>Bug\<close>: a \<^verbatim>\<open>BUG()\<close>, \<^verbatim>\<open>BUG_ON(...)\<close> or \<^verbatim>\<open>xzl_bug()\<close> that is reached;
  \<^item> \<open>Bad_access\<close>: an array access outside its bounds;
  \<^item> \<open>Spin\<close>: a retry loop that has not ended within the fuel given to it.
\<close>

datatype fault = Assert_failed | Bug | Bad_access | Spin

named_theorems step_simps \<open>unfolding equations of the modelled operations\<close>

section \<open>Sequencing\<close>

definition bindE :: "'e + 'a \<Rightarrow> ('a \<Rightarrow> 'e + 'b) \<Rightarrow> 'e + 'b" where
  "bindE m f = (case m of Inl e \<Rightarrow> Inl e | Inr x \<Rightarrow> f x)"

lemma bindE_simps [simp]:
  "bindE (Inl e) f = Inl e"
  "bindE (Inr x) f = f x"
  by (simp_all add: bindE_def)

lemma bindE_eq_Inr:
  "bindE m f = Inr y \<longleftrightarrow> (\<exists>x. m = Inr x \<and> f x = Inr y)"
  by (cases m) auto

lemma bindE_Inr_id [simp]: "bindE m Inr = m"
  by (cases m) auto

lemma bindE_assoc: "bindE (bindE m f) g = bindE m (\<lambda>x. bindE (f x) g)"
  by (cases m) auto

lemma bindE_cong [fundef_cong]:
  assumes "m = m'" and "\<And>x. m' = Inr x \<Longrightarrow> f x = f' x"
  shows "bindE m f = bindE m' f'"
  using assms by (cases m') auto

definition guardE :: "'e \<Rightarrow> bool \<Rightarrow> 'e + unit" where
  "guardE e b = (if b then Inr () else Inl e)"

lemma guardE_simps [simp]:
  "guardE e True = Inr ()"
  "guardE e False = Inl e"
  "guardE e b = Inr u \<longleftrightarrow> b"
  by (simp_all add: guardE_def)

section \<open>Lists\<close>

lemma map_list_update_other [simp]:
  "i \<notin> set ps \<Longrightarrow> map (\<lambda>p. f (xs[i := x] ! p)) ps = map (\<lambda>p. f (xs ! p)) ps"
  by (induction ps) auto

lemma distinct_Cons_append_swap:
  "distinct (x # xs @ ys) \<longleftrightarrow> distinct (xs @ x # ys)"
  by auto

lemma last_ConsR_eq: "xs \<noteq> [] \<Longrightarrow> last (x # xs) = last xs"
  by simp

lemma length_le_if_distinct_bounded:
  assumes "distinct ps" and "set ps \<subseteq> {..<n}"
  shows "length ps \<le> n"
proof -
  have "card (set ps) \<le> card {..<n}"
    using assms(2) by (intro card_mono) auto
  then show ?thesis
    using assms(1) by (simp add: distinct_card)
qed

section \<open>Words\<close>

lemma unat_of_nat_16 [simp]: "n < 65536 \<Longrightarrow> unat (of_nat n :: 16 word) = n"
  by (simp add: unat_of_nat)

lemma unat_16_less [simp]: "unat (i :: 16 word) < 65536"
  using unsigned_less [of i] by simp

lemma of_nat_16_neq_bad:
  assumes "n < 65535"
  shows "(of_nat n :: 16 word) \<noteq> 0xffff"
proof
  assume "(of_nat n :: 16 word) = 0xffff"
  then have "unat (of_nat n :: 16 word) = unat (0xffff :: 16 word)"
    by simp
  with assms show False by simp
qed

lemma unat_16_eq_iff: "unat (i :: 16 word) = unat j \<longleftrightarrow> i = j"
  by (simp add: word_unat_eq_iff)

lemma sint_32_small:
  assumes "unat (w :: 32 word) < 2 ^ 31"
  shows "sint w = int (unat w)"
proof -
  have "int (unat w) < int (2 ^ 31)"
    using assms by (simp only: of_nat_less_iff)
  then have u: "uint w < 2147483648"
    by simp
  have "- 2147483648 \<le> uint w"
    using uint_ge_0 [of w] by linarith
  with u have "signed_take_bit 31 (uint w) = uint w"
    by (intro signed_take_bit_int_eq_self) simp_all
  then show ?thesis
    by (simp add: sint_uint)
qed

end
