(* ===== verification/MigTypes.thy ===== *)
theory MigTypes
  imports Prelude
begin

text \<open>
  The data of \<^verbatim>\<open>libsmm/mig.h\<close> (LP64 layout, as compiled by the x86 driver): the counted,
  coloured link \<^verbatim>\<open>mig_desc_ptr\<close>, the descriptor \<^verbatim>\<open>mig_desc\<close> with its bit fields in two
  words, the queue and free list metadata and the shared region, and the address macros.
  The lemmas are the laws of the bit fields (a field reads back what was written, the other
  fields are untouched), the round trip of the 64-bit raw view of a link that
  compare-and-swap works on, and the block address arithmetic.
\<close>

section \<open>Links\<close>

type_synonym index_t = "16 word"
type_synonym color_t = "16 word"

definition BADINDEX :: index_t where "BADINDEX = 0xffff"

definition COLOR_NONE :: color_t where "COLOR_NONE = 0"
definition COLOR_USR :: color_t where "COLOR_USR = 1"
definition COLOR_KER :: color_t where "COLOR_KER = 2"

text \<open>
  \<^verbatim>\<open>mig_desc_ptr\<close> is a union of a 6-byte struct and a \<^verbatim>\<open>uint64_t raw\<close>; \<open>mp_pad\<close> is the
  remaining two bytes of the raw word, which no assignment to a member writes but every
  compare-and-swap compares and stores.
\<close>

record mig_desc_ptr =
  mp_index :: index_t
  mp_count :: "16 word"
  mp_color :: color_t
  mp_pad :: "16 word"

definition raw :: "mig_desc_ptr \<Rightarrow> 64 word" where
  "raw p = ucast (mp_index p) OR push_bit 16 (ucast (mp_count p))
     OR push_bit 32 (ucast (mp_color p)) OR push_bit 48 (ucast (mp_pad p))"

definition of_raw :: "64 word \<Rightarrow> mig_desc_ptr" where
  "of_raw w = \<lparr>mp_index = ucast w, mp_count = ucast (drop_bit 16 w),
     mp_color = ucast (drop_bit 32 w), mp_pad = ucast (drop_bit 48 w)\<rparr>"

lemma of_raw_raw [simp]: "of_raw (raw p) = p"
proof -
  have "ucast (raw p) = mp_index p" "ucast (drop_bit 16 (raw p)) = mp_count p"
    "ucast (drop_bit 32 (raw p)) = mp_color p" "ucast (drop_bit 48 (raw p)) = mp_pad p"
    unfolding raw_def
    by (rule bit_word_eqI; auto simp: bit_simps dest: bit_imp_le_length)+
  then show ?thesis by (simp add: of_raw_def)
qed

lemma raw_inject [simp]: "raw p = raw q \<longleftrightarrow> p = q"
  by (metis of_raw_raw)

section \<open>Descriptors\<close>

record mig_desc =
  word0 :: "64 word"
  word1 :: "64 word"
  refcnt :: "8 word"
  nxt :: mig_desc_ptr

text \<open>The bit field of \<open>n\<close> bits that starts at bit \<open>o\<close> of a word: read and write.\<close>

definition bf_get :: "nat \<Rightarrow> nat \<Rightarrow> 64 word \<Rightarrow> 64 word" where
  "bf_get off n w = drop_bit off w AND mask n"

definition bf_set :: "nat \<Rightarrow> nat \<Rightarrow> 64 word \<Rightarrow> 64 word \<Rightarrow> 64 word" where
  "bf_set off n v w = (w AND NOT (push_bit off (mask n))) OR push_bit off (v AND mask n)"

definition virt_base :: "mig_desc \<Rightarrow> 64 word" where "virt_base d = bf_get 0 52 (word0 d)"
definition order :: "mig_desc \<Rightarrow> 64 word" where "order d = bf_get 52 3 (word0 d)"
definition node :: "mig_desc \<Rightarrow> 64 word" where "node d = bf_get 55 1 (word0 d)"
definition huge_page :: "mig_desc \<Rightarrow> 64 word" where "huge_page d = bf_get 56 1 (word0 d)"
definition flag :: "mig_desc \<Rightarrow> 64 word" where "flag d = bf_get 57 7 (word0 d)"
definition virt_base_dest :: "mig_desc \<Rightarrow> 64 word" where
  "virt_base_dest d = bf_get 0 52 (word1 d)"

definition set_virt_base :: "64 word \<Rightarrow> mig_desc \<Rightarrow> mig_desc" where
  "set_virt_base v d = d\<lparr>word0 := bf_set 0 52 v (word0 d)\<rparr>"
definition set_order :: "64 word \<Rightarrow> mig_desc \<Rightarrow> mig_desc" where
  "set_order v d = d\<lparr>word0 := bf_set 52 3 v (word0 d)\<rparr>"
definition set_flag :: "64 word \<Rightarrow> mig_desc \<Rightarrow> mig_desc" where
  "set_flag v d = d\<lparr>word0 := bf_set 57 7 v (word0 d)\<rparr>"
definition set_virt_base_dest :: "64 word \<Rightarrow> mig_desc \<Rightarrow> mig_desc" where
  "set_virt_base_dest v d = d\<lparr>word1 := bf_set 0 52 v (word1 d)\<rparr>"

definition MIG_DESC_FREE :: "64 word" where "MIG_DESC_FREE = 0"
definition MIG_DESC_REQUESTED :: "64 word" where "MIG_DESC_REQUESTED = 1"
definition MIG_DESC_COMPLETED :: "64 word" where "MIG_DESC_COMPLETED = 2"

definition mark_mig_desc_free :: "mig_desc \<Rightarrow> mig_desc" where
  "mark_mig_desc_free d = set_flag MIG_DESC_FREE d"
definition mark_mig_desc_req :: "mig_desc \<Rightarrow> mig_desc" where
  "mark_mig_desc_req d = set_flag MIG_DESC_REQUESTED d"
definition mark_mig_desc_comp :: "mig_desc \<Rightarrow> mig_desc" where
  "mark_mig_desc_comp d = set_flag MIG_DESC_COMPLETED d"

lemma bf_get_set_same: "off + n \<le> 64 \<Longrightarrow> bf_get off n (bf_set off n v w) = v AND mask n"
  unfolding bf_get_def bf_set_def
  by (rule bit_word_eqI) (auto simp: bit_simps dest: bit_imp_le_length)

lemma bf_get_set_other:
  "off + n \<le> off' \<or> off' + n' \<le> off \<Longrightarrow>
   bf_get off n (bf_set off' n' v w) = bf_get off n w"
  unfolding bf_get_def bf_set_def
  by (rule bit_word_eqI) (auto simp: bit_simps dest: bit_imp_le_length)

lemma bf_get_less: "n < 64 \<Longrightarrow> unat (bf_get off n w) < 2 ^ n"
  by (simp add: bf_get_def take_bit_eq_mask [symmetric] unsigned_take_bit_eq)

lemma virt_base_mark [simp]:
  "virt_base (set_flag v d) = virt_base d" "order (set_flag v d) = order d"
  "node (set_flag v d) = node d" "huge_page (set_flag v d) = huge_page d"
  "word1 (set_flag v d) = word1 d" "nxt (set_flag v d) = nxt d" "refcnt (set_flag v d) = refcnt d"
  by (simp_all add: virt_base_def order_def node_def huge_page_def set_flag_def bf_get_set_other)

lemma set_virt_base_fields [simp]:
  "virt_base (set_virt_base v d) = v AND mask 52" "order (set_virt_base v d) = order d"
  "node (set_virt_base v d) = node d" "huge_page (set_virt_base v d) = huge_page d"
  "flag (set_virt_base v d) = flag d" "word1 (set_virt_base v d) = word1 d"
  "nxt (set_virt_base v d) = nxt d" "refcnt (set_virt_base v d) = refcnt d"
  by (simp_all add: virt_base_def order_def node_def huge_page_def flag_def set_virt_base_def
      bf_get_set_other bf_get_set_same)

lemma set_order_fields [simp]:
  "order (set_order v d) = v AND mask 3" "virt_base (set_order v d) = virt_base d"
  "node (set_order v d) = node d" "huge_page (set_order v d) = huge_page d"
  "flag (set_order v d) = flag d" "word1 (set_order v d) = word1 d"
  "nxt (set_order v d) = nxt d" "refcnt (set_order v d) = refcnt d"
  by (simp_all add: virt_base_def order_def node_def huge_page_def flag_def set_order_def
      bf_get_set_other bf_get_set_same)

lemma set_virt_base_dest_fields [simp]:
  "virt_base_dest (set_virt_base_dest v d) = v AND mask 52"
  "word0 (set_virt_base_dest v d) = word0 d"
  "nxt (set_virt_base_dest v d) = nxt d" "refcnt (set_virt_base_dest v d) = refcnt d"
  by (simp_all add: virt_base_dest_def set_virt_base_dest_def bf_get_set_same)

section \<open>Block addresses\<close>

definition MIG_BLOCK_ALIGN_OFFSET :: nat where "MIG_BLOCK_ALIGN_OFFSET = 12"

text \<open>
  \<^verbatim>\<open>base_to_virt\<close> is only applied to \<^verbatim>\<open>virt_base\<close> and \<^verbatim>\<open>virt_base_dest\<close>.  A bit field wider than
  \<^verbatim>\<open>int\<close> has, for GCC, a type of its own width: the shift is one of 52 bits, and the cast to 64 bits comes
  after it.
\<close>

definition base_to_virt :: "64 word \<Rightarrow> 64 word" where
  "base_to_virt x = take_bit (64 - MIG_BLOCK_ALIGN_OFFSET) (push_bit MIG_BLOCK_ALIGN_OFFSET x)"

definition virt_to_base :: "64 word \<Rightarrow> 64 word" where
  "virt_to_base x = drop_bit MIG_BLOCK_ALIGN_OFFSET x"

definition MIG_BLOCK_ROUND_DOWN :: "64 word \<Rightarrow> 64 word" where
  "MIG_BLOCK_ROUND_DOWN x = x AND NOT (4096 - 1)"

definition MIG_BLOCK_ROUND_UP :: "64 word \<Rightarrow> 64 word" where
  "MIG_BLOCK_ROUND_UP x = (x + 4096 - 1) AND NOT (4096 - 1)"

lemma mask_12_eq: "(4095 :: 64 word) = mask 12"
  by (simp add: mask_eq_exp_minus_1)

lemma base_to_virt_virt_to_base: "base_to_virt (virt_to_base x) = take_bit 52 (MIG_BLOCK_ROUND_DOWN x)"
  unfolding base_to_virt_def virt_to_base_def MIG_BLOCK_ROUND_DOWN_def MIG_BLOCK_ALIGN_OFFSET_def
  by (rule bit_word_eqI) (auto simp: bit_simps mask_12_eq)

text \<open>The addresses that survive are those below \<open>2 ^ 52\<close>.\<close>

lemma round_down_fits: "take_bit 52 (MIG_BLOCK_ROUND_DOWN x) = MIG_BLOCK_ROUND_DOWN x \<longleftrightarrow> unat x < 2 ^ 52"
proof -
  have bits: "bit (MIG_BLOCK_ROUND_DOWN x) i \<longleftrightarrow> bit x i \<and> 12 \<le> i" for i
    unfolding MIG_BLOCK_ROUND_DOWN_def by (auto simp: bit_simps mask_12_eq dest: bit_imp_le_length)
  have "take_bit 52 (MIG_BLOCK_ROUND_DOWN x) = MIG_BLOCK_ROUND_DOWN x \<longleftrightarrow> take_bit 52 x = x"
    unfolding bit_eq_iff [of "take_bit 52 _"] by (auto simp: bits bit_take_bit_iff)
  also have "\<dots> \<longleftrightarrow> unat x < 2 ^ 52"
    by (metis take_bit_nat_eq_self_iff unsigned_take_bit_eq unsigned_word_eqI)
  finally show ?thesis .
qed

lemma virt_to_base_fits: "virt_to_base x AND mask 52 = virt_to_base x"
  unfolding virt_to_base_def MIG_BLOCK_ALIGN_OFFSET_def
  by (rule bit_word_eqI) (auto simp: bit_simps dest: bit_imp_le_length)

section \<open>Queues, free list, region\<close>

text \<open>\<^verbatim>\<open>atomic_arm_t\<close> is \<^verbatim>\<open>unsigned long\<close>.\<close>

record mig_queue =
  q_tail :: mig_desc_ptr
  q_head :: mig_desc_ptr
  q_aba_counter :: "64 word"

record mig_free_list =
  fl_top :: mig_desc_ptr
  fl_aba_counter :: "64 word"
  fl_element_counter :: "64 word"

text \<open>The five queues of the region, by the names of the struct's members.\<close>

datatype qid = Qreq | Qissued | Qcomp | Qerr | Qacked

text \<open>
  A pointer to a descriptor is its position in \<open>desc_array\<close>.  \<open>stk\<close> is not a member of the
  struct: it is what an uninitialised local of type \<^verbatim>\<open>mig_desc_ptr\<close> holds before its first
  assignment (the code reads such bytes when it stores a link whose padding, or whose colour,
  it never set); nothing constrains it.
\<close>

record mig_region =
  ndescs :: "32 word"
  freelist :: mig_free_list
  queues :: "qid \<Rightarrow> mig_queue"
  desc_array :: "mig_desc list"
  stk :: mig_desc_ptr

type_synonym desc_p = nat

definition desc_to_index :: "mig_region \<Rightarrow> desc_p \<Rightarrow> index_t" where
  "desc_to_index r d = of_nat d"

definition index_to_desc :: "mig_region \<Rightarrow> index_t \<Rightarrow> fault + desc_p" where
  "index_to_desc r i = bindE (guardE Assert_failed (unat i < unat (ndescs r))) (\<lambda>_. Inr (unat i))"

lemma index_to_desc_Inr [simp]:
  "unat i < unat (ndescs r) \<Longrightarrow> index_to_desc r i = Inr (unat i)"
  by (simp add: index_to_desc_def)

subsection \<open>Reading and writing the shared memory\<close>

definition desc_at :: "mig_region \<Rightarrow> desc_p \<Rightarrow> mig_desc" where
  "desc_at r p = desc_array r ! p"

definition upd_desc :: "desc_p \<Rightarrow> (mig_desc \<Rightarrow> mig_desc) \<Rightarrow> mig_region \<Rightarrow> mig_region" where
  "upd_desc p f r = r\<lparr>desc_array := (desc_array r)[p := f (desc_array r ! p)]\<rparr>"

definition set_next :: "desc_p \<Rightarrow> mig_desc_ptr \<Rightarrow> mig_region \<Rightarrow> mig_region" where
  "set_next p v r = upd_desc p (\<lambda>d. d\<lparr>nxt := v\<rparr>) r"

definition set_top :: "mig_desc_ptr \<Rightarrow> mig_region \<Rightarrow> mig_region" where
  "set_top v r = r\<lparr>freelist := (freelist r)\<lparr>fl_top := v\<rparr>\<rparr>"

definition set_tail :: "qid \<Rightarrow> mig_desc_ptr \<Rightarrow> mig_region \<Rightarrow> mig_region" where
  "set_tail q v r = r\<lparr>queues := (queues r)(q := (queues r q)\<lparr>q_tail := v\<rparr>)\<rparr>"

definition set_head :: "qid \<Rightarrow> mig_desc_ptr \<Rightarrow> mig_region \<Rightarrow> mig_region" where
  "set_head q v r = r\<lparr>queues := (queues r)(q := (queues r q)\<lparr>q_head := v\<rparr>)\<rparr>"

text \<open>
  \<^verbatim>\<open>__sync_bool_compare_and_swap\<close> on the four kinds of word the library swaps: a store when
  the raw words agree, and whether it stored.
\<close>

definition cas_next :: "desc_p \<Rightarrow> mig_desc_ptr \<Rightarrow> mig_desc_ptr \<Rightarrow> mig_region \<Rightarrow> bool \<times> mig_region" where
  "cas_next p old new r =
     (if raw (nxt (desc_at r p)) = raw old then (True, set_next p new r) else (False, r))"

definition cas_top :: "mig_desc_ptr \<Rightarrow> mig_desc_ptr \<Rightarrow> mig_region \<Rightarrow> bool \<times> mig_region" where
  "cas_top old new r =
     (if raw (fl_top (freelist r)) = raw old then (True, set_top new r) else (False, r))"

definition cas_tail :: "qid \<Rightarrow> mig_desc_ptr \<Rightarrow> mig_desc_ptr \<Rightarrow> mig_region \<Rightarrow> bool \<times> mig_region" where
  "cas_tail q old new r =
     (if raw (q_tail (queues r q)) = raw old then (True, set_tail q new r) else (False, r))"

definition cas_head :: "qid \<Rightarrow> mig_desc_ptr \<Rightarrow> mig_desc_ptr \<Rightarrow> mig_region \<Rightarrow> bool \<times> mig_region" where
  "cas_head q old new r =
     (if raw (q_head (queues r q)) = raw old then (True, set_head q new r) else (False, r))"

lemmas cas_defs = cas_next_def cas_top_def cas_tail_def cas_head_def

text \<open>Each store touches its own word only.\<close>

lemma mem_frame [simp]:
  "ndescs (upd_desc p f r) = ndescs r" "freelist (upd_desc p f r) = freelist r"
  "queues (upd_desc p f r) = queues r" "stk (upd_desc p f r) = stk r"
  "length (desc_array (upd_desc p f r)) = length (desc_array r)"
  "ndescs (set_next p v r) = ndescs r" "freelist (set_next p v r) = freelist r"
  "queues (set_next p v r) = queues r" "stk (set_next p v r) = stk r"
  "length (desc_array (set_next p v r)) = length (desc_array r)"
  "ndescs (set_top v r) = ndescs r" "desc_array (set_top v r) = desc_array r"
  "queues (set_top v r) = queues r" "stk (set_top v r) = stk r"
  "fl_top (freelist (set_top v r)) = v"
  "ndescs (set_tail q v r) = ndescs r" "desc_array (set_tail q v r) = desc_array r"
  "freelist (set_tail q v r) = freelist r" "stk (set_tail q v r) = stk r"
  "ndescs (set_head q v r) = ndescs r" "desc_array (set_head q v r) = desc_array r"
  "freelist (set_head q v r) = freelist r" "stk (set_head q v r) = stk r"
  by (simp_all add: upd_desc_def set_next_def set_top_def set_tail_def set_head_def)

lemma queue_store [simp]:
  "q_tail (queues (set_tail q v r) q') = (if q = q' then v else q_tail (queues r q'))"
  "q_head (queues (set_tail q v r) q') = q_head (queues r q')"
  "q_tail (queues (set_head q v r) q') = q_tail (queues r q')"
  "q_head (queues (set_head q v r) q') = (if q = q' then v else q_head (queues r q'))"
  by (simp_all add: set_tail_def set_head_def)

lemma desc_at_store [simp]:
  "desc_at (set_top v r) p = desc_at r p"
  "desc_at (set_tail q v r) p = desc_at r p"
  "desc_at (set_head q v r) p = desc_at r p"
  by (simp_all add: desc_at_def)

lemma desc_at_upd:
  "p < length (desc_array r) \<Longrightarrow>
   desc_at (upd_desc p f r) p' = (if p = p' then f (desc_at r p) else desc_at r p')"
  by (simp add: desc_at_def upd_desc_def)

lemma desc_at_set_next:
  "p < length (desc_array r) \<Longrightarrow>
   desc_at (set_next p v r) p' = (if p = p' then (desc_at r p)\<lparr>nxt := v\<rparr> else desc_at r p')"
  by (simp add: set_next_def desc_at_upd)

lemma desc_at_upd_other [simp]:
  "p \<noteq> p' \<Longrightarrow> desc_at (upd_desc p f r) p' = desc_at r p'"
  "p \<noteq> p' \<Longrightarrow> desc_at (set_next p v r) p' = desc_at r p'"
  by (simp_all add: desc_at_def upd_desc_def set_next_def)

end
