(* ===== verification/FreeList.thy ===== *)
theory FreeList
  imports MigTypes
begin

text \<open>
  The lock-free stack of unused descriptors (\<^verbatim>\<open>freelist_add\<close>, \<^verbatim>\<open>freelist_remove\<close>,
  \<^verbatim>\<open>freelist_init\<close> of \<^verbatim>\<open>libsmm/migqueue.c\<close>), run by one thread.  Each compare-and-swap loop
  takes a fuel argument that bounds the number of attempts; alone, the first attempt succeeds.
  The chain predicate relates a link and the list of descriptors reached from it; the same
  predicate describes the queues.
\<close>

section \<open>Operations\<close>

text \<open>\<^verbatim>\<open>tmp\<close> is the new top: its index and count are set, the rest of the local is what it was.\<close>

fun freelist_add_loop ::
  "nat \<Rightarrow> mig_region \<Rightarrow> desc_p \<Rightarrow> mig_desc_ptr \<Rightarrow> fault + mig_region" where
  "freelist_add_loop 0 r desc tmp = Inl Spin"
| "freelist_add_loop (Suc n) r desc tmp =
     (let top = fl_top (freelist r) in
      bindE (index_to_desc r (mp_index tmp)) (\<lambda>p.
      let r1 = set_next p top r in
      case cas_top top tmp r1 of
        (True, r2) \<Rightarrow> Inr r2
      | (False, r2) \<Rightarrow> freelist_add_loop n r2 desc tmp))"

definition freelist_add :: "mig_region \<Rightarrow> desc_p \<Rightarrow> fault + mig_region" where
  "freelist_add r desc =
     bindE (guardE Assert_failed (refcnt (desc_at r desc) = 0)) (\<lambda>_.
     let aba = fl_aba_counter (freelist r) + 1;
         r1 = r\<lparr>freelist := (freelist r)\<lparr>fl_aba_counter := aba\<rparr>\<rparr>;
         tmp = (stk r)\<lparr>mp_count := ucast aba, mp_index := desc_to_index r desc\<rparr>
     in freelist_add_loop 1 r1 desc tmp)"

fun freelist_remove_loop :: "nat \<Rightarrow> mig_region \<Rightarrow> fault + desc_p option \<times> mig_region" where
  "freelist_remove_loop 0 r = Inl Spin"
| "freelist_remove_loop (Suc n) r =
     (let top = fl_top (freelist r) in
      if mp_index top = BADINDEX then Inr (None, r)
      else bindE (index_to_desc r (mp_index top)) (\<lambda>p.
        let tmp = nxt (desc_at r p) in
        case cas_top top tmp r of
          (True, r2) \<Rightarrow>
            bindE (guardE Assert_failed (refcnt (desc_at r2 p) = 0)) (\<lambda>_. Inr (Some p, r2))
        | (False, r2) \<Rightarrow> freelist_remove_loop n r2))"

definition freelist_remove :: "mig_region \<Rightarrow> fault + desc_p option \<times> mig_region" where
  "freelist_remove r = freelist_remove_loop 1 r"

fun freelist_init_loop :: "nat \<Rightarrow> nat \<Rightarrow> mig_region \<Rightarrow> fault + mig_region" where
  "freelist_init_loop i 0 r = Inr r"
| "freelist_init_loop i (Suc k) r =
     bindE (freelist_add (upd_desc i (\<lambda>d. d\<lparr>refcnt := 0\<rparr>) r) i) (freelist_init_loop (Suc i) k)"

text \<open>\<^verbatim>\<open>int size = r->ndescs\<close> must be positive as a signed number.\<close>

definition freelist_init :: "mig_region \<Rightarrow> fault + mig_region" where
  "freelist_init r =
     bindE (guardE Assert_failed (0 < sint (ndescs r))) (\<lambda>_.
     let top = (fl_top (freelist r))\<lparr>mp_index := BADINDEX, mp_count := 0, mp_color := COLOR_NONE\<rparr>
     in freelist_init_loop 0 (unat (ndescs r))
          (r\<lparr>freelist := \<lparr>fl_top = top, fl_aba_counter = 0, fl_element_counter = 0\<rparr>\<rparr>))"

section \<open>Chains of descriptors\<close>

definition nexti :: "mig_region \<Rightarrow> desc_p \<Rightarrow> index_t" where
  "nexti r p = mp_index (nxt (desc_at r p))"

primrec chain :: "mig_region \<Rightarrow> index_t \<Rightarrow> desc_p list \<Rightarrow> bool" where
  "chain r i [] \<longleftrightarrow> i = BADINDEX"
| "chain r i (p # ps) \<longleftrightarrow> i \<noteq> BADINDEX \<and> unat i = p \<and> p < unat (ndescs r) \<and> chain r (nexti r p) ps"

lemma chain_BAD [simp]: "chain r BADINDEX ps \<longleftrightarrow> ps = []"
  by (cases ps) auto

lemma chain_cong:
  assumes "ndescs r' = ndescs r" and "\<And>p. p \<in> set ps \<Longrightarrow> nexti r' p = nexti r p"
  shows "chain r' i ps = chain r i ps"
  using assms by (induction ps arbitrary: i) auto

lemma chain_unique: "chain r i ps \<Longrightarrow> chain r i qs \<Longrightarrow> ps = qs"
proof (induction ps arbitrary: i qs)
  case (Cons p ps)
  then show ?case by (cases qs) auto
qed (auto)

lemma chain_bounded: "chain r i ps \<Longrightarrow> set ps \<subseteq> {..<unat (ndescs r)}"
  by (induction ps arbitrary: i) auto

lemma chain_drop:
  "chain r i (xs @ p # ys) \<Longrightarrow> chain r (nexti r p) ys"
  by (induction xs arbitrary: i) auto

text \<open>In a chain the successor of a member is the next member, of the last one \<open>BADINDEX\<close>.\<close>

lemma chain_last: "chain r i ps \<Longrightarrow> ps \<noteq> [] \<Longrightarrow> nexti r (last ps) = BADINDEX"
  by (induction ps arbitrary: i) auto

lemma chain_append_last:
  assumes "chain r i ps" and "ps \<noteq> []" and "p < unat (ndescs r)" and "unat j = p" and "j \<noteq> BADINDEX"
    and nd: "ndescs r' = ndescs r"
    and eq: "\<And>x. x \<in> set (butlast ps) \<Longrightarrow> nexti r' x = nexti r x"
    and l: "nexti r' (last ps) = j" and e: "nexti r' p = BADINDEX"
  shows "chain r' i (ps @ [p])"
  using assms(1,2) eq l
proof (induction ps arbitrary: i)
  case (Cons x xs)
  show ?case
  proof (cases xs)
    case Nil
    with Cons.prems assms show ?thesis by auto
  next
    case (Cons y ys)
    with Cons.prems Cons.IH [of "nexti r x"] nd show ?thesis by auto
  qed
qed simp

text \<open>The chain from an index, computed with fuel (the number of descriptors is enough).\<close>

fun walk :: "nat \<Rightarrow> mig_region \<Rightarrow> index_t \<Rightarrow> desc_p list" where
  "walk 0 r i = []"
| "walk (Suc n) r i = (if i = BADINDEX then [] else unat i # walk n r (nexti r (unat i)))"

lemma walk_chain: "chain r i ps \<Longrightarrow> length ps \<le> n \<Longrightarrow> walk n r i = ps"
proof (induction ps arbitrary: i n)
  case Nil
  then show ?case by (cases n) auto
next
  case (Cons p ps)
  then show ?case by (cases n) auto
qed

section \<open>The free list as a stack\<close>

definition region_size_ok :: "mig_region \<Rightarrow> bool" where
  "region_size_ok r \<longleftrightarrow> length (desc_array r) = unat (ndescs r) \<and> unat (ndescs r) < 65536"

definition free_ok :: "mig_region \<Rightarrow> desc_p list \<Rightarrow> bool" where
  "free_ok r fl \<longleftrightarrow> chain r (mp_index (fl_top (freelist r))) fl \<and> distinct fl
     \<and> (\<forall>p\<in>set fl. refcnt (desc_at r p) = 0)"

text \<open>
  Adding a descriptor that is not on the list pushes it; only its link and the list's metadata
  change.  An index fits in 16 bits and differs from \<open>BADINDEX\<close> because there are fewer than
  65536 descriptors.
\<close>

lemma ok_index:
  assumes "region_size_ok r" and "p < unat (ndescs r)"
  shows "p < 65535" and "of_nat p \<noteq> BADINDEX" and "unat (of_nat p :: index_t) = p"
proof -
  from assms show *: "p < 65535" by (simp add: region_size_ok_def)
  show "of_nat p \<noteq> BADINDEX"
    using * unfolding BADINDEX_def by (rule of_nat_16_neq_bad)
  show "unat (of_nat p :: index_t) = p"
    using * by simp
qed

definition add_result :: "mig_region \<Rightarrow> desc_p \<Rightarrow> mig_region" where
  "add_result r p =
     (let r1 = r\<lparr>freelist := (freelist r)\<lparr>fl_aba_counter := fl_aba_counter (freelist r) + 1\<rparr>\<rparr>
      in set_top ((stk r)\<lparr>mp_count := ucast (fl_aba_counter (freelist r) + 1), mp_index := of_nat p\<rparr>)
           (set_next p (fl_top (freelist r)) r1))"

lemma freelist_add_eq:
  assumes "region_size_ok r" and "p < unat (ndescs r)" and "refcnt (desc_at r p) = 0"
  shows "freelist_add r p = Inr (add_result r p)"
  using assms ok_index [OF assms(1,2)]
  by (simp add: freelist_add_def add_result_def cas_top_def desc_to_index_def index_to_desc_def Let_def
      set_top_def set_next_def upd_desc_def)

lemma add_result_frame [simp]:
  "ndescs (add_result r p) = ndescs r" "queues (add_result r p) = queues r"
  "stk (add_result r p) = stk r"
  "length (desc_array (add_result r p)) = length (desc_array r)"
  "region_size_ok (add_result r p) = region_size_ok r"
  "mp_index (fl_top (freelist (add_result r p))) = of_nat p"
  by (simp_all add: add_result_def Let_def region_size_ok_def)

lemma add_result_desc:
  assumes "p < length (desc_array r)"
  shows "desc_at (add_result r p) x =
    (if x = p then (desc_at r p)\<lparr>nxt := fl_top (freelist r)\<rparr> else desc_at r x)"
  using assms by (auto simp: add_result_def Let_def desc_at_def set_top_def set_next_def upd_desc_def)

lemma free_ok_add:
  assumes ok: "region_size_ok r" and p: "p < unat (ndescs r)" "p \<notin> set fl" "refcnt (desc_at r p) = 0"
    and fl: "free_ok r fl"
  shows "free_ok (add_result r p) (p # fl)"
proof -
  have len: "p < length (desc_array r)"
    using ok p by (simp add: region_size_ok_def)
  have ch: "chain (add_result r p) (mp_index (fl_top (freelist r))) fl"
    using fl p(2) len by (subst chain_cong [of _ r]) (auto simp: free_ok_def nexti_def add_result_desc)
  have nx: "nexti (add_result r p) p = mp_index (fl_top (freelist r))"
    using len by (simp add: nexti_def add_result_desc)
  show ?thesis
    using ch nx p fl ok_index [OF ok p(1)] len by (auto simp: free_ok_def add_result_desc)
qed

definition rem_result :: "mig_region \<Rightarrow> desc_p \<Rightarrow> mig_region" where
  "rem_result r p = set_top (nxt (desc_at r p)) r"

lemma rem_result_frame [simp]:
  "ndescs (rem_result r p) = ndescs r" "queues (rem_result r p) = queues r"
  "stk (rem_result r p) = stk r" "desc_array (rem_result r p) = desc_array r"
  "desc_at (rem_result r p) x = desc_at r x"
  "region_size_ok (rem_result r p) = region_size_ok r"
  "nexti (rem_result r p) x = nexti r x"
  by (simp_all add: rem_result_def region_size_ok_def nexti_def)

lemma freelist_remove_Nil:
  assumes "free_ok r []"
  shows "freelist_remove r = Inr (None, r)"
  using assms by (simp add: freelist_remove_def free_ok_def)

lemma freelist_remove_Cons:
  assumes "free_ok r (p # fl)"
  shows "freelist_remove r = Inr (Some p, rem_result r p)" and "free_ok (rem_result r p) fl"
proof -
  show "freelist_remove r = Inr (Some p, rem_result r p)"
    using assms by (auto simp: freelist_remove_def free_ok_def cas_top_def rem_result_def)
  have "chain (rem_result r p) (nexti r p) fl"
    using assms by (subst chain_cong [of _ r]) (auto simp: free_ok_def)
  then show "free_ok (rem_result r p) fl"
    using assms by (auto simp: free_ok_def rem_result_def nexti_def)
qed

text \<open>One thread alone never retries: whatever the memory holds, the swap succeeds.\<close>

lemma freelist_add_no_spin: "freelist_add r p \<noteq> Inl Spin"
  by (auto simp: freelist_add_def guardE_def bindE_def cas_top_def index_to_desc_def Let_def)

lemma freelist_remove_no_spin: "freelist_remove r \<noteq> Inl Spin"
  by (auto simp: freelist_remove_def guardE_def bindE_def cas_top_def index_to_desc_def Let_def)

section \<open>Initialisation\<close>

text \<open>The loop pushes \<open>i, i + 1, \<dots>\<close> in turn, so the list ends up in descending order.\<close>

lemma freelist_init_loop_ok:
  assumes "region_size_ok r" and "i + k = unat (ndescs r)" and "free_ok r (rev [0..<i])"
    and "stk r = s0" and "queues r = qs0"
  shows "\<exists>r'. freelist_init_loop i k r = Inr r' \<and> region_size_ok r' \<and> ndescs r' = ndescs r
    \<and> free_ok r' (rev [0..<unat (ndescs r)]) \<and> stk r' = s0 \<and> queues r' = qs0"
  using assms
proof (induction k arbitrary: i r)
  case 0
  then show ?case by auto
next
  case (Suc k)
  let ?u = "upd_desc i (\<lambda>d. d\<lparr>refcnt := 0\<rparr>) r"
  have i: "i < unat (ndescs r)" "i < length (desc_array r)"
    using Suc.prems by (simp_all add: region_size_ok_def)
  have ok: "region_size_ok ?u"
    using Suc.prems(1) by (simp add: region_size_ok_def)
  have rc: "refcnt (desc_at ?u i) = 0"
    using i by (simp add: desc_at_upd)
  have "chain ?u (mp_index (fl_top (freelist r))) (rev [0..<i])"
    using Suc.prems(3) by (subst chain_cong [of _ r]) (auto simp: free_ok_def nexti_def)
  then have fu: "free_ok ?u (rev [0..<i])"
    using Suc.prems(3) i by (auto simp: free_ok_def desc_at_upd)
  have add: "freelist_add ?u i = Inr (add_result ?u i)"
    using ok i rc by (intro freelist_add_eq) auto
  have fa: "free_ok (add_result ?u i) (rev [0..<Suc i])"
    using free_ok_add [OF ok _ _ rc fu] i by simp
  have "\<exists>r'. freelist_init_loop (Suc i) k (add_result ?u i) = Inr r' \<and> region_size_ok r'
      \<and> ndescs r' = ndescs (add_result ?u i) \<and> free_ok r' (rev [0..<unat (ndescs (add_result ?u i))])
      \<and> stk r' = s0 \<and> queues r' = qs0"
    using Suc.prems ok fa by (intro Suc.IH) auto
  then show ?case by (simp add: add)
qed

lemma freelist_init_ok:
  assumes "region_size_ok r" and "0 < unat (ndescs r)"
  shows "\<exists>r'. freelist_init r = Inr r' \<and> region_size_ok r' \<and> ndescs r' = ndescs r
    \<and> free_ok r' (rev [0..<unat (ndescs r)]) \<and> stk r' = stk r \<and> queues r' = queues r"
proof -
  let ?r = "r\<lparr>freelist := \<lparr>fl_top = (fl_top (freelist r))\<lparr>mp_index := BADINDEX, mp_count := 0,
      mp_color := COLOR_NONE\<rparr>, fl_aba_counter = 0, fl_element_counter = 0\<rparr>\<rparr>"
  have lt: "unat (ndescs r) < 2 ^ 31"
    using assms(1) by (simp add: region_size_ok_def)
  then have "sint (ndescs r) = int (unat (ndescs r))"
    by (rule sint_32_small)
  then have pos: "0 < sint (ndescs r)" using assms(2) by (simp only: of_nat_0_less_iff)
  have "\<exists>r'. freelist_init_loop 0 (unat (ndescs r)) ?r = Inr r' \<and> region_size_ok r'
      \<and> ndescs r' = ndescs ?r \<and> free_ok r' (rev [0..<unat (ndescs ?r)]) \<and> stk r' = stk r
      \<and> queues r' = queues r"
    using assms(1) by (intro freelist_init_loop_ok) (auto simp: region_size_ok_def free_ok_def)
  then show ?thesis
    using pos by (simp add: freelist_init_def Let_def)
qed

end
