(* ===== verification/MigQueue.thy ===== *)
theory MigQueue
  imports FreeList
begin

text \<open>
  The coloured queue of \<^verbatim>\<open>libsmm/migqueue.c\<close> and the inline readers of \<^verbatim>\<open>libsmm/mig.h\<close>, run by
  one thread: \<^verbatim>\<open>migqueue_create_color\<close>, \<^verbatim>\<open>migdesc_replicate\<close>,
  \<^verbatim>\<open>migqueue_set_color_if_empty\<close>, \<^verbatim>\<open>mig_enqueue\<close>, \<^verbatim>\<open>mig_dequeue\<close>.  A queue is a chain of
  descriptors whose first one is a dummy; the tail link may lag behind the end of the chain
  (another thread stopped between linking a node and swinging the tail), which the loops repair,
  one node per round.  The fuel of the loops is the number of descriptors plus two, which is
  enough because a chain has no more nodes than there are descriptors.

  The lemmas give, for a well-formed queue, the exact effect of every operation on the chains,
  on the colour and on the descriptor contents.
\<close>

section \<open>Operations\<close>

definition loop_fuel :: "mig_region \<Rightarrow> nat" where
  "loop_fuel r = unat (ndescs r) + 2"

definition migqueue_create_color :: "mig_region \<Rightarrow> qid \<Rightarrow> desc_p \<Rightarrow> color_t \<Rightarrow> mig_region" where
  "migqueue_create_color r q dummy color =
     (let r1 = set_next dummy ((nxt (desc_at r dummy))\<lparr>mp_index := BADINDEX, mp_color := color\<rparr>) r;
          i = desc_to_index r1 dummy;
          r2 = set_tail q ((q_tail (queues r1 q))\<lparr>mp_index := i\<rparr>) r1
      in set_head q ((q_head (queues r2 q))\<lparr>mp_index := i\<rparr>) r2)"

definition migqueue_create :: "mig_region \<Rightarrow> qid \<Rightarrow> desc_p \<Rightarrow> mig_region" where
  "migqueue_create r q dummy = migqueue_create_color r q dummy COLOR_NONE"

text \<open>\<^verbatim>\<open>*new\<close> gets the two content words and the link colour of \<^verbatim>\<open>*old\<close>.\<close>

definition migdesc_replicate :: "mig_region \<Rightarrow> desc_p \<Rightarrow> desc_p \<Rightarrow> mig_region" where
  "migdesc_replicate r new old =
     (let d = desc_at r old in
      upd_desc new (\<lambda>n. n\<lparr>word0 := word0 d, word1 := word1 d,
        nxt := (nxt n)\<lparr>mp_color := mp_color (nxt d)\<rparr>\<rparr>) r)"

text \<open>The colour \<open>-1\<close> reports a queue that is not empty.\<close>

fun set_color_loop :: "nat \<Rightarrow> mig_region \<Rightarrow> qid \<Rightarrow> color_t \<Rightarrow> fault + color_t \<times> mig_region" where
  "set_color_loop 0 r q color = Inl Spin"
| "set_color_loop (Suc n) r q color =
     (let head = q_head (queues r q); tail = q_tail (queues r q) in
      bindE (guardE Assert_failed (mp_index head \<noteq> BADINDEX)) (\<lambda>_.
      bindE (index_to_desc r (mp_index head)) (\<lambda>h.
      let nx = nxt (desc_at r h) in
      if raw head = raw (q_head (queues r q)) then
        if mp_index head \<noteq> mp_index tail then Inr (-1, r)
        else if mp_index nx \<noteq> BADINDEX then Inr (-1, r)
        else (let newnext = nx\<lparr>mp_color := color, mp_count := mp_count nx + 1\<rparr> in
          case cas_next h nx newnext r of
            (True, r2) \<Rightarrow> Inr (mp_color nx, r2)
          | (False, r2) \<Rightarrow> set_color_loop n r2 q color)
      else set_color_loop n r q color)))"

definition migqueue_set_color_if_empty ::
  "mig_region \<Rightarrow> qid \<Rightarrow> color_t \<Rightarrow> fault + color_t \<times> mig_region" where
  "migqueue_set_color_if_empty r q color = set_color_loop (loop_fuel r) r q color"

text \<open>
  The enqueue loop ends with the tail it saw and the link \<^verbatim>\<open>tmp\<close> it committed.  In the branch
  that swings a lagging tail only \<^verbatim>\<open>tmp\<close>'s index and count are set: the colour stored into the
  tail is whatever \<^verbatim>\<open>tmp\<close> held.
\<close>

fun enq_loop ::
  "nat \<Rightarrow> mig_region \<Rightarrow> qid \<Rightarrow> desc_p \<Rightarrow> mig_desc_ptr \<Rightarrow> fault + mig_desc_ptr \<times> mig_desc_ptr \<times> mig_region"
where
  "enq_loop 0 r q desc tmp = Inl Spin"
| "enq_loop (Suc n) r q desc tmp =
     (let tail = q_tail (queues r q) in
      bindE (index_to_desc r (mp_index tail)) (\<lambda>t.
      let nx = nxt (desc_at r t) in
      if raw tail = raw (q_tail (queues r q)) then
        if mp_index nx = BADINDEX then
          (let tmp1 = tmp\<lparr>mp_index := desc_to_index r desc, mp_color := mp_color nx\<rparr>;
               r1 = set_next desc ((nxt (desc_at r desc))\<lparr>mp_color := mp_color nx\<rparr>) r
           in if sint (mp_color tmp1) < 0 then Inl Bug
           else (let tmp2 = tmp1\<lparr>mp_count := mp_count nx + 1\<rparr> in
             case cas_next t nx tmp2 r1 of
               (True, r2) \<Rightarrow> Inr (tail, tmp2, r2)
             | (False, r2) \<Rightarrow> enq_loop n r2 q desc tmp2))
        else
          (let tmp1 = tmp\<lparr>mp_index := mp_index nx, mp_count := mp_count tail + 1\<rparr>;
               r1 = snd (cas_tail q tail tmp1 r)
           in enq_loop n r1 q desc tmp1)
      else enq_loop n r q desc tmp))"

definition mig_enqueue :: "mig_region \<Rightarrow> qid \<Rightarrow> desc_p \<Rightarrow> fault + color_t \<times> mig_region" where
  "mig_enqueue r q desc =
     (let r0 = set_next desc ((nxt (desc_at r desc))\<lparr>mp_index := BADINDEX\<rparr>) r in
      bindE (enq_loop (loop_fuel r) r0 q desc (stk r)) (\<lambda>(tail, tmp, r1).
      let tmp1 = tmp\<lparr>mp_index := desc_to_index r1 desc, mp_count := mp_count tail + 1\<rparr>;
          r2 = snd (cas_tail q tail tmp1 r1)
      in Inr (mp_color tmp1, r2)))"

text \<open>
  The dequeue loop carries the replica \<^verbatim>\<open>ret\<close>, taken from the free list in the first round
  that needs it and returned to the free list when the queue turns out to be empty.
\<close>

fun deq_loop :: "nat \<Rightarrow> mig_region \<Rightarrow> qid \<Rightarrow> desc_p option \<Rightarrow> fault + desc_p option \<times> mig_region" where
  "deq_loop 0 r q ret = Inl Spin"
| "deq_loop (Suc n) r q ret =
     (let head = q_head (queues r q); tail = q_tail (queues r q) in
      bindE (guardE Assert_failed (mp_index head \<noteq> BADINDEX)) (\<lambda>_.
      bindE (index_to_desc r (mp_index head)) (\<lambda>h.
      let nx = nxt (desc_at r h) in
      if raw head = raw (q_head (queues r q)) then
        if mp_index tail = mp_index head then
          if mp_index nx = BADINDEX then
            (case ret of
               Some p \<Rightarrow> bindE (freelist_add r p) (\<lambda>r1. Inr (None, r1))
             | None \<Rightarrow> Inr (None, r))
          else deq_loop n (snd (cas_tail q tail (nx\<lparr>mp_count := mp_count tail + 1\<rparr>) r)) q ret
        else
          bindE (guardE Assert_failed (mp_index nx \<noteq> BADINDEX)) (\<lambda>_.
          let nx1 = nx\<lparr>mp_count := mp_count head + 1\<rparr> in
          bindE (case ret of
                   Some p \<Rightarrow> Inr (p, r)
                 | None \<Rightarrow> bindE (freelist_remove r) (\<lambda>(po, r1).
                     case po of None \<Rightarrow> Inl Bug | Some p \<Rightarrow> Inr (p, r1))) (\<lambda>(p, r1).
          bindE (index_to_desc r1 (mp_index nx1)) (\<lambda>d.
          let r2 = migdesc_replicate r1 p d in
          case cas_head q head nx1 r2 of
            (True, r3) \<Rightarrow> bindE (index_to_desc r3 (mp_index head)) (\<lambda>oldh.
              bindE (freelist_add r3 oldh) (\<lambda>r4. Inr (Some p, r4)))
          | (False, r3) \<Rightarrow> deq_loop n r3 q (Some p))))
      else deq_loop n r q ret)))"

definition mig_dequeue :: "mig_region \<Rightarrow> qid \<Rightarrow> fault + desc_p option \<times> mig_region" where
  "mig_dequeue r q = deq_loop (loop_fuel r) r q None"

definition migqueue_color :: "mig_region \<Rightarrow> qid \<Rightarrow> fault + color_t" where
  "migqueue_color r q =
     bindE (index_to_desc r (mp_index (q_head (queues r q)))) (\<lambda>h. Inr (mp_color (nxt (desc_at r h))))"

definition migqueue_is_empty :: "mig_region \<Rightarrow> qid \<Rightarrow> bool" where
  "migqueue_is_empty r q \<longleftrightarrow> mp_index (q_head (queues r q)) = mp_index (q_tail (queues r q))"

lemmas loop_simps = set_color_loop.simps(2) enq_loop.simps(2) deq_loop.simps(2)

declare loop_simps [simp del]

lemma migdesc_replicate_frame [simp]:
  "ndescs (migdesc_replicate r a b) = ndescs r" "queues (migdesc_replicate r a b) = queues r"
  "freelist (migdesc_replicate r a b) = freelist r" "stk (migdesc_replicate r a b) = stk r"
  "length (desc_array (migdesc_replicate r a b)) = length (desc_array r)"
  by (simp_all add: migdesc_replicate_def Let_def)

section \<open>Well-formed queues\<close>

text \<open>
  \<open>ch\<close> is the chain from the head link: the dummy, then the queued descriptors.  The tail link
  points to some member of it, all links have the queue's colour \<open>c\<close>, and \<open>c\<close> is not negative.
\<close>

definition queue_ok :: "mig_region \<Rightarrow> qid \<Rightarrow> desc_p list \<Rightarrow> color_t \<Rightarrow> bool" where
  "queue_ok r q ch c \<longleftrightarrow> ch \<noteq> [] \<and> distinct ch \<and> chain r (mp_index (q_head (queues r q))) ch
     \<and> mp_index (q_tail (queues r q)) \<noteq> BADINDEX
     \<and> unat (mp_index (q_tail (queues r q))) \<in> set ch
     \<and> (\<forall>p\<in>set ch. mp_color (nxt (desc_at r p)) = c) \<and> 0 \<le> sint c"

lemma queue_ok_bound: "queue_ok r q ch c \<Longrightarrow> set ch \<subseteq> {..<unat (ndescs r)}"
  by (auto simp: queue_ok_def dest: chain_bounded)

lemma queue_ok_cong:
  assumes "queue_ok r q ch c" and "ndescs r' = ndescs r" and "queues r' q = queues r q"
    and "\<And>p. p \<in> set ch \<Longrightarrow> nxt (desc_at r' p) = nxt (desc_at r p)"
  shows "queue_ok r' q ch c"
proof -
  have "chain r' (mp_index (q_head (queues r q))) ch"
    using assms by (subst chain_cong [of _ r]) (auto simp: nexti_def queue_ok_def)
  then show ?thesis using assms by (simp add: queue_ok_def)
qed

lemma chain_frame [simp]:
  "chain (set_tail q v r) i ps = chain r i ps" "chain (set_head q v r) i ps = chain r i ps"
  "chain (set_top v r) i ps = chain r i ps"
  by (rule chain_cong; simp add: nexti_def)+

lemma queue_ok_set_tail:
  assumes "queue_ok r q ch c" and "mp_index v \<noteq> BADINDEX" and "unat (mp_index v) \<in> set ch"
  shows "queue_ok (set_tail q v r) q ch c"
  using assms by (simp add: queue_ok_def)

text \<open>Swinging a lagging tail to the next node keeps the queue well formed.\<close>

lemma queue_ok_swing:
  assumes ok: "queue_ok r q (pre @ t # y # post) c" and t: "unat (mp_index (q_tail (queues r q))) = t"
    and v: "mp_index v = nexti r t"
  shows "queue_ok (set_tail q v r) q (pre @ t # y # post) c" and "unat (mp_index v) = y"
    and "nexti r t \<noteq> BADINDEX"
proof -
  have "chain r (mp_index (q_head (queues r q))) (pre @ t # y # post)"
    using ok by (simp add: queue_ok_def)
  then have ch: "chain r (nexti r t) (y # post)"
    by (rule chain_drop)
  then show "nexti r t \<noteq> BADINDEX" and y: "unat (mp_index v) = y"
    by (simp_all add: v)
  show "queue_ok (set_tail q v r) q (pre @ t # y # post) c"
    using ok ch y by (intro queue_ok_set_tail) (auto simp: v)
qed

lemma fuel_Suc: "loop_fuel r = Suc (Suc (unat (ndescs r)))"
  by (simp add: loop_fuel_def)

lemma fuel_enough:
  assumes "queue_ok r q ch c"
  shows "length ch < loop_fuel r"
proof -
  have "length ch \<le> unat (ndescs r)"
    using assms queue_ok_bound [OF assms]
    by (intro length_le_if_distinct_bounded) (auto simp: queue_ok_def)
  then show ?thesis by (simp add: loop_fuel_def)
qed

lemma tail_split:
  assumes "queue_ok r q ch c"
  obtains pre t post where "ch = pre @ t # post" "unat (mp_index (q_tail (queues r q))) = t"
  using assms split_list [of "unat (mp_index (q_tail (queues r q)))" ch]
  by (auto simp: queue_ok_def)

section \<open>Enqueue\<close>

text \<open>What enqueueing \<open>p\<close> on the queue with chain \<open>ch\<close> and colour \<open>c\<close> does to the region.\<close>

definition enq_post :: "mig_region \<Rightarrow> mig_region \<Rightarrow> qid \<Rightarrow> desc_p \<Rightarrow> desc_p list \<Rightarrow> color_t \<Rightarrow> bool" where
  "enq_post r r' q p ch c \<longleftrightarrow>
     ndescs r' = ndescs r \<and> freelist r' = freelist r \<and> stk r' = stk r
     \<and> length (desc_array r') = length (desc_array r)
     \<and> (\<forall>q'. q' \<noteq> q \<longrightarrow> queues r' q' = queues r q')
     \<and> (\<forall>x. word0 (desc_at r' x) = word0 (desc_at r x) \<and> word1 (desc_at r' x) = word1 (desc_at r x)
          \<and> refcnt (desc_at r' x) = refcnt (desc_at r x))
     \<and> (\<forall>x. x \<noteq> p \<and> x \<noteq> last ch \<longrightarrow> desc_at r' x = desc_at r x)
     \<and> queue_ok r' q (ch @ [p]) c"

lemma set_tail_other [simp]: "q' \<noteq> q \<Longrightarrow> queues (set_tail q v r) q' = queues r q'"
  by (simp add: set_tail_def)

lemma set_head_other [simp]: "q' \<noteq> q \<Longrightarrow> queues (set_head q v r) q' = queues r q'"
  by (simp add: set_head_def)

lemma nexti_frame [simp]:
  "nexti (set_tail q v r) x = nexti r x" "nexti (set_head q v r) x = nexti r x"
  "nexti (set_top v r) x = nexti r x"
  by (simp_all add: nexti_def)

text \<open>The commit: the last link of the chain is set to a node that has no successor and the colour.\<close>

lemma link_enq_post:
  assumes sz: "region_size_ok r" and ok: "queue_ok r q ch c"
    and p: "p < unat (ndescs r)" "p \<notin> set ch" "nexti r p = BADINDEX" "mp_color (nxt (desc_at r p)) = c"
    and tmp: "mp_index tmp = of_nat p" "mp_color tmp = c"
  shows "enq_post r (set_next (last ch) tmp r) q p ch c"
proof -
  let ?l = "last ch" and ?r = "set_next (last ch) tmp r"
  have ne: "ch \<noteq> []" and lin: "?l \<in> set ch" and ch: "chain r (mp_index (q_head (queues r q))) ch"
    using ok by (auto simp: queue_ok_def)
  have lp: "?l \<noteq> p" using lin p(2) by auto
  have len: "?l < length (desc_array r)" using sz lin queue_ok_bound [OF ok] by (auto simp: region_size_ok_def)
  have dx: "desc_at ?r x = (if x = ?l then (desc_at r ?l)\<lparr>nxt := tmp\<rparr> else desc_at r x)" for x
    using len by (auto simp: desc_at_set_next)
  have "chain ?r (mp_index (q_head (queues r q))) (ch @ [p])"
  proof (rule chain_append_last [OF ch ne p(1)])
    show "unat (of_nat p :: index_t) = p" "(of_nat p :: index_t) \<noteq> BADINDEX"
      using ok_index [OF sz p(1)] by simp_all
    show "nexti ?r x = nexti r x" if "x \<in> set (butlast ch)" for x
    proof -
      have "x \<noteq> ?l"
        using that ok ne by (metis append_butlast_last_id distinct_butlast not_distinct_conv_prefix queue_ok_def)
      then show ?thesis by (simp add: nexti_def dx)
    qed
    show "nexti ?r ?l = of_nat p" "nexti ?r p = BADINDEX" "ndescs ?r = ndescs r"
      using p(3) lp tmp by (simp_all add: nexti_def dx)
  qed
  then have "queue_ok ?r q (ch @ [p]) c"
    using ok p(2,4) tmp by (auto simp: queue_ok_def dx)
  then show ?thesis by (auto simp: enq_post_def dx)
qed

lemma enq_post_own:
  "enq_post (set_next p v r) r' q p ch c \<Longrightarrow> p < length (desc_array r) \<Longrightarrow> enq_post r r' q p ch c"
  by (auto simp: enq_post_def desc_at_set_next)

text \<open>The tail is at the end: the round commits the new node behind it.\<close>

lemma enq_commit:
  assumes sz: "region_size_ok r" and ok: "queue_ok r q ch c"
    and l: "unat (mp_index (q_tail (queues r q))) = last ch"
    and p: "p < unat (ndescs r)" "p \<notin> set ch" "nexti r p = BADINDEX"
  shows "\<exists>tmp2 r2. enq_loop (Suc n) r q p tmp = Inr (q_tail (queues r q), tmp2, r2)
    \<and> mp_color tmp2 = c \<and> enq_post r r2 q p ch c \<and> queues r2 = queues r"
proof -
  let ?l = "last ch"
  define nx where "nx = nxt (desc_at r ?l)"
  define tmp2 where "tmp2 = tmp\<lparr>mp_index := of_nat p, mp_color := mp_color nx, mp_count := mp_count nx + 1\<rparr>"
  define r1 where "r1 = set_next p ((nxt (desc_at r p))\<lparr>mp_color := mp_color nx\<rparr>) r"
  have ne: "ch \<noteq> []" and lin: "?l \<in> set ch" and ch: "chain r (mp_index (q_head (queues r q))) ch"
    using ok by (auto simp: queue_ok_def)
  have lp: "?l \<noteq> p" using lin p(2) by auto
  have len: "p < length (desc_array r)" "?l < length (desc_array r)" "?l < unat (ndescs r)"
    using p(1) sz lin queue_ok_bound [OF ok] by (auto simp: region_size_ok_def)
  have nb: "mp_index nx = BADINDEX"
    using chain_last [OF ch ne] by (simp add: nx_def nexti_def)
  have col: "mp_color nx = c" "0 \<le> sint c"
    using ok lin by (auto simp: queue_ok_def nx_def)
  have step: "enq_loop (Suc n) r q p tmp = Inr (q_tail (queues r q), tmp2, set_next ?l tmp2 r1)"
    using l len nb col lp
    by (simp add: loop_simps Let_def nx_def [symmetric] cas_next_def desc_to_index_def r1_def [symmetric])
       (auto simp: r1_def tmp2_def desc_at_set_next nx_def)
  have "desc_at r1 x = desc_at r x" if "x \<in> set ch" for x
    using that p(2) by (cases "x = p") (simp_all add: r1_def)
  then have "queue_ok r1 q ch c"
    by (intro queue_ok_cong [OF ok]) (simp_all add: r1_def)
  then have "enq_post r1 (set_next ?l tmp2 r1) q p ch c"
    using sz p len col by (intro link_enq_post) (auto simp: r1_def region_size_ok_def nexti_def desc_at_set_next tmp2_def)
  then have "enq_post r (set_next ?l tmp2 r1) q p ch c"
    unfolding r1_def using len(1) by (rule enq_post_own)
  then show ?thesis
    using step col by (auto simp: tmp2_def r1_def)
qed

text \<open>A lagging tail: every round swings it one node on, then the round above applies.\<close>

lemma enq_loop_ok:
  assumes "region_size_ok r" and "queue_ok r q (pre @ t # post) c"
    and "unat (mp_index (q_tail (queues r q))) = t"
    and "p < unat (ndescs r)" "p \<notin> set (pre @ t # post)" "nexti r p = BADINDEX"
    and "length post < n"
  shows "\<exists>tl tmp2 r2. enq_loop n r q p tmp = Inr (tl, tmp2, r2) \<and> q_tail (queues r2 q) = tl
    \<and> mp_color tmp2 = c \<and> enq_post r r2 q p (pre @ t # post) c"
  using assms
proof (induction post arbitrary: pre t r n tmp)
  case Nil
  then obtain m where n: "n = Suc m" by (cases n) auto
  show ?case
    using enq_commit [of r q "pre @ [t]" c p m tmp] Nil by (auto simp: n)
next
  case (Cons y post)
  then obtain m where n: "n = Suc m" and m: "length post < m" by (cases n) auto
  define nx where "nx = nxt (desc_at r t)"
  define tmp1 where "tmp1 = tmp\<lparr>mp_index := mp_index nx, mp_count := mp_count (q_tail (queues r q)) + 1\<rparr>"
  define r1 where "r1 = set_tail q tmp1 r"
  have nx: "mp_index tmp1 = nexti r t" by (simp add: tmp1_def nx_def nexti_def)
  note sw = queue_ok_swing [OF Cons.prems(2,3) nx]
  have t: "t < unat (ndescs r)"
    using queue_ok_bound [OF Cons.prems(2)] by auto
  have step: "enq_loop n r q p tmp = enq_loop m r1 q p tmp1"
    using Cons.prems(3) sw(3) t
    by (simp add: loop_simps n Let_def nx_def [symmetric] cas_tail_def r1_def tmp1_def nexti_def)
  have "\<exists>tl tmp2 r2. enq_loop m r1 q p tmp1 = Inr (tl, tmp2, r2) \<and> q_tail (queues r2 q) = tl
    \<and> mp_color tmp2 = c \<and> enq_post r1 r2 q p ((pre @ [t]) @ y # post) c"
    using Cons.prems sw m by (intro Cons.IH) (auto simp: r1_def region_size_ok_def)
  moreover have "enq_post r r2 q p (pre @ t # y # post) c"
    if "enq_post r1 r2 q p ((pre @ [t]) @ y # post) c" for r2
    using that by (simp add: enq_post_def r1_def)
  ultimately show ?case unfolding step by auto
qed

lemma mig_enqueue_ok:
  assumes sz: "region_size_ok r" and ok: "queue_ok r q ch c"
    and p: "p < unat (ndescs r)" "p \<notin> set ch"
  shows "\<exists>r'. mig_enqueue r q p = Inr (c, r') \<and> enq_post r r' q p ch c
    \<and> unat (mp_index (q_tail (queues r' q))) = p"
proof -
  define r0 where "r0 = set_next p ((nxt (desc_at r p))\<lparr>mp_index := BADINDEX\<rparr>) r"
  have len: "p < length (desc_array r)" using sz p by (simp add: region_size_ok_def)
  have dx: "desc_at r0 x = (if x = p then (desc_at r p)\<lparr>nxt := (nxt (desc_at r p))\<lparr>mp_index := BADINDEX\<rparr>\<rparr>
      else desc_at r x)" for x
    using len by (auto simp: r0_def desc_at_set_next)
  have ok0: "queue_ok r0 q ch c"
    by (rule queue_ok_cong [OF ok]) (use p(2) in \<open>auto simp: dx, auto simp: r0_def\<close>)
  then obtain pre t post where ch: "ch = pre @ t # post" and t: "unat (mp_index (q_tail (queues r0 q))) = t"
    by (rule tail_split)
  have sz0: "region_size_ok r0" using sz by (simp add: r0_def region_size_ok_def)
  have "length post < loop_fuel r"
    using fuel_enough [OF ok] ch by simp
  then obtain tl tmp2 r2 where lp: "enq_loop (loop_fuel r) r0 q p (stk r) = Inr (tl, tmp2, r2)"
    and tl: "q_tail (queues r2 q) = tl" and col: "mp_color tmp2 = c" and post: "enq_post r0 r2 q p ch c"
    using enq_loop_ok [OF sz0 ok0 [unfolded ch] t, of p "loop_fuel r" "stk r"] p ch
    by (auto simp: nexti_def dx, auto simp: r0_def)
  define tmp1 where "tmp1 = tmp2\<lparr>mp_index := of_nat p, mp_count := mp_count tl + 1\<rparr>"
  have eq: "mig_enqueue r q p = Inr (c, set_tail q tmp1 r2)"
    using lp tl col by (simp add: mig_enqueue_def r0_def [symmetric] cas_tail_def tmp1_def desc_to_index_def Let_def)
  have ix: "mp_index tmp1 \<noteq> BADINDEX" "unat (mp_index tmp1) = p"
    using ok_index [OF sz p(1)] by (simp_all add: tmp1_def)
  have "enq_post r r2 q p ch c"
    using post unfolding enq_post_def dx by (simp add: r0_def)
  then have "enq_post r (set_tail q tmp1 r2) q p ch c"
    using ix by (auto simp: enq_post_def intro: queue_ok_set_tail)
  then show ?thesis using eq ix by auto
qed

section \<open>Colour\<close>

lemma head_in_bounds:
  assumes "queue_ok r q (h # xs) c"
  shows "unat (mp_index (q_head (queues r q))) = h" "h < unat (ndescs r)"
    "mp_index (q_head (queues r q)) \<noteq> BADINDEX" "mp_color (nxt (desc_at r h)) = c"
  using assms by (auto simp: queue_ok_def)

lemma migqueue_color_ok:
  assumes "queue_ok r q ch c"
  shows "migqueue_color r q = Inr c"
proof -
  obtain h xs where "ch = h # xs" using assms by (cases ch) (auto simp: queue_ok_def)
  then show ?thesis using head_in_bounds [of r q h xs c] assms by (simp add: migqueue_color_def)
qed

definition color_post :: "mig_region \<Rightarrow> mig_region \<Rightarrow> qid \<Rightarrow> desc_p \<Rightarrow> color_t \<Rightarrow> bool" where
  "color_post r r' q h c \<longleftrightarrow>
     ndescs r' = ndescs r \<and> freelist r' = freelist r \<and> stk r' = stk r \<and> queues r' = queues r
     \<and> length (desc_array r') = length (desc_array r)
     \<and> (\<forall>x. word0 (desc_at r' x) = word0 (desc_at r x) \<and> word1 (desc_at r' x) = word1 (desc_at r x)
          \<and> refcnt (desc_at r' x) = refcnt (desc_at r x) \<and> nexti r' x = nexti r x)
     \<and> (\<forall>x. x \<noteq> h \<longrightarrow> desc_at r' x = desc_at r x)
     \<and> queue_ok r' q [h] c"

lemma set_color_nonempty:
  assumes ok: "queue_ok r q (h # x # xs) c"
  shows "migqueue_set_color_if_empty r q color = Inr (-1, r)"
proof -
  note h = head_in_bounds [OF ok]
  have nx: "mp_index (nxt (desc_at r h)) \<noteq> BADINDEX"
    using ok by (auto simp: queue_ok_def nexti_def)
  show ?thesis
    using h nx by (simp add: loop_simps migqueue_set_color_if_empty_def loop_fuel_def Let_def)
qed

lemma link_color_post:
  assumes sz: "region_size_ok r" and ok: "queue_ok r q [h] c" and new: "0 \<le> sint color"
    and v: "mp_index v = BADINDEX" "mp_color v = color"
  shows "color_post r (set_next h v r) q h color"
proof -
  have len: "h < length (desc_array r)" using sz head_in_bounds(2) [OF ok] by (simp add: region_size_ok_def)
  have nb: "nexti r h = BADINDEX" using ok by (auto simp: queue_ok_def)
  have "chain (set_next h v r) (mp_index (q_head (queues r q))) [h]"
    using ok len v by (auto simp: queue_ok_def nexti_def desc_at_set_next)
  then show ?thesis
    using ok len new nb v by (auto simp: color_post_def queue_ok_def nexti_def desc_at_set_next)
qed

lemma set_color_empty:
  assumes sz: "region_size_ok r" and ok: "queue_ok r q [h] c" and new: "0 \<le> sint color"
  shows "\<exists>r'. migqueue_set_color_if_empty r q color = Inr (c, r') \<and> color_post r r' q h color"
proof -
  note h = head_in_bounds [OF ok]
  define nx where "nx = nxt (desc_at r h)"
  define v where "v = nx\<lparr>mp_color := color, mp_count := mp_count nx + 1\<rparr>"
  have nb: "mp_index nx = BADINDEX"
    using ok by (auto simp: queue_ok_def nexti_def nx_def)
  have tl: "mp_index (q_tail (queues r q)) = mp_index (q_head (queues r q))"
    using ok h(1) by (auto simp: queue_ok_def unat_16_eq_iff [symmetric])
  have "migqueue_set_color_if_empty r q color = Inr (c, set_next h v r)"
    using h nb tl
    by (simp add: loop_simps migqueue_set_color_if_empty_def loop_fuel_def Let_def cas_next_def v_def nx_def)
  moreover have "color_post r (set_next h v r) q h color"
    using nb by (intro link_color_post [OF sz ok new]) (simp_all add: v_def)
  ultimately show ?thesis by blast
qed

section \<open>Dequeue\<close>

lemma deq_empty:
  assumes ok: "queue_ok r q [h] c"
  shows "mig_dequeue r q = Inr (None, r)"
proof -
  note h = head_in_bounds [OF ok]
  have nb: "mp_index (nxt (desc_at r h)) = BADINDEX"
    using ok by (auto simp: queue_ok_def nexti_def)
  have "mp_index (q_tail (queues r q)) = mp_index (q_head (queues r q))"
    using ok h(1) by (auto simp: queue_ok_def unat_16_eq_iff [symmetric])
  then show ?thesis
    using h nb by (simp add: loop_simps mig_dequeue_def loop_fuel_def Let_def)
qed

text \<open>What taking the first element \<open>x\<close> off the queue does: \<open>p\<close> is the replica handed out.\<close>

definition deq_post ::
  "mig_region \<Rightarrow> mig_region \<Rightarrow> qid \<Rightarrow> desc_p \<Rightarrow> desc_p \<Rightarrow> desc_p \<Rightarrow> desc_p list \<Rightarrow> desc_p list \<Rightarrow> color_t \<Rightarrow> bool"
where
  "deq_post r r' q p h x xs fl c \<longleftrightarrow>
     ndescs r' = ndescs r \<and> stk r' = stk r
     \<and> length (desc_array r') = length (desc_array r)
     \<and> (\<forall>q'. q' \<noteq> q \<longrightarrow> queues r' q' = queues r q')
     \<and> (\<forall>y. refcnt (desc_at r' y) = refcnt (desc_at r y))
     \<and> (\<forall>y. y \<noteq> p \<and> y \<noteq> h \<longrightarrow> desc_at r' y = desc_at r y)
     \<and> word0 (desc_at r' p) = word0 (desc_at r x) \<and> word1 (desc_at r' p) = word1 (desc_at r x)
     \<and> mp_color (nxt (desc_at r' p)) = c
     \<and> queue_ok r' q (x # xs) c \<and> free_ok r' (h # fl)"

lemma deq_commit:
  assumes sz: "region_size_ok r" and ok: "queue_ok r q (h # x # xs) c"
    and tl: "mp_index (q_tail (queues r q)) \<noteq> mp_index (q_head (queues r q))"
    and fl: "free_ok r (p # fl)" and disj: "set (p # fl) \<inter> set (h # x # xs) = {}"
    and rc: "refcnt (desc_at r h) = 0"
  shows "\<exists>r'. deq_loop (Suc n) r q None = Inr (Some p, r') \<and> deq_post r r' q p h x xs fl c"
proof -
  note h = head_in_bounds [OF ok]
  define nx1 where "nx1 = (nxt (desc_at r h))\<lparr>mp_count := mp_count (q_head (queues r q)) + 1\<rparr>"
  define ra where "ra = rem_result r p"
  define rb where "rb = migdesc_replicate ra p x"
  define rc' where "rc' = set_head q nx1 rb"
  have bx: "x < unat (ndescs r)" and bp: "p < unat (ndescs r)" and bh: "h < unat (ndescs r)"
    using queue_ok_bound [OF ok] fl by (auto simp: free_ok_def)
  have len: "p < length (desc_array r)" "h < length (desc_array r)"
    using sz bp bh by (simp_all add: region_size_ok_def)
  have nx: "mp_index nx1 \<noteq> BADINDEX" "unat (mp_index nx1) = x"
    using ok by (auto simp: queue_ok_def nexti_def nx1_def)
  have ne: "p \<noteq> h" "p \<noteq> x" "h \<noteq> x" "p \<notin> set fl" "h \<notin> set fl" "h \<notin> set xs" "p \<notin> set xs"
    using disj ok fl by (auto simp: queue_ok_def free_ok_def)
  have db: "desc_at rb y = (if y = p then (desc_at r p)\<lparr>word0 := word0 (desc_at r x),
      word1 := word1 (desc_at r x), nxt := (nxt (desc_at r p))\<lparr>mp_color := c\<rparr>\<rparr> else desc_at r y)" for y
    using len ok by (auto simp: rb_def ra_def migdesc_replicate_def Let_def desc_at_upd queue_ok_def)
  have fr: "ndescs rc' = ndescs r" "stk rc' = stk r" "length (desc_array rc') = length (desc_array r)"
    "desc_at rc' y = desc_at rb y" "q_head (queues rb q) = q_head (queues r q)" "ndescs rb = ndescs r"
    "fl_top (freelist rc') = nxt (desc_at r p)"
    for y
    by (simp_all add: rc'_def rb_def ra_def migdesc_replicate_def Let_def rem_result_def)
  have frf: "free_ok rc' fl"
  proof -
    have "free_ok ra fl" using freelist_remove_Cons(2) [OF fl] by (simp add: ra_def)
    moreover have "mp_index (fl_top (freelist rc')) = mp_index (fl_top (freelist ra))"
      by (simp add: fr ra_def rem_result_def)
    moreover have "chain rc' i fl = chain ra i fl" for i
      using ne by (intro chain_cong) (auto simp: fr db nexti_def ra_def)
    ultimately show ?thesis using ne by (auto simp: free_ok_def fr db ra_def)
  qed
  have szc: "region_size_ok rc'" using sz by (simp add: region_size_ok_def fr)
  have rch: "refcnt (desc_at rc' h) = 0" using rc ne by (simp add: fr db)
  have add: "freelist_add rc' h = Inr (add_result rc' h)"
    using szc bh rch by (intro freelist_add_eq) (simp_all add: fr)
  have folds: "migdesc_replicate ra p x = rb" "queues ra = queues r" "ndescs ra = ndescs r"
    "set_head q ((nxt (desc_at r h))\<lparr>mp_count := mp_count (q_head (queues r q)) + 1\<rparr>) rb = rc'"
    "queues rb = queues r"
    by (simp_all add: rb_def rc'_def nx1_def ra_def)
  have nx': "mp_index (nxt (desc_at r h)) \<noteq> BADINDEX" "unat (mp_index (nxt (desc_at r h))) = x"
    using nx by (simp_all add: nx1_def)
  have step: "deq_loop (Suc n) r q None = Inr (Some p, add_result rc' h)"
    using h tl nx' bx bh add freelist_remove_Cons(1) [OF fl, folded ra_def]
    by (simp add: loop_simps Let_def cas_head_def folds fr)
  define r' where "r' = add_result rc' h"
  have dr: "desc_at r' y = (if y = h then (desc_at r h)\<lparr>nxt := fl_top (freelist rc')\<rparr> else desc_at rb y)" for y
    using len ne by (auto simp: r'_def add_result_desc fr db)
  have free': "free_ok r' (h # fl)"
    unfolding r'_def using szc bh ne rch frf by (intro free_ok_add) (simp_all add: fr)
  have q': "q_head (queues r' q) = nx1" "q_tail (queues r' q) = q_tail (queues r q)" "ndescs r' = ndescs r"
    by (simp_all add: r'_def rc'_def rb_def ra_def migdesc_replicate_def Let_def)
  have "chain r' (mp_index nx1) (x # xs)"
  proof -
    have "chain r (nexti r h) (x # xs)" using ok by (simp add: queue_ok_def)
    moreover have "nexti r h = mp_index nx1" by (simp add: nexti_def nx1_def)
    moreover have "chain r' (mp_index nx1) (x # xs) = chain r (mp_index nx1) (x # xs)"
      using ne by (intro chain_cong) (auto simp: q' nexti_def dr db)
    ultimately show ?thesis by simp
  qed
  moreover have "unat (mp_index (q_tail (queues r q))) \<in> set (x # xs)"
    using ok tl h(1) by (auto simp: queue_ok_def unat_16_eq_iff [symmetric])
  ultimately have qo: "queue_ok r' q (x # xs) c"
    using ok ne by (auto simp: queue_ok_def q' dr db)
  have "deq_post r r' q p h x xs fl c"
    using free' qo ne unfolding deq_post_def dr db
    by (auto simp: r'_def rc'_def rb_def ra_def migdesc_replicate_def Let_def)
  then show ?thesis using step by (auto simp: r'_def)
qed

lemma deq_swing:
  assumes ok: "queue_ok r q (h # x # xs) c"
    and tl: "mp_index (q_tail (queues r q)) = mp_index (q_head (queues r q))"
  obtains v where "mig_dequeue r q = deq_loop (Suc (unat (ndescs r))) (set_tail q v r) q None"
    and "queue_ok (set_tail q v r) q (h # x # xs) c"
    and "mp_index (q_tail (queues (set_tail q v r) q)) \<noteq> mp_index (q_head (queues (set_tail q v r) q))"
proof -
  note h = head_in_bounds [OF ok]
  define v where "v = (nxt (desc_at r h))\<lparr>mp_count := mp_count (q_tail (queues r q)) + 1\<rparr>"
  have v: "mp_index v = nexti r h" by (simp add: v_def nexti_def)
  have t: "unat (mp_index (q_tail (queues r q))) = h" using tl h(1) by simp
  have ok': "queue_ok r q ([] @ h # x # xs) c" using ok by simp
  note sw = queue_ok_swing [OF ok' t v]
  have nb: "mp_index (nxt (desc_at r h)) \<noteq> BADINDEX" using sw(3) by (simp add: nexti_def)
  have "deq_loop (Suc n) r q None = deq_loop n (set_tail q v r) q None" for n
    using h tl nb by (simp add: loop_simps Let_def cas_tail_def v_def)
  then have "mig_dequeue r q = deq_loop (Suc (unat (ndescs r))) (set_tail q v r) q None"
    by (simp only: mig_dequeue_def fuel_Suc)
  moreover have "unat (mp_index v) \<noteq> unat (mp_index (q_head (queues r q)))"
    using ok unfolding sw(2) h(1) by (simp add: queue_ok_def)
  then have "mp_index v \<noteq> mp_index (q_head (queues r q))"
    by auto
  ultimately show ?thesis using that [of v] sw(1) by auto
qed

lemma deq_post_set_tail:
  "deq_post (set_tail q v r) r' q p h x xs fl c \<Longrightarrow> deq_post r r' q p h x xs fl c"
  by (simp add: deq_post_def)

lemma free_ok_set_tail [simp]: "free_ok (set_tail q v r) fl = free_ok r fl"
  by (simp add: free_ok_def)

lemma region_size_ok_set_tail [simp]: "region_size_ok (set_tail q v r) = region_size_ok r"
  by (simp add: region_size_ok_def)

lemma mig_dequeue_ok:
  assumes sz: "region_size_ok r" and ok: "queue_ok r q (h # x # xs) c"
    and fl: "free_ok r (p # fl)" and disj: "set (p # fl) \<inter> set (h # x # xs) = {}"
    and rc: "refcnt (desc_at r h) = 0"
  shows "\<exists>r'. mig_dequeue r q = Inr (Some p, r') \<and> deq_post r r' q p h x xs fl c"
proof (cases "mp_index (q_tail (queues r q)) = mp_index (q_head (queues r q))")
  case False
  then show ?thesis
    using deq_commit [OF sz ok False fl disj rc] unfolding mig_dequeue_def fuel_Suc by blast
next
  case True
  obtain v where eq: "mig_dequeue r q = deq_loop (Suc (unat (ndescs r))) (set_tail q v r) q None"
    and ok1: "queue_ok (set_tail q v r) q (h # x # xs) c"
    and tl1: "mp_index (q_tail (queues (set_tail q v r) q)) \<noteq> mp_index (q_head (queues (set_tail q v r) q))"
    using deq_swing [OF ok True] .
  have "\<exists>r'. deq_loop (Suc (unat (ndescs r))) (set_tail q v r) q None = Inr (Some p, r')
      \<and> deq_post (set_tail q v r) r' q p h x xs fl c"
    using sz fl disj rc by (intro deq_commit [OF _ ok1 tl1]) simp_all
  then show ?thesis
    unfolding eq by (blast intro: deq_post_set_tail)
qed

text \<open>A nonempty queue and an exhausted free list: \<^verbatim>\<open>xzl_bug()\<close>.\<close>

lemma deq_commit_exhausted:
  assumes ok: "queue_ok r q (h # x # xs) c"
    and tl: "mp_index (q_tail (queues r q)) \<noteq> mp_index (q_head (queues r q))"
    and fl: "free_ok r []"
  shows "deq_loop (Suc n) r q None = Inl Bug"
proof -
  note h = head_in_bounds [OF ok]
  have "mp_index (nxt (desc_at r h)) \<noteq> BADINDEX" using ok by (auto simp: queue_ok_def nexti_def)
  then show ?thesis
    using h tl freelist_remove_Nil [OF fl] by (simp add: loop_simps Let_def)
qed

lemma mig_dequeue_exhausted:
  assumes ok: "queue_ok r q (h # x # xs) c" and fl: "free_ok r []"
  shows "mig_dequeue r q = Inl Bug"
proof (cases "mp_index (q_tail (queues r q)) = mp_index (q_head (queues r q))")
  case False
  then show ?thesis
    using deq_commit_exhausted [OF ok False fl] unfolding mig_dequeue_def fuel_Suc by blast
next
  case True
  obtain v where eq: "mig_dequeue r q = deq_loop (Suc (unat (ndescs r))) (set_tail q v r) q None"
    and ok1: "queue_ok (set_tail q v r) q (h # x # xs) c"
    and tl1: "mp_index (q_tail (queues (set_tail q v r) q)) \<noteq> mp_index (q_head (queues (set_tail q v r) q))"
    using deq_swing [OF ok True] .
  show ?thesis
    unfolding eq using fl by (intro deq_commit_exhausted [OF ok1 tl1]) simp
qed

section \<open>Creation\<close>

lemma migqueue_create_color_ok:
  assumes sz: "region_size_ok r" and d: "d < unat (ndescs r)" and c: "0 \<le> sint c"
  shows "queue_ok (migqueue_create_color r q d c) q [d] c"
    and "ndescs (migqueue_create_color r q d c) = ndescs r"
    and "freelist (migqueue_create_color r q d c) = freelist r"
    and "region_size_ok (migqueue_create_color r q d c)"
    and "q' \<noteq> q \<Longrightarrow> queues (migqueue_create_color r q d c) q' = queues r q'"
    and "x \<noteq> d \<Longrightarrow> desc_at (migqueue_create_color r q d c) x = desc_at r x"
    and "refcnt (desc_at (migqueue_create_color r q d c) x) = refcnt (desc_at r x)"
    and "stk (migqueue_create_color r q d c) = stk r"
proof -
  have len: "d < length (desc_array r)" using sz d by (simp add: region_size_ok_def)
  have ix: "(of_nat d :: index_t) \<noteq> BADINDEX" "unat (of_nat d :: index_t) = d"
    using ok_index [OF sz d] by simp_all
  show "queue_ok (migqueue_create_color r q d c) q [d] c"
    using ix len d c
    by (auto simp: queue_ok_def migqueue_create_color_def Let_def desc_to_index_def nexti_def desc_at_set_next)
qed (use sz d in \<open>auto simp: migqueue_create_color_def Let_def region_size_ok_def desc_at_set_next\<close>)

end
