(* ===== verification/QueueSpec.thy ===== *)
theory QueueSpec
  imports Prelude
begin

text \<open>
  The contract between the queue library and its clients (the user API and the driver), as
  locales over an abstract state.  A descriptor is always in one place: \<open>inv s own\<close> says that the
  state is well formed and that exactly the descriptors of \<open>own\<close> are in the hands of clients;
  \<open>cont s q\<close> is what lies on queue \<open>q\<close>, oldest first; \<open>val s d\<close> is the content of descriptor \<open>d\<close>;
  \<open>spare s\<close> is the number of free descriptors.  A dequeue hands out a replica taken from the
  free list and frees the old head, so it needs one spare descriptor but leaves their number
  unchanged.

  The clients of the contract proved here: moving one descriptor from a queue to another, and
  moving all of them.
\<close>

section \<open>Client code\<close>

text \<open>One round: dequeue from \<open>a\<close>; when there was something, enqueue it on \<open>b\<close>.\<close>

definition transfer ::
  "('s \<Rightarrow> 'q \<Rightarrow> 'e + 'd option \<times> 's) \<Rightarrow> ('s \<Rightarrow> 'q \<Rightarrow> 'd \<Rightarrow> 'e + 'c \<times> 's) \<Rightarrow> 'q \<Rightarrow> 'q \<Rightarrow> 's \<Rightarrow> 'e + bool \<times> 's"
where
  "transfer deq enq a b s = bindE (deq s a) (\<lambda>(x, s1).
     case x of None \<Rightarrow> Inr (False, s1)
     | Some d \<Rightarrow> bindE (enq s1 b d) (\<lambda>(c, s2). Inr (True, s2)))"

text \<open>\<^verbatim>\<open>while ((desc = mig_dequeue(a))) mig_enqueue(b, desc);\<close> with at most \<open>n\<close> rounds.\<close>

fun drain ::
  "nat \<Rightarrow> 'e \<Rightarrow> ('s \<Rightarrow> 'q \<Rightarrow> 'e + 'd option \<times> 's) \<Rightarrow> ('s \<Rightarrow> 'q \<Rightarrow> 'd \<Rightarrow> 'e + 'c \<times> 's) \<Rightarrow> 'q \<Rightarrow> 'q \<Rightarrow> 's \<Rightarrow> 'e + 's"
where
  "drain 0 e deq enq a b s = Inl e"
| "drain (Suc n) e deq enq a b s = bindE (transfer deq enq a b s) (\<lambda>(more, s1).
     if more then drain n e deq enq a b s1 else Inr s1)"

section \<open>The contract of the queues\<close>

locale desc_pool =
  fixes inv :: "'s \<Rightarrow> 'd set \<Rightarrow> bool"
    and qs :: "'q set"
    and cont :: "'s \<Rightarrow> 'q \<Rightarrow> 'v list"
    and val :: "'s \<Rightarrow> 'd \<Rightarrow> 'v"
    and spare :: "'s \<Rightarrow> nat"
    and clr :: "'s \<Rightarrow> 'q \<Rightarrow> 'c"
    and enq :: "'s \<Rightarrow> 'q \<Rightarrow> 'd \<Rightarrow> 'e + 'c \<times> 's"
    and deq :: "'s \<Rightarrow> 'q \<Rightarrow> 'e + 'd option \<times> 's"
  assumes enq_law: "inv s own \<Longrightarrow> q \<in> qs \<Longrightarrow> d \<in> own \<Longrightarrow>
      \<exists>s'. enq s q d = Inr (clr s q, s') \<and> inv s' (own - {d})
        \<and> cont s' q = cont s q @ [val s d]
        \<and> (\<forall>q'\<in>qs. q' \<noteq> q \<longrightarrow> cont s' q' = cont s q') \<and> (\<forall>q'\<in>qs. clr s' q' = clr s q')
        \<and> spare s' = spare s \<and> (\<forall>x. val s' x = val s x)"
    and deq_none: "inv s own \<Longrightarrow> q \<in> qs \<Longrightarrow> cont s q = [] \<Longrightarrow> deq s q = Inr (None, s)"
    and deq_some: "inv s own \<Longrightarrow> q \<in> qs \<Longrightarrow> cont s q \<noteq> [] \<Longrightarrow> 0 < spare s \<Longrightarrow>
      \<exists>d s'. deq s q = Inr (Some d, s') \<and> d \<notin> own \<and> inv s' (insert d own)
        \<and> cont s q = val s' d # cont s' q
        \<and> (\<forall>q'\<in>qs. q' \<noteq> q \<longrightarrow> cont s' q' = cont s q') \<and> (\<forall>q'\<in>qs. clr s' q' = clr s q')
        \<and> spare s' = spare s \<and> (\<forall>x\<in>own. val s' x = val s x)"
begin

lemma transfer_none:
  assumes "inv s own" "a \<in> qs" "cont s a = []"
  shows "transfer deq enq a b s = Inr (False, s)"
  using deq_none [OF assms] by (simp add: transfer_def)

text \<open>A round with something on \<open>a\<close> moves its oldest element to the end of \<open>b\<close>.\<close>

lemma transfer_some:
  assumes i: "inv s own" and q: "a \<in> qs" "b \<in> qs" "a \<noteq> b" and v: "cont s a = v # vs" and sp: "0 < spare s"
  shows "\<exists>s'. transfer deq enq a b s = Inr (True, s') \<and> inv s' own
    \<and> cont s' a = vs \<and> cont s' b = cont s b @ [v]
    \<and> (\<forall>q'\<in>qs. q' \<noteq> a \<and> q' \<noteq> b \<longrightarrow> cont s' q' = cont s q')
    \<and> (\<forall>q'\<in>qs. clr s' q' = clr s q') \<and> spare s' = spare s"
proof -
  obtain d s1 where d: "deq s a = Inr (Some d, s1)" "d \<notin> own" "inv s1 (insert d own)"
    "cont s a = val s1 d # cont s1 a" "\<forall>q'\<in>qs. q' \<noteq> a \<longrightarrow> cont s1 q' = cont s q'"
    "\<forall>q'\<in>qs. clr s1 q' = clr s q'" "spare s1 = spare s"
    using deq_some [OF i q(1) _ sp] v by force
  obtain s2 where e: "enq s1 b d = Inr (clr s1 b, s2)" "inv s2 (insert d own - {d})"
    "cont s2 b = cont s1 b @ [val s1 d]" "\<forall>q'\<in>qs. q' \<noteq> b \<longrightarrow> cont s2 q' = cont s1 q'"
    "\<forall>q'\<in>qs. clr s2 q' = clr s1 q'" "spare s2 = spare s1"
    using enq_law [OF d(3) q(2)] by blast
  have t: "transfer deq enq a b s = Inr (True, s2)"
    by (simp add: transfer_def d(1) e(1))
  have o: "insert d own - {d} = own" using d(2) by blast
  have ca: "cont s2 a = vs" using e(4) q d(4) v by auto
  have cb: "cont s2 b = cont s b @ [v]" using e(3) d(4,5) q v by auto
  have co: "\<forall>q'\<in>qs. q' \<noteq> a \<and> q' \<noteq> b \<longrightarrow> cont s2 q' = cont s q'" using e(4) d(5) by auto
  have cl: "\<forall>q'\<in>qs. clr s2 q' = clr s q'" using e(5) d(6) by auto
  show ?thesis
    using t e(2) [unfolded o] ca cb co cl e(6) d(7) by auto
qed

text \<open>Enough rounds move everything, in order.\<close>

lemma drain_all:
  assumes "inv s own" and "a \<in> qs" "b \<in> qs" "a \<noteq> b" and "length (cont s a) < n" and "0 < spare s"
  shows "\<exists>s'. drain n e deq enq a b s = Inr s' \<and> inv s' own \<and> cont s' a = []
    \<and> cont s' b = cont s b @ cont s a
    \<and> (\<forall>q'\<in>qs. q' \<noteq> a \<and> q' \<noteq> b \<longrightarrow> cont s' q' = cont s q')
    \<and> (\<forall>q'\<in>qs. clr s' q' = clr s q') \<and> spare s' = spare s"
  using assms
proof (induction n arbitrary: s)
  case (Suc n)
  show ?case
  proof (cases "cont s a")
    case Nil
    then show ?thesis
      using Suc.prems transfer_none [OF Suc.prems(1,2) Nil] by simp
  next
    case (Cons v vs)
    obtain s1 where s1: "transfer deq enq a b s = Inr (True, s1)" "inv s1 own" "cont s1 a = vs"
      "cont s1 b = cont s b @ [v]"
      "\<forall>q'\<in>qs. q' \<noteq> a \<and> q' \<noteq> b \<longrightarrow> cont s1 q' = cont s q'"
      "\<forall>q'\<in>qs. clr s1 q' = clr s q'" "spare s1 = spare s"
      using transfer_some [OF Suc.prems(1-4) Cons Suc.prems(6)] by metis
    have "length (cont s1 a) < n" "0 < spare s1" using Suc.prems(5,6) Cons s1(3,7) by simp_all
    then obtain s2 where "drain n e deq enq a b s1 = Inr s2" "inv s2 own" "cont s2 a = []"
      "cont s2 b = cont s1 b @ cont s1 a"
      "\<forall>q'\<in>qs. q' \<noteq> a \<and> q' \<noteq> b \<longrightarrow> cont s2 q' = cont s1 q'"
      "\<forall>q'\<in>qs. clr s2 q' = clr s1 q'" "spare s2 = spare s1"
      using Suc.IH [OF s1(2) Suc.prems(2-4)] by blast
    then show ?thesis
      using s1 Cons by simp
  qed
qed simp

end

section \<open>Colours and allocation\<close>

text \<open>
  The colour of an empty queue can be exchanged atomically; a queue that is not empty keeps its
  colour and the caller gets the value \<open>busy\<close>.
\<close>

locale colored_pool = desc_pool inv qs cont val spare clr enq deq
  for inv :: "'s \<Rightarrow> 'd set \<Rightarrow> bool" and qs :: "'q set" and cont :: "'s \<Rightarrow> 'q \<Rightarrow> 'v list"
    and val :: "'s \<Rightarrow> 'd \<Rightarrow> 'v" and spare :: "'s \<Rightarrow> nat" and clr :: "'s \<Rightarrow> 'q \<Rightarrow> 'c"
    and enq :: "'s \<Rightarrow> 'q \<Rightarrow> 'd \<Rightarrow> 'e + 'c \<times> 's" and deq :: "'s \<Rightarrow> 'q \<Rightarrow> 'e + 'd option \<times> 's" +
  fixes setc :: "'s \<Rightarrow> 'q \<Rightarrow> 'c \<Rightarrow> 'e + 'c \<times> 's"
    and busy :: 'c
    and okc :: "'c \<Rightarrow> bool"
  assumes setc_busy: "inv s own \<Longrightarrow> q \<in> qs \<Longrightarrow> cont s q \<noteq> [] \<Longrightarrow> setc s q c = Inr (busy, s)"
    and setc_law: "inv s own \<Longrightarrow> q \<in> qs \<Longrightarrow> cont s q = [] \<Longrightarrow> okc c \<Longrightarrow>
      \<exists>s'. setc s q c = Inr (clr s q, s') \<and> inv s' own \<and> clr s' q = c
        \<and> (\<forall>q'\<in>qs. q' \<noteq> q \<longrightarrow> clr s' q' = clr s q') \<and> (\<forall>q'\<in>qs. cont s' q' = cont s q')
        \<and> spare s' = spare s \<and> (\<forall>x. val s' x = val s x)"
    and clr_ok: "inv s own \<Longrightarrow> q \<in> qs \<Longrightarrow> okc (clr s q)"
    and busy_bad: "\<not> okc busy"
begin

text \<open>
  The hand-over of a queue: draining \<open>a\<close> into \<open>b\<close> and then exchanging the colour of \<open>a\<close>
  succeeds, and the new owner finds \<open>a\<close> empty.
\<close>

lemma drain_then_setc:
  assumes "inv s own" and q: "a \<in> qs" "b \<in> qs" "a \<noteq> b" and "length (cont s a) < n" and "0 < spare s"
    and c: "okc c"
  shows "\<exists>s1 s2. drain n e deq enq a b s = Inr s1 \<and> setc s1 a c = Inr (clr s a, s2) \<and> clr s a \<noteq> busy
    \<and> inv s2 own \<and> cont s2 a = [] \<and> cont s2 b = cont s b @ cont s a \<and> clr s2 a = c"
proof -
  obtain s1 where s1: "drain n e deq enq a b s = Inr s1" "inv s1 own" "cont s1 a = []"
    "cont s1 b = cont s b @ cont s a" "\<forall>q'\<in>qs. clr s1 q' = clr s q'"
    using drain_all [OF assms(1-6)] by blast
  obtain s2 where s2: "setc s1 a c = Inr (clr s1 a, s2)" "inv s2 own" "clr s2 a = c"
    "\<forall>q'\<in>qs. cont s2 q' = cont s1 q'"
    using setc_law [OF s1(2) q(1) s1(3) c] by blast
  have "clr s a \<noteq> busy" using clr_ok [OF assms(1) q(1)] busy_bad by metis
  then show ?thesis using s1 s2 q by auto
qed

end

text \<open>Taking descriptors from the free list, writing to the ones held, and giving them back.\<close>

locale alloc_pool = desc_pool inv qs cont val spare clr enq deq
  for inv :: "'s \<Rightarrow> 'd set \<Rightarrow> bool" and qs :: "'q set" and cont :: "'s \<Rightarrow> 'q \<Rightarrow> 'v list"
    and val :: "'s \<Rightarrow> 'd \<Rightarrow> 'v" and spare :: "'s \<Rightarrow> nat" and clr :: "'s \<Rightarrow> 'q \<Rightarrow> 'c"
    and enq :: "'s \<Rightarrow> 'q \<Rightarrow> 'd \<Rightarrow> 'e + 'c \<times> 's" and deq :: "'s \<Rightarrow> 'q \<Rightarrow> 'e + 'd option \<times> 's" +
  fixes alloc :: "'s \<Rightarrow> 'e + 'd option \<times> 's"
    and free :: "'s \<Rightarrow> 'd \<Rightarrow> 'e + 's"
    and put :: "'d \<Rightarrow> ('v \<Rightarrow> 'v) \<Rightarrow> 's \<Rightarrow> 's"
  assumes alloc_none: "inv s own \<Longrightarrow> spare s = 0 \<Longrightarrow> alloc s = Inr (None, s)"
    and alloc_some: "inv s own \<Longrightarrow> 0 < spare s \<Longrightarrow>
      \<exists>d s'. alloc s = Inr (Some d, s') \<and> d \<notin> own \<and> inv s' (insert d own) \<and> spare s = Suc (spare s')
        \<and> (\<forall>q\<in>qs. cont s' q = cont s q \<and> clr s' q = clr s q) \<and> (\<forall>x. val s' x = val s x)"
    and free_law: "inv s own \<Longrightarrow> d \<in> own \<Longrightarrow>
      \<exists>s'. free s d = Inr s' \<and> inv s' (own - {d}) \<and> spare s' = Suc (spare s)
        \<and> (\<forall>q\<in>qs. cont s' q = cont s q \<and> clr s' q = clr s q) \<and> (\<forall>x. val s' x = val s x)"
    and put_law: "inv s own \<Longrightarrow> d \<in> own \<Longrightarrow>
      inv (put d f s) own \<and> spare (put d f s) = spare s
        \<and> (\<forall>q\<in>qs. cont (put d f s) q = cont s q \<and> clr (put d f s) q = clr s q)
        \<and> val (put d f s) d = f (val s d) \<and> (\<forall>x. x \<noteq> d \<longrightarrow> val (put d f s) x = val s x)"
begin

text \<open>A submission: take a descriptor, write it, enqueue it.\<close>

lemma submit_law:
  assumes i: "inv s own" and q: "q \<in> qs" and sp: "0 < spare s"
  shows "\<exists>d s1 s2. alloc s = Inr (Some d, s1) \<and> enq (put d f s1) q d = Inr (clr s q, s2)
    \<and> inv s2 own \<and> cont s2 q = cont s q @ [f (val s d)] \<and> spare s = Suc (spare s2)
    \<and> (\<forall>q'\<in>qs. q' \<noteq> q \<longrightarrow> cont s2 q' = cont s q') \<and> (\<forall>q'\<in>qs. clr s2 q' = clr s q')
    \<and> (\<forall>x\<in>own. val s2 x = val s x)"
proof -
  obtain d s1 where a: "alloc s = Inr (Some d, s1)" "d \<notin> own" "inv s1 (insert d own)"
    "spare s = Suc (spare s1)" "\<forall>q\<in>qs. cont s1 q = cont s q \<and> clr s1 q = clr s q"
    "\<forall>x. val s1 x = val s x"
    using alloc_some [OF i sp] by blast
  have p: "inv (put d f s1) (insert d own)" "spare (put d f s1) = spare s1"
    "\<forall>q\<in>qs. cont (put d f s1) q = cont s1 q \<and> clr (put d f s1) q = clr s1 q"
    "val (put d f s1) d = f (val s1 d)" "\<forall>x. x \<noteq> d \<longrightarrow> val (put d f s1) x = val s1 x"
    using put_law [OF a(3), of d f] by blast+
  obtain s2 where e: "enq (put d f s1) q d = Inr (clr (put d f s1) q, s2)" "inv s2 (insert d own - {d})"
    "cont s2 q = cont (put d f s1) q @ [val (put d f s1) d]"
    "\<forall>q'\<in>qs. q' \<noteq> q \<longrightarrow> cont s2 q' = cont (put d f s1) q'"
    "\<forall>q'\<in>qs. clr s2 q' = clr (put d f s1) q'"
    "spare s2 = spare (put d f s1)" "\<forall>x. val s2 x = val (put d f s1) x"
    using enq_law [OF p(1) q] by blast
  have o: "insert d own - {d} = own" using a(2) by blast
  have "val s2 x = val s x" if "x \<in> own" for x
    using that a(2,6) p(5) e(7) by auto
  moreover have "cont s2 q = cont s q @ [f (val s d)]" using e(3) p(3,4) a(5,6) q by simp
  moreover have "clr (put d f s1) q = clr s q" using p(3) a(5) q by simp
  ultimately show ?thesis
    using a(1,4,5) p(2,3) e(1,2,4,5,6) o by auto
qed

end

end
