(* ===== verification/MigRegion.thy ===== *)
theory MigRegion
  imports MigQueue QueueSpec
begin

text \<open>
  The shared region: \<^verbatim>\<open>init_migregion\<close> of \<^verbatim>\<open>libsmm/migqueue.c\<close>, the invariant that every
  descriptor is exactly in one place (on the free list, in one of the queues \<open>qreq\<close>,
  \<open>qissued\<close>, \<open>qcomp\<close>, or in the hands of a client), and the contract of the queues as a locale:
  a client sees each queue as a list of descriptor contents with a colour.  The last section
  interprets the contract on the modelled operations.
\<close>

section \<open>Initialisation\<close>

text \<open>LP64: \<^verbatim>\<open>sizeof(mig_desc)\<close> is 32 and \<^verbatim>\<open>offsetof(mig_region, desc_array)\<close> is 152.\<close>

definition sizeof_mig_desc :: "64 word" where "sizeof_mig_desc = 32"
definition offsetof_desc_array :: "64 word" where "offsetof_desc_array = 152"

definition region_ndescs :: "32 word \<Rightarrow> 32 word" where
  "region_ndescs sz = ucast ((scast sz - offsetof_desc_array) div sizeof_mig_desc)"

definition take_head :: "mig_region \<Rightarrow> fault + desc_p \<times> mig_region" where
  "take_head r = bindE (freelist_remove r) (\<lambda>(po, r1).
     case po of None \<Rightarrow> Inl Assert_failed | Some p \<Rightarrow> Inr (p, r1))"

text \<open>
  \<open>r0\<close> and \<open>mem\<close> are what the pages hold before the call (metadata and descriptors): nothing is
  assumed of them.
\<close>

definition init_migregion ::
  "(nat \<Rightarrow> mig_desc) \<Rightarrow> mig_region \<Rightarrow> 32 word \<Rightarrow> fault + mig_region" where
  "init_migregion mem r0 sz =
     bindE (guardE Assert_failed (sint sz mod 4096 = 0)) (\<lambda>_.
     let n = region_ndescs sz;
         r = r0\<lparr>ndescs := n, desc_array := map mem [0..<unat n]\<rparr>
     in
     bindE (freelist_init r) (\<lambda>r.
     bindE (take_head r) (\<lambda>(head, r).
     let r = migqueue_create_color r Qreq head COLOR_USR in
     bindE (take_head r) (\<lambda>(head, r).
     let r = migqueue_create r Qissued head in
     bindE (take_head r) (\<lambda>(head, r).
     Inr (migqueue_create r Qcomp head))))))"

section \<open>The region invariant\<close>

definition live_qs :: "qid list" where "live_qs = [Qreq, Qissued, Qcomp]"

definition chain_of :: "mig_region \<Rightarrow> qid \<Rightarrow> desc_p list" where
  "chain_of r q = walk (unat (ndescs r)) r (mp_index (q_head (queues r q)))"

definition free_of :: "mig_region \<Rightarrow> desc_p list" where
  "free_of r = walk (unat (ndescs r)) r (mp_index (fl_top (freelist r)))"

definition color_of :: "mig_region \<Rightarrow> qid \<Rightarrow> color_t" where
  "color_of r q = mp_color (nxt (desc_at r (unat (mp_index (q_head (queues r q))))))"

definition placed :: "mig_region \<Rightarrow> desc_p list" where
  "placed r = free_of r @ chain_of r Qreq @ chain_of r Qissued @ chain_of r Qcomp"

definition wf_region :: "mig_region \<Rightarrow> desc_p set \<Rightarrow> bool" where
  "wf_region r own \<longleftrightarrow> region_size_ok r \<and> free_ok r (free_of r)
     \<and> (\<forall>q\<in>set live_qs. queue_ok r q (chain_of r q) (color_of r q))
     \<and> (\<forall>p<unat (ndescs r). refcnt (desc_at r p) = 0)
     \<and> distinct (placed r) \<and> own \<inter> set (placed r) = {}
     \<and> own \<union> set (placed r) = {..<unat (ndescs r)}"

lemma chain_of_eq:
  assumes "queue_ok r q ch c"
  shows "chain_of r q = ch" and "color_of r q = c"
proof -
  have "length ch \<le> unat (ndescs r)"
    using assms queue_ok_bound [OF assms]
    by (intro length_le_if_distinct_bounded) (auto simp: queue_ok_def)
  then show "chain_of r q = ch"
    unfolding chain_of_def using assms by (intro walk_chain) (auto simp: queue_ok_def)
  obtain h xs where "ch = h # xs" using assms by (cases ch) (auto simp: queue_ok_def)
  then show "color_of r q = c"
    using head_in_bounds [of r q h xs c] assms by (simp add: color_of_def)
qed

lemma free_of_eq:
  assumes "free_ok r fl"
  shows "free_of r = fl"
proof -
  have "length fl \<le> unat (ndescs r)"
    using assms chain_bounded
    by (intro length_le_if_distinct_bounded) (auto simp: free_ok_def dest: chain_bounded)
  then show ?thesis
    unfolding free_of_def using assms by (intro walk_chain) (auto simp: free_ok_def)
qed

text \<open>To establish the invariant it is enough to know the chains, in whatever way they were found.\<close>

lemma wf_regionI:
  assumes "region_size_ok r" and "free_ok r fl"
    and q: "\<forall>q\<in>set live_qs. queue_ok r q (ch q) (k q)"
    and "\<forall>p<unat (ndescs r). refcnt (desc_at r p) = 0"
    and "distinct (fl @ ch Qreq @ ch Qissued @ ch Qcomp)"
    and "own \<inter> set (fl @ ch Qreq @ ch Qissued @ ch Qcomp) = {}"
    and "own \<union> set (fl @ ch Qreq @ ch Qissued @ ch Qcomp) = {..<unat (ndescs r)}"
  shows "wf_region r own" and "free_of r = fl"
    and "q \<in> set live_qs \<Longrightarrow> chain_of r q = ch q \<and> color_of r q = k q"
proof -
  have eqs: "free_of r = fl" "chain_of r Qreq = ch Qreq" "chain_of r Qissued = ch Qissued"
    "chain_of r Qcomp = ch Qcomp"
    "color_of r Qreq = k Qreq" "color_of r Qissued = k Qissued" "color_of r Qcomp = k Qcomp"
    using assms(1,2) q
    by (auto simp: live_qs_def intro: free_of_eq chain_of_eq)
  then show "free_of r = fl" and "q \<in> set live_qs \<Longrightarrow> chain_of r q = ch q \<and> color_of r q = k q"
    by (auto simp: live_qs_def)
  show "wf_region r own"
    unfolding wf_region_def placed_def using assms
    by (simp add: eqs live_qs_def)
qed

lemma wf_regionD:
  assumes "wf_region r own"
  shows "region_size_ok r" and "free_ok r (free_of r)"
    and "q \<in> set live_qs \<Longrightarrow> queue_ok r q (chain_of r q) (color_of r q)"
    and "p < unat (ndescs r) \<Longrightarrow> refcnt (desc_at r p) = 0"
    and "distinct (placed r)" and "own \<inter> set (placed r) = {}"
    and "own \<union> set (placed r) = {..<unat (ndescs r)}"
  using assms unfolding wf_region_def by blast+

section \<open>What a client sees\<close>

definition payload :: "mig_region \<Rightarrow> desc_p \<Rightarrow> 64 word \<times> 64 word" where
  "payload r p = (word0 (desc_at r p), word1 (desc_at r p))"

definition contents :: "mig_region \<Rightarrow> qid \<Rightarrow> (64 word \<times> 64 word) list" where
  "contents r q = map (payload r) (tl (chain_of r q))"

definition nfree :: "mig_region \<Rightarrow> nat" where
  "nfree r = length (free_of r)"

text \<open>A chain starts with a dummy.\<close>

lemma chain_of_Cons:
  assumes "wf_region r own" and "q \<in> set live_qs"
  obtains h xs where "chain_of r q = h # xs" and "queue_ok r q (h # xs) (color_of r q)"
    and "contents r q = map (payload r) xs"
  using wf_regionD(3) [OF assms] that
  by (cases "chain_of r q") (auto simp: queue_ok_def contents_def)

lemma contents_eqI:
  assumes "chain_of r' q = chain_of r q" and "\<And>p. p \<in> set (tl (chain_of r q)) \<Longrightarrow> payload r' p = payload r p"
  shows "contents r' q = contents r q"
  using assms by (simp add: contents_def)

lemma live_qs_cases:
  "q \<in> set live_qs \<longleftrightarrow> q = Qreq \<or> q = Qissued \<or> q = Qcomp"
  by (auto simp: live_qs_def)

lemma free_ok_cong:
  assumes "free_ok r fl" and "ndescs r' = ndescs r"
    and "mp_index (fl_top (freelist r')) = mp_index (fl_top (freelist r))"
    and "\<And>p. p \<in> set fl \<Longrightarrow> desc_at r' p = desc_at r p"
  shows "free_ok r' fl"
proof -
  have "chain r' i fl = chain r i fl" for i
    using assms by (intro chain_cong) (simp_all add: nexti_def)
  then show ?thesis using assms by (simp add: free_ok_def)
qed

section \<open>Every operation keeps the invariant\<close>

text \<open>A new node linked behind the last one of a queue.\<close>

lemma wf_enq_post:
  assumes wf: "wf_region r own" and q: "q \<in> set live_qs" and p: "p \<in> own"
    and post: "enq_post r r' q p (chain_of r q) (color_of r q)"
  shows "wf_region r' (own - {p})" "free_of r' = free_of r" "payload r' x = payload r x" "ndescs r' = ndescs r"
    "q' \<in> set live_qs \<Longrightarrow> chain_of r' q' = (if q' = q then chain_of r q @ [p] else chain_of r q')
      \<and> contents r' q' = (if q' = q then contents r q @ [payload r p] else contents r q') \<and> color_of r' q' = color_of r q'"
proof -
  note D = wf_regionD [OF wf]
  obtain h xs where ch: "chain_of r q = h # xs" and ok: "queue_ok r q (h # xs) (color_of r q)"
    using chain_of_Cons [OF wf q] by metis
  have pb: "p < unat (ndescs r)" and np: "p \<notin> set (placed r)" using D(6,7) p by auto
  have pc: "p \<notin> set (chain_of r q')" if "q' \<in> set live_qs" for q'
    using np that by (auto simp: placed_def live_qs_cases)
  have pf: "p \<notin> set (free_of r)" using np by (simp add: placed_def)
  let ?ch = "(chain_of r)(q := chain_of r q @ [p])"
  have last: "last (chain_of r q) \<in> set (chain_of r q)" using ch by simp
  have nd: "ndescs r' = ndescs r" using post by (simp add: enq_post_def)
  have same: "desc_at r' x = desc_at r x" if "x \<noteq> p" "x \<notin> set (chain_of r q)" for x
    using post last that unfolding enq_post_def by metis
  have pay: "payload r' x = payload r x" for x
    using post by (simp add: payload_def enq_post_def)
  have Q: "queue_ok r' q' (?ch q') (color_of r q')" if q': "q' \<in> set live_qs" for q'
  proof (cases "q' = q")
    case True
    then show ?thesis using post by (simp add: enq_post_def)
  next
    case False
    have "set (chain_of r q') \<inter> set (chain_of r q) = {}"
      using D(5) q q' False by (auto simp: placed_def live_qs_cases)
    then have "desc_at r' x = desc_at r x" if "x \<in> set (chain_of r q')" for x
      using that pc [OF q'] by (intro same) auto
    moreover have "queues r' q' = queues r q'" using post False by (simp add: enq_post_def)
    ultimately show ?thesis
      using False nd by (simp add: queue_ok_cong [OF D(3) [OF q']])
  qed
  have F: "free_ok r' (free_of r)"
  proof -
    have "set (free_of r) \<inter> set (chain_of r q) = {}"
      using D(5) q by (auto simp: placed_def live_qs_cases)
    then have "desc_at r' x = desc_at r x" if "x \<in> set (free_of r)" for x
      using that pf by (intro same) auto
    then show ?thesis
      using post by (intro free_ok_cong [OF D(2) nd]) (simp_all add: enq_post_def)
  qed
  have S: "region_size_ok r'" using D(1) post by (simp add: region_size_ok_def enq_post_def)
  have R: "x < unat (ndescs r') \<Longrightarrow> refcnt (desc_at r' x) = 0" for x
    using D(4) post by (simp add: enq_post_def)
  have dist: "distinct (free_of r @ ?ch Qreq @ ?ch Qissued @ ?ch Qcomp)"
    using D(5) np q unfolding placed_def live_qs_cases by auto
  have sets: "set (free_of r @ ?ch Qreq @ ?ch Qissued @ ?ch Qcomp) = insert p (set (placed r))"
    using q unfolding placed_def live_qs_cases by auto
  have I: "(own - {p}) \<inter> set (free_of r @ ?ch Qreq @ ?ch Qissued @ ?ch Qcomp) = {}"
    "(own - {p}) \<union> set (free_of r @ ?ch Qreq @ ?ch Qissued @ ?ch Qcomp) = {..<unat (ndescs r')}"
    unfolding sets nd using D(6,7) p by auto
  have Q': "\<forall>q\<in>set live_qs. queue_ok r' q (?ch q) (color_of r q)" and R': "\<forall>x<unat (ndescs r'). refcnt (desc_at r' x) = 0"
    using Q R by blast+
  note W = wf_regionI [OF S F Q' R' dist I]
  show "wf_region r' (own - {p})" "free_of r' = free_of r" "payload r' x = payload r x" "ndescs r' = ndescs r"
    using W(1,2) pay nd by simp_all
  show "chain_of r' q' = (if q' = q then chain_of r q @ [p] else chain_of r q')
      \<and> contents r' q' = (if q' = q then contents r q @ [payload r p] else contents r q') \<and> color_of r' q' = color_of r q'"
    if "q' \<in> set live_qs"
    using W(3) [OF that] ch by (simp add: contents_def pay)
qed

lemma wf_enqueue:
  assumes wf: "wf_region r own" and q: "q \<in> set live_qs" and p: "p \<in> own"
  shows "\<exists>r'. mig_enqueue r q p = Inr (color_of r q, r') \<and> wf_region r' (own - {p})
    \<and> contents r' q = contents r q @ [payload r p]
    \<and> (\<forall>q'\<in>set live_qs. q' \<noteq> q \<longrightarrow> contents r' q' = contents r q')
    \<and> (\<forall>q'\<in>set live_qs. color_of r' q' = color_of r q')
    \<and> nfree r' = nfree r \<and> (\<forall>x. payload r' x = payload r x) \<and> ndescs r' = ndescs r"
proof -
  note D = wf_regionD [OF wf]
  have pb: "p < unat (ndescs r)" "p \<notin> set (chain_of r q)"
    using D(6,7) p q by (auto simp: placed_def live_qs_cases)
  obtain r' where eq: "mig_enqueue r q p = Inr (color_of r q, r')"
    and post: "enq_post r r' q p (chain_of r q) (color_of r q)"
    using mig_enqueue_ok [OF D(1) D(3) [OF q] pb] by blast
  note W = wf_enq_post [OF wf q p post]
  have "nfree r' = nfree r" by (simp add: nfree_def W(2))
  then show ?thesis using eq W(1,3,4) W(5) q by auto
qed

lemma wf_dequeue_empty:
  assumes wf: "wf_region r own" and q: "q \<in> set live_qs" and e: "contents r q = []"
  shows "mig_dequeue r q = Inr (None, r)"
proof -
  obtain h xs where "queue_ok r q (h # xs) (color_of r q)" and "contents r q = map (payload r) xs"
    using chain_of_Cons [OF wf q] by metis
  then show ?thesis using e deq_empty by auto
qed

lemma wf_dequeue_exhausted:
  assumes wf: "wf_region r own" and q: "q \<in> set live_qs" and e: "contents r q \<noteq> []" and f: "nfree r = 0"
  shows "mig_dequeue r q = Inl Bug"
proof -
  obtain h xs where "queue_ok r q (h # xs) (color_of r q)" and "contents r q = map (payload r) xs"
    using chain_of_Cons [OF wf q] by metis
  moreover have "free_ok r []" using f wf_regionD(2) [OF wf] by (simp add: nfree_def)
  ultimately show ?thesis using e mig_dequeue_exhausted by (cases xs) auto
qed

lemma wf_dequeue:
  assumes wf: "wf_region r own" and q: "q \<in> set live_qs" and e: "contents r q \<noteq> []" and f: "0 < nfree r"
  shows "\<exists>p r'. mig_dequeue r q = Inr (Some p, r') \<and> p \<notin> own \<and> wf_region r' (insert p own)
    \<and> contents r q = payload r' p # contents r' q
    \<and> mp_color (nxt (desc_at r' p)) = color_of r q
    \<and> (\<forall>q'\<in>set live_qs. q' \<noteq> q \<longrightarrow> contents r' q' = contents r q')
    \<and> (\<forall>q'\<in>set live_qs. color_of r' q' = color_of r q')
    \<and> nfree r' = nfree r \<and> (\<forall>x\<in>own. payload r' x = payload r x) \<and> ndescs r' = ndescs r"
proof -
  note D = wf_regionD [OF wf]
  obtain h ys where ch0: "chain_of r q = h # ys" and ok: "queue_ok r q (h # ys) (color_of r q)"
    and cs: "contents r q = map (payload r) ys"
    using chain_of_Cons [OF wf q] by metis
  with e obtain x xs where ys: "ys = x # xs" by (cases ys) auto
  obtain p fl where fr: "free_of r = p # fl" using f by (cases "free_of r") (auto simp: nfree_def)
  have ch: "chain_of r q = h # x # xs" using ch0 ys by simp
  have disj: "set (p # fl) \<inter> set (h # x # xs) = {}"
    using D(5) q fr ch by (auto simp: placed_def live_qs_cases)
  have hb: "h < unat (ndescs r)" using ok queue_ok_bound by fastforce
  obtain r' where eq: "mig_dequeue r q = Inr (Some p, r')"
    and post: "deq_post r r' q p h x xs fl (color_of r q)"
    using mig_dequeue_ok [OF D(1) ok [unfolded ys] D(2) [unfolded fr] disj D(4) [OF hb]] by blast
  let ?ch = "(chain_of r)(q := x # xs)"
  have nd: "ndescs r' = ndescs r" using post by (simp add: deq_post_def)
  have same: "desc_at r' y = desc_at r y" if "y \<noteq> p" "y \<noteq> h" for y
    using post that unfolding deq_post_def by metis
  have hp: "h \<in> set (placed r)" "p \<in> set (placed r)" "p \<noteq> h"
    using q ch fr disj by (auto simp: placed_def live_qs_cases)
  have Q: "queue_ok r' q' (?ch q') (color_of r q')" if q': "q' \<in> set live_qs" for q'
  proof (cases "q' = q")
    case True
    then show ?thesis using post by (simp add: deq_post_def)
  next
    case False
    have "p \<notin> set (chain_of r q')" "h \<notin> set (chain_of r q')"
      using D(5) q q' False ch fr by (auto simp: placed_def live_qs_cases)
    then have "desc_at r' y = desc_at r y" if "y \<in> set (chain_of r q')" for y
      using that by (intro same) auto
    moreover have "queues r' q' = queues r q'" using post False by (simp add: deq_post_def)
    ultimately show ?thesis
      using False nd by (simp add: queue_ok_cong [OF D(3) [OF q']])
  qed
  have F: "free_ok r' (h # fl)" using post by (simp add: deq_post_def)
  have S: "region_size_ok r'" using D(1) post by (simp add: region_size_ok_def deq_post_def)
  have Q': "\<forall>q\<in>set live_qs. queue_ok r' q (?ch q) (color_of r q)" and
    R': "\<forall>x<unat (ndescs r'). refcnt (desc_at r' x) = 0"
    using Q D(4) post by (blast, simp add: deq_post_def)
  have dist: "distinct ((h # fl) @ ?ch Qreq @ ?ch Qissued @ ?ch Qcomp)"
    using D(5) q fr ch unfolding placed_def live_qs_cases by auto
  have sets: "set ((h # fl) @ ?ch Qreq @ ?ch Qissued @ ?ch Qcomp) = set (placed r) - {p}"
    using D(5) q fr ch unfolding placed_def live_qs_cases by auto
  have I: "insert p own \<inter> set ((h # fl) @ ?ch Qreq @ ?ch Qissued @ ?ch Qcomp) = {}"
    "insert p own \<union> set ((h # fl) @ ?ch Qreq @ ?ch Qissued @ ?ch Qcomp) = {..<unat (ndescs r')}"
    unfolding sets nd using D(6,7) hp by auto
  note W = wf_regionI [OF S F Q' R' dist I]
  have pay: "payload r' y = payload r y" if "y \<noteq> p" "y \<noteq> h" for y
    using same [OF that] by (simp add: payload_def)
  have payp: "payload r' p = payload r x" "mp_color (nxt (desc_at r' p)) = color_of r q"
    using post by (simp_all add: payload_def deq_post_def)
  have xs: "y \<noteq> p" "y \<noteq> h" if "y \<in> set xs" for y using disj ok ys that by (auto simp: queue_ok_def)
  have "contents r q = payload r' p # contents r' q"
    using W(3) [OF q] ch pay xs by (auto simp: contents_def payp)
  moreover have "contents r' q' = contents r q'" if "q' \<in> set live_qs" "q' \<noteq> q" for q'
  proof (rule contents_eqI)
    show "chain_of r' q' = chain_of r q'" using W(3) [OF that(1)] that by simp
    have "p \<notin> set (chain_of r q')" "h \<notin> set (chain_of r q')"
      using D(5) q that ch fr by (auto simp: placed_def live_qs_cases)
    then show "payload r' y = payload r y" if "y \<in> set (tl (chain_of r q'))" for y
      using list.set_sel(2) [of "chain_of r q'" y] that by (cases "chain_of r q'") (auto intro!: pay)
  qed
  moreover have "nfree r' = nfree r" using W(2) fr by (simp add: nfree_def)
  moreover have "\<forall>y\<in>own. payload r' y = payload r y" "p \<notin> own"
    using hp D(6) by (auto intro!: pay)
  ultimately show ?thesis using eq W(1,3) payp nd by blast
qed

text \<open>
  The colour can be changed only while the queue is empty: the caller learns the old colour,
  or \<open>-1\<close> when there was something on the queue (and then nothing happened).
\<close>

lemma wf_set_color_busy:
  assumes wf: "wf_region r own" and q: "q \<in> set live_qs" and e: "contents r q \<noteq> []"
  shows "migqueue_set_color_if_empty r q c = Inr (-1, r)"
proof -
  obtain h xs where "queue_ok r q (h # xs) (color_of r q)" and "contents r q = map (payload r) xs"
    using chain_of_Cons [OF wf q] by metis
  then show ?thesis using e set_color_nonempty by (cases xs) auto
qed

lemma wf_color_post:
  assumes wf: "wf_region r own" and q: "q \<in> set live_qs" and ch: "chain_of r q = [h]" and post: "color_post r r' q h c"
  shows "wf_region r' own" "free_of r' = free_of r" "payload r' x = payload r x" "ndescs r' = ndescs r"
    "q' \<in> set live_qs \<Longrightarrow> chain_of r' q' = chain_of r q' \<and> contents r' q' = contents r q'
      \<and> color_of r' q' = (if q' = q then c else color_of r q')"
proof -
  note D = wf_regionD [OF wf]
  have nd: "ndescs r' = ndescs r" using post by (simp add: color_post_def)
  have same: "desc_at r' y = desc_at r y" if "y \<noteq> h" for y
    using post that unfolding color_post_def by metis
  have pay: "payload r' y = payload r y" for y
    using post by (simp add: payload_def color_post_def)
  let ?k = "(color_of r)(q := c)"
  have Q: "queue_ok r' q' (chain_of r q') (?k q')" if q': "q' \<in> set live_qs" for q'
  proof (cases "q' = q")
    case True
    then show ?thesis using post ch by (simp add: color_post_def)
  next
    case False
    have "h \<notin> set (chain_of r q')"
      using D(5) q q' False ch by (auto simp: placed_def live_qs_cases)
    then have "desc_at r' y = desc_at r y" if "y \<in> set (chain_of r q')" for y
      using that by (intro same) auto
    moreover have "queues r' q' = queues r q'" using post False by (simp add: color_post_def)
    ultimately show ?thesis
      using False nd by (simp add: queue_ok_cong [OF D(3) [OF q']])
  qed
  have hf: "h \<notin> set (free_of r)" using D(5) q ch by (auto simp: placed_def live_qs_cases)
  have F: "free_ok r' (free_of r)"
  proof (rule free_ok_cong [OF D(2) nd])
    show "mp_index (fl_top (freelist r')) = mp_index (fl_top (freelist r))"
      using post by (simp add: color_post_def)
    show "desc_at r' p = desc_at r p" if "p \<in> set (free_of r)" for p
      using that hf by (metis same)
  qed
  have S: "region_size_ok r'" using D(1) post by (simp add: region_size_ok_def color_post_def)
  have Q': "\<forall>q\<in>set live_qs. queue_ok r' q (chain_of r q) (?k q)" and
    R': "\<forall>x<unat (ndescs r'). refcnt (desc_at r' x) = 0"
    using Q D(4) post by (blast, simp add: color_post_def)
  note W = wf_regionI [OF S F Q' R' D(5) [unfolded placed_def] D(6) [unfolded placed_def]
      D(7) [unfolded placed_def, folded nd]]
  show "wf_region r' own" "free_of r' = free_of r" "payload r' x = payload r x" "ndescs r' = ndescs r"
    using W(1,2) pay nd by simp_all
  show "chain_of r' q' = chain_of r q' \<and> contents r' q' = contents r q' \<and> color_of r' q' = (if q' = q then c else color_of r q')"
    if "q' \<in> set live_qs"
    using W(3) [OF that] by (simp add: contents_def pay)
qed

lemma wf_set_color:
  assumes wf: "wf_region r own" and q: "q \<in> set live_qs" and e: "contents r q = []" and c: "0 \<le> sint c"
  shows "\<exists>r'. migqueue_set_color_if_empty r q c = Inr (color_of r q, r') \<and> wf_region r' own
    \<and> color_of r' q = c \<and> (\<forall>q'\<in>set live_qs. q' \<noteq> q \<longrightarrow> color_of r' q' = color_of r q')
    \<and> (\<forall>q'\<in>set live_qs. contents r' q' = contents r q')
    \<and> nfree r' = nfree r \<and> (\<forall>x. payload r' x = payload r x) \<and> ndescs r' = ndescs r"
proof -
  note D = wf_regionD [OF wf]
  obtain h xs where ch0: "chain_of r q = h # xs" and ok0: "queue_ok r q (h # xs) (color_of r q)"
    and cs: "contents r q = map (payload r) xs"
    using chain_of_Cons [OF wf q] by metis
  have ch: "chain_of r q = [h]" and ok: "queue_ok r q [h] (color_of r q)" using e cs ch0 ok0 by simp_all
  obtain r' where eq: "migqueue_set_color_if_empty r q c = Inr (color_of r q, r')"
    and post: "color_post r r' q h c"
    using set_color_empty [OF D(1) ok c] by blast
  note W = wf_color_post [OF wf q ch post]
  have "nfree r' = nfree r" by (simp add: nfree_def W(2))
  then show ?thesis using eq W(1,3,4) W(5) q by auto
qed

text \<open>A client that gives a descriptor back, and one that takes one.\<close>

lemma wf_freelist_step:
  assumes wf: "wf_region r own" and F: "free_ok r' fl" and S: "region_size_ok r'"
    and nd: "ndescs r' = ndescs r" and qs: "queues r' = queues r"
    and same: "\<And>y. y \<notin> own \<Longrightarrow> desc_at r' y = desc_at r y"
    and rc: "\<And>y. refcnt (desc_at r' y) = refcnt (desc_at r y)"
    and I: "own' \<inter> set fl = {}" "own' \<union> set fl = own \<union> set (free_of r)"
  shows "wf_region r' own'" and "nfree r' = length fl"
    and "q \<in> set live_qs \<Longrightarrow> contents r' q = contents r q \<and> color_of r' q = color_of r q"
proof -
  note D = wf_regionD [OF wf]
  have Q': "\<forall>q\<in>set live_qs. queue_ok r' q (chain_of r q) (color_of r q)"
  proof
    fix q assume q: "q \<in> set live_qs"
    have "desc_at r' y = desc_at r y" if "y \<in> set (chain_of r q)" for y
      using that D(6) q by (intro same) (auto simp: placed_def live_qs_cases)
    then show "queue_ok r' q (chain_of r q) (color_of r q)"
      using nd qs by (simp add: queue_ok_cong [OF D(3) [OF q]])
  qed
  have R': "\<forall>x<unat (ndescs r'). refcnt (desc_at r' x) = 0" using D(4) rc nd by simp
  let ?cs = "chain_of r Qreq @ chain_of r Qissued @ chain_of r Qcomp"
  have pl: "placed r = free_of r @ ?cs" by (simp add: placed_def)
  have "set fl \<subseteq> own \<union> set (free_of r)" using I(2) by blast
  then have dist: "distinct (fl @ ?cs)"
    using F D(5,6) unfolding pl by (auto simp: free_ok_def)
  have "own' \<subseteq> own \<union> set (free_of r)" using I(2) by blast
  then have disj: "own' \<inter> set (fl @ ?cs) = {}"
    using I(1) D(5,6) unfolding pl by auto
  have "own' \<union> set (fl @ ?cs) = own \<union> set (free_of r) \<union> set ?cs" using I(2) by auto
  then have un: "own' \<union> set (fl @ ?cs) = {..<unat (ndescs r')}"
    using D(7) nd unfolding pl by auto
  note W = wf_regionI [OF S F Q' R' dist disj un]
  show "wf_region r' own'" "nfree r' = length fl" using W(1,2) by (simp_all add: nfree_def)
  show "contents r' q = contents r q \<and> color_of r' q = color_of r q" if q: "q \<in> set live_qs"
  proof
    show "color_of r' q = color_of r q" using W(3) [OF q] by simp
    show "contents r' q = contents r q"
    proof (rule contents_eqI)
      show "chain_of r' q = chain_of r q" using W(3) [OF q] by simp
      show "payload r' p = payload r p" if "p \<in> set (tl (chain_of r q))" for p
      proof -
        have "p \<in> set (chain_of r q)" using that by (cases "chain_of r q") auto
        then have "p \<notin> own" using D(6) q by (auto simp: placed_def live_qs_cases)
        then show ?thesis using same by (simp add: payload_def)
      qed
    qed
  qed
qed

lemma wf_freelist_add:
  assumes wf: "wf_region r own" and p: "p \<in> own"
  shows "\<exists>r'. freelist_add r p = Inr r' \<and> wf_region r' (own - {p}) \<and> nfree r' = Suc (nfree r)
    \<and> (\<forall>q\<in>set live_qs. contents r' q = contents r q \<and> color_of r' q = color_of r q)
    \<and> (\<forall>x. payload r' x = payload r x)"
proof -
  note D = wf_regionD [OF wf]
  have pb: "p < unat (ndescs r)" "p \<notin> set (free_of r)"
    using D(6,7) p by (auto simp: placed_def)
  have len: "p < length (desc_array r)" using D(1) pb by (simp add: region_size_ok_def)
  note F = free_ok_add [OF D(1) pb D(4) [OF pb(1)] D(2)]
  have dj: "(own - {p}) \<inter> set (p # free_of r) = {}" using D(6) by (auto simp: placed_def)
  have W: "wf_region (add_result r p) (own - {p})"
    "nfree (add_result r p) = length (p # free_of r)"
    "q \<in> set live_qs \<Longrightarrow> contents (add_result r p) q = contents r q
      \<and> color_of (add_result r p) q = color_of r q" for q
    by (rule wf_freelist_step [OF wf F, where own' = "own - {p}"];
        use D(1) p dj len in \<open>auto simp: add_result_desc payload_def\<close>)+
  have "freelist_add r p = Inr (add_result r p)"
    by (rule freelist_add_eq [OF D(1) pb(1) D(4) [OF pb(1)]])
  then show ?thesis
    using W len by (auto simp: nfree_def payload_def add_result_desc)
qed

lemma wf_freelist_remove:
  assumes wf: "wf_region r own" and f: "0 < nfree r"
  shows "\<exists>p r'. freelist_remove r = Inr (Some p, r') \<and> p \<notin> own \<and> wf_region r' (insert p own)
    \<and> nfree r = Suc (nfree r')
    \<and> (\<forall>q\<in>set live_qs. contents r' q = contents r q \<and> color_of r' q = color_of r q)
    \<and> (\<forall>x. payload r' x = payload r x)"
proof -
  note D = wf_regionD [OF wf]
  obtain p fl where fr: "free_of r = p # fl" using f by (cases "free_of r") (auto simp: nfree_def)
  note R = freelist_remove_Cons [OF D(2) [unfolded fr]]
  have np: "p \<notin> own" "p \<notin> set fl" using D(5,6) fr by (auto simp: placed_def)
  have dj: "own \<inter> set fl = {}" using D(6) fr by (auto simp: placed_def)
  have W: "wf_region (rem_result r p) (insert p own)" "nfree (rem_result r p) = length fl"
    "q \<in> set live_qs \<Longrightarrow> contents (rem_result r p) q = contents r q
      \<and> color_of (rem_result r p) q = color_of r q" for q
    by (rule wf_freelist_step [OF wf R(2), where own' = "insert p own"];
        use D(1) dj np fr in \<open>auto simp: payload_def\<close>)+
  then show ?thesis
    using R(1) np fr by (auto simp: nfree_def payload_def)
qed

lemma wf_freelist_remove_none:
  assumes wf: "wf_region r own" and f: "nfree r = 0"
  shows "freelist_remove r = Inr (None, r)"
  using wf_regionD(2) [OF wf] f freelist_remove_Nil by (simp add: nfree_def)

section \<open>Initialisation establishes the invariant\<close>

lemma region_ndescs_eq:
  assumes "4096 \<le> sint sz" and "sint sz \<le> 2 ^ 21"
  shows "unat (region_ndescs sz) = (nat (sint sz) - 152) div 32"
proof -
  define k where "k = nat (sint sz)"
  have ik: "int k = sint sz" using assms(1) unfolding k_def by linarith
  have k: "4096 \<le> k" "k \<le> 2097152" using assms(1,2) unfolding ik [symmetric] by simp_all
  have "scast sz = (of_int (sint sz) :: 64 word)" by (simp only: scast_eq)
  also have "\<dots> = of_nat k" unfolding ik [symmetric] by (simp only: of_int_of_nat_eq)
  finally have sc: "scast sz - 152 = (of_nat (k - 152) :: 64 word)" using k by simp
  have "unat ((of_nat (k - 152) :: 64 word) div 32) = (k - 152) div 32"
  proof -
    have u: "unat (of_nat (k - 152) :: 64 word) = k - 152"
      unfolding unat_of_nat by (rule mod_less) (use k in simp)
    have v: "unat (32 :: 64 word) = 32" by simp
    show ?thesis unfolding unat_div_distrib u v ..
  qed
  moreover have "(k - 152) div 32 < 2 ^ 32" using k by simp
  ultimately have "unat (ucast ((of_nat (k - 152) :: 64 word) div 32) :: 32 word) = (k - 152) div 32"
    by (simp add: unsigned_ucast_eq take_bit_nat_eq_self)
  then show ?thesis
    unfolding region_ndescs_def offsetof_desc_array_def sizeof_mig_desc_def by (simp add: sc k_def)
qed

lemma take_head_ok:
  assumes "free_ok r (p # fl)"
  shows "take_head r = Inr (p, rem_result r p)" and "free_ok (rem_result r p) fl"
  using freelist_remove_Cons [OF assms] by (simp_all add: take_head_def)

text \<open>One round of the set-up: the next free descriptor becomes the dummy of a queue.\<close>

lemma create_step:
  assumes S: "region_size_ok r" and F: "free_ok r (d # fl)" and c: "0 \<le> sint c"
    and Q: "\<And>q. q \<in> set qs \<Longrightarrow> queue_ok r q [dm q] (k q)" "qnew \<notin> set qs"
    and dm: "\<And>q. q \<in> set qs \<Longrightarrow> dm q \<noteq> d"
    and R: "\<And>p. p < unat (ndescs r) \<Longrightarrow> refcnt (desc_at r p) = 0"
  shows "\<exists>r1 r'. take_head r = Inr (d, r1) \<and> r' = migqueue_create_color r1 qnew d c
    \<and> region_size_ok r' \<and> ndescs r' = ndescs r \<and> free_ok r' fl
    \<and> queue_ok r' qnew [d] c \<and> (\<forall>q\<in>set qs. queue_ok r' q [dm q] (k q))
    \<and> (\<forall>p<unat (ndescs r'). refcnt (desc_at r' p) = 0)"
proof -
  let ?r1 = "rem_result r d"
  let ?r' = "migqueue_create_color ?r1 qnew d c"
  note T = take_head_ok [OF F]
  have S1: "region_size_ok ?r1" using S by simp
  have d: "d < unat (ndescs ?r1)" "d \<notin> set fl" using F by (auto simp: free_ok_def)
  note C = migqueue_create_color_ok [OF S1 d(1) c, where q = qnew]
  have "free_ok ?r' fl"
    using d(2) by (intro free_ok_cong [OF T(2) C(2)]) (simp_all add: C(3), metis C(6) rem_result_frame(5))
  moreover have "queue_ok ?r' q [dm q] (k q)" if q: "q \<in> set qs" for q
  proof (rule queue_ok_cong [OF Q(1) [OF q]])
    have "q \<noteq> qnew" using q Q(2) by auto
    then show "queues ?r' q = queues r q" using C(5) by simp
    show "nxt (desc_at ?r' p) = nxt (desc_at r p)" if "p \<in> set [dm q]" for p
    proof -
      have "p \<noteq> d" using that dm [OF q] by simp
      then show ?thesis using C(6) by simp
    qed
  qed (use C(2) in simp)
  ultimately show ?thesis
    using T(1) C R by simp
qed

lemma upt_rev_Suc: "0 < n \<Longrightarrow> rev [0..<n] = (n - 1) # rev [0..<n - 1]"
  by (cases n) simp_all

lemma freelist_init_refcnt_loop:
  assumes "freelist_init_loop i k r = Inr r'" and "i + k \<le> length (desc_array r)"
    and "length (desc_array r) < 65536"
    and "\<And>p. p < i \<Longrightarrow> refcnt (desc_at r p) = 0"
  shows "p < i + k \<Longrightarrow> refcnt (desc_at r' p) = 0"
  using assms
proof (induction k arbitrary: i r)
  case (Suc k)
  let ?u = "upd_desc i (\<lambda>d. d\<lparr>refcnt := 0\<rparr>) r"
  obtain r1 where r1: "freelist_add ?u i = Inr r1" and rest: "freelist_init_loop (Suc i) k r1 = Inr r'"
    using Suc.prems(2) by (auto simp: bindE_eq_Inr)
  have i: "i < length (desc_array r)" using Suc.prems(3) by simp
  obtain v where v: "r1 = set_top v (set_next (unat (of_nat i :: index_t)) (fl_top (freelist r))
      (?u\<lparr>freelist := (freelist ?u)\<lparr>fl_aba_counter := fl_aba_counter (freelist r) + 1\<rparr>\<rparr>))"
    using r1 by (auto simp: freelist_add_def bindE_eq_Inr cas_top_def index_to_desc_def Let_def
        desc_to_index_def set_top_def set_next_def upd_desc_def)
  have len: "length (desc_array r1) = length (desc_array r)" by (simp add: v)
  have rc: "refcnt (desc_at r1 p) = (if p = i then 0 else refcnt (desc_at r p))" for p
    using i Suc.prems(4)
    by (auto simp: v desc_at_def set_next_def upd_desc_def nth_list_update set_top_def)
  show ?case
  proof (rule Suc.IH [OF _ rest])
    show "refcnt (desc_at r1 x) = 0" if "x < Suc i" for x
      using that Suc.prems(5) by (cases "x = i") (simp_all add: rc)
  qed (use Suc.prems(1,3,4) in \<open>simp_all add: len\<close>)
qed simp

lemma init_migregion_ok:
  assumes sz: "4096 \<le> sint sz" "sint sz \<le> 2 ^ 21" "sint sz mod 4096 = 0"
  shows "\<exists>r. init_migregion mem r0 sz = Inr r \<and> wf_region r {}
    \<and> (\<forall>q\<in>set live_qs. contents r q = [])
    \<and> color_of r Qreq = COLOR_USR \<and> color_of r Qissued = COLOR_NONE \<and> color_of r Qcomp = COLOR_NONE
    \<and> unat (ndescs r) = (nat (sint sz) - 152) div 32 \<and> nfree r + 3 = unat (ndescs r)"
proof -
  define n where "n = unat (region_ndescs sz)"
  define r where "r = r0\<lparr>ndescs := region_ndescs sz, desc_array := map mem [0..<n]\<rparr>"
  have n: "n = (nat (sint sz) - 152) div 32" using region_ndescs_eq [OF sz(1,2)] by (simp add: n_def)
  have b: "123 \<le> n" "n < 65536" using sz(1,2) unfolding n by auto
  have S: "region_size_ok r" "0 < unat (ndescs r)" "unat (ndescs r) = n"
    using b by (simp_all add: region_size_ok_def r_def n_def)
  obtain ra where ra: "freelist_init r = Inr ra" "region_size_ok ra" "ndescs ra = ndescs r"
    "free_ok ra (rev [0..<n])"
    using freelist_init_ok [OF S(1,2)] S(3) by auto
  have rev: "rev [0..<n] = (n - 1) # (n - 2) # (n - 3) # rev [0..<n - 3]"
    using b upt_rev_Suc [of n] upt_rev_Suc [of "n - 1"] upt_rev_Suc [of "n - 2"]
    by (simp add: numeral_2_eq_2 numeral_3_eq_3)
  have R: "refcnt (desc_at ra p) = 0" if "p < unat (ndescs ra)" for p
    using ra(1,3) that S
    by (auto simp: freelist_init_def Let_def bindE_eq_Inr region_size_ok_def desc_at_def
        dest!: freelist_init_refcnt_loop [where p = p])
  have cpos: "0 \<le> sint COLOR_USR" "0 \<le> sint COLOR_NONE" by (simp_all add: COLOR_USR_def COLOR_NONE_def)
  define k where "k q = (if q = Qreq then COLOR_USR else COLOR_NONE)" for q
  define dm where "dm q = (if q = Qreq then n - 1 else if q = Qissued then n - 2 else n - 3)" for q
  have ne: "dm Qreq \<noteq> n - 2" "dm Qreq \<noteq> n - 3" "dm Qissued \<noteq> n - 3"
    using b by (auto simp: dm_def)
  have kd: "dm Qreq = n - 1" "dm Qissued = n - 2" "dm Qcomp = n - 3"
    "k Qreq = COLOR_USR" "k Qissued = COLOR_NONE" "k Qcomp = COLOR_NONE"
    by (simp_all add: dm_def k_def)
  obtain ra1 rb where b1: "take_head ra = Inr (n - 1, ra1)" "rb = migqueue_create_color ra1 Qreq (n - 1) COLOR_USR"
    "region_size_ok rb" "ndescs rb = ndescs ra" "free_ok rb ((n - 2) # (n - 3) # rev [0..<n - 3])"
    "queue_ok rb Qreq [dm Qreq] (k Qreq)" "\<forall>p<unat (ndescs rb). refcnt (desc_at rb p) = 0"
    using create_step [OF ra(2) ra(4) [unfolded rev] cpos(1), where qs = "[]" and qnew = Qreq] R
    by (auto simp: kd)
  obtain rb1 rc where c1: "take_head rb = Inr (n - 2, rb1)" "rc = migqueue_create_color rb1 Qissued (n - 2) COLOR_NONE"
    "region_size_ok rc" "ndescs rc = ndescs rb" "free_ok rc ((n - 3) # rev [0..<n - 3])"
    "queue_ok rc Qissued [dm Qissued] (k Qissued)" "queue_ok rc Qreq [dm Qreq] (k Qreq)"
    "\<forall>p<unat (ndescs rc). refcnt (desc_at rc p) = 0"
  proof -
    have "\<exists>r1 r'. take_head rb = Inr (n - 2, r1) \<and> r' = migqueue_create_color r1 Qissued (n - 2) COLOR_NONE
      \<and> region_size_ok r' \<and> ndescs r' = ndescs rb \<and> free_ok r' ((n - 3) # rev [0..<n - 3])
      \<and> queue_ok r' Qissued [n - 2] COLOR_NONE \<and> (\<forall>q\<in>set [Qreq]. queue_ok r' q [dm q] (k q))
      \<and> (\<forall>p<unat (ndescs r'). refcnt (desc_at r' p) = 0)"
      by (rule create_step [OF b1(3,5) cpos(2)]) (use b1(6,7) ne in auto)
    then show ?thesis using that by (auto simp: kd)
  qed
  obtain rc1 rd where d1: "take_head rc = Inr (n - 3, rc1)" "rd = migqueue_create_color rc1 Qcomp (n - 3) COLOR_NONE"
    "region_size_ok rd" "ndescs rd = ndescs rc" "free_ok rd (rev [0..<n - 3])"
    "queue_ok rd Qcomp [dm Qcomp] (k Qcomp)"
    "queue_ok rd Qissued [dm Qissued] (k Qissued)" "queue_ok rd Qreq [dm Qreq] (k Qreq)"
    "\<forall>p<unat (ndescs rd). refcnt (desc_at rd p) = 0"
  proof -
    have "\<exists>r1 r'. take_head rc = Inr (n - 3, r1) \<and> r' = migqueue_create_color r1 Qcomp (n - 3) COLOR_NONE
      \<and> region_size_ok r' \<and> ndescs r' = ndescs rc \<and> free_ok r' (rev [0..<n - 3])
      \<and> queue_ok r' Qcomp [n - 3] COLOR_NONE \<and> (\<forall>q\<in>set [Qreq, Qissued]. queue_ok r' q [dm q] (k q))
      \<and> (\<forall>p<unat (ndescs r'). refcnt (desc_at r' p) = 0)"
      by (rule create_step [OF c1(3,5) cpos(2)]) (use c1(6-8) ne in auto)
    then show ?thesis using that by (auto simp: kd)
  qed
  have eq: "init_migregion mem r0 sz = Inr rd"
    using ra(1) b1(1,2) c1(1,2) d1(1,2) sz(3)
    by (simp add: init_migregion_def Let_def r_def n_def migqueue_create_def)
  have nd: "unat (ndescs rd) = n" using d1(4) c1(4) b1(4) ra(3) S(3) by simp
  have Q: "\<forall>q\<in>set live_qs. queue_ok rd q [dm q] (k q)"
    using d1 by (simp add: live_qs_def)
  have dist: "distinct (rev [0..<n - 3] @ [dm Qreq] @ [dm Qissued] @ [dm Qcomp])"
    using b by (auto simp: dm_def)
  have I: "{} \<inter> set (rev [0..<n - 3] @ [dm Qreq] @ [dm Qissued] @ [dm Qcomp]) = {}"
    "{} \<union> set (rev [0..<n - 3] @ [dm Qreq] @ [dm Qissued] @ [dm Qcomp]) = {..<unat (ndescs rd)}"
    using b nd by (auto simp: dm_def)
  note W = wf_regionI [OF d1(3,5) Q d1(9) dist I]
  have "contents rd q = []" if "q \<in> set live_qs" for q
    using W(3) [OF that] by (simp add: contents_def)
  moreover have "nfree rd + 3 = n" using W(2) b by (simp add: nfree_def)
  ultimately show ?thesis
    using eq W(1) W(3) [of Qreq] W(3) [of Qissued] W(3) [of Qcomp] nd n
    by (auto simp: live_qs_def k_def)
qed

section \<open>Writing to a descriptor in hand\<close>

definition put_words ::
  "desc_p \<Rightarrow> (64 word \<times> 64 word \<Rightarrow> 64 word \<times> 64 word) \<Rightarrow> mig_region \<Rightarrow> mig_region" where
  "put_words p f r = upd_desc p (\<lambda>d. let (a, b) = f (word0 d, word1 d) in d\<lparr>word0 := a, word1 := b\<rparr>) r"

lemma put_words_desc:
  assumes "p < length (desc_array r)"
  shows "payload (put_words p f r) x = (if x = p then f (payload r p) else payload r x)"
    and "refcnt (desc_at (put_words p f r) x) = refcnt (desc_at r x)"
    and "x \<noteq> p \<Longrightarrow> desc_at (put_words p f r) x = desc_at r x"
  using assms by (auto simp: put_words_def payload_def desc_at_upd split: prod.splits)

lemma wf_put_words:
  assumes wf: "wf_region r own" and p: "p \<in> own"
  shows "wf_region (put_words p f r) own \<and> nfree (put_words p f r) = nfree r
    \<and> (\<forall>q\<in>set live_qs. contents (put_words p f r) q = contents r q \<and> color_of (put_words p f r) q = color_of r q)
    \<and> payload (put_words p f r) p = f (payload r p)
    \<and> (\<forall>x. x \<noteq> p \<longrightarrow> payload (put_words p f r) x = payload r x)"
proof -
  note D = wf_regionD [OF wf]
  have len: "p < length (desc_array r)" using D(1,7) p by (auto simp: region_size_ok_def)
  have dj: "own \<inter> set (free_of r) = {}" using D(6) by (auto simp: placed_def)
  let ?r = "put_words p f r"
  have nd: "ndescs ?r = ndescs r" "queues ?r = queues r" "freelist ?r = freelist r"
    by (simp_all add: put_words_def)
  have S: "region_size_ok ?r" using D(1) by (simp add: region_size_ok_def put_words_def)
  have fr: "desc_at ?r y = desc_at r y" if "y \<in> set (free_of r)" for y
  proof (rule put_words_desc(3) [OF len])
    show "y \<noteq> p" using that dj p by auto
  qed
  have F: "free_ok ?r (free_of r)"
    by (intro free_ok_cong [OF D(2) nd(1)]) (simp_all add: nd fr)
  have same: "desc_at ?r y = desc_at r y" if "y \<notin> own" for y
  proof (rule put_words_desc(3) [OF len])
    show "y \<noteq> p" using that p by auto
  qed
  note W = wf_freelist_step [OF wf F S nd(1,2) same put_words_desc(2) [OF len] dj refl]
  show ?thesis
    using W put_words_desc(1) [OF len] by (simp add: nfree_def)
qed

section \<open>The library meets the contract of its clients\<close>

lemma live_enq_law:
  assumes "wf_region r own" and "q \<in> set live_qs" and "p \<in> own"
  shows "\<exists>r'. mig_enqueue r q p = Inr (color_of r q, r') \<and> wf_region r' (own - {p})
    \<and> contents r' q = contents r q @ [payload r p]
    \<and> (\<forall>q'\<in>set live_qs. q' \<noteq> q \<longrightarrow> contents r' q' = contents r q')
    \<and> (\<forall>q'\<in>set live_qs. color_of r' q' = color_of r q')
    \<and> nfree r' = nfree r \<and> (\<forall>x. payload r' x = payload r x)"
  using wf_enqueue [OF assms] by blast

lemma live_deq_law:
  assumes "wf_region r own" and "q \<in> set live_qs" and "contents r q \<noteq> []" and "0 < nfree r"
  shows "\<exists>p r'. mig_dequeue r q = Inr (Some p, r') \<and> p \<notin> own \<and> wf_region r' (insert p own)
    \<and> contents r q = payload r' p # contents r' q
    \<and> (\<forall>q'\<in>set live_qs. q' \<noteq> q \<longrightarrow> contents r' q' = contents r q')
    \<and> (\<forall>q'\<in>set live_qs. color_of r' q' = color_of r q')
    \<and> nfree r' = nfree r \<and> (\<forall>x\<in>own. payload r' x = payload r x)"
  using wf_dequeue [OF assms] by blast

lemma color_of_ok:
  assumes "wf_region r own" and "q \<in> set live_qs"
  shows "0 \<le> sint (color_of r q)"
  using wf_regionD(3) [OF assms] by (simp add: queue_ok_def)

interpretation mq: desc_pool wf_region "set live_qs" contents payload nfree color_of mig_enqueue mig_dequeue
proof unfold_locales
qed (rule live_enq_law wf_dequeue_empty live_deq_law; assumption)+

interpretation mqc: colored_pool wf_region "set live_qs" contents payload nfree color_of mig_enqueue mig_dequeue
  migqueue_set_color_if_empty "-1" "\<lambda>c. 0 \<le> sint c"
proof unfold_locales
  fix r own q and c :: color_t
  assume a: "wf_region r own" "q \<in> set live_qs"
  show "contents r q \<noteq> [] \<Longrightarrow> migqueue_set_color_if_empty r q c = Inr (- 1, r)"
    using a by (rule wf_set_color_busy)
  show "contents r q = [] \<Longrightarrow> 0 \<le> sint c \<Longrightarrow>
     \<exists>s'. migqueue_set_color_if_empty r q c = Inr (color_of r q, s') \<and> wf_region s' own \<and>
         color_of s' q = c \<and> (\<forall>q'\<in>set live_qs. q' \<noteq> q \<longrightarrow> color_of s' q' = color_of r q') \<and>
         (\<forall>q'\<in>set live_qs. contents s' q' = contents r q') \<and> nfree s' = nfree r \<and>
         (\<forall>x. payload s' x = payload r x)"
    using wf_set_color [OF a] by blast
  show "0 \<le> sint (color_of r q)" using color_of_ok [OF a] .
qed simp

interpretation mqa: alloc_pool wf_region "set live_qs" contents payload nfree color_of mig_enqueue mig_dequeue
  freelist_remove freelist_add put_words
proof unfold_locales
  fix r own p f
  assume a: "wf_region r own"
  show "nfree r = 0 \<Longrightarrow> freelist_remove r = Inr (None, r)" using a by (rule wf_freelist_remove_none)
  show "0 < nfree r \<Longrightarrow> \<exists>d s'. freelist_remove r = Inr (Some d, s') \<and> d \<notin> own \<and> wf_region s' (insert d own)
      \<and> nfree r = Suc (nfree s')
      \<and> (\<forall>q\<in>set live_qs. contents s' q = contents r q \<and> color_of s' q = color_of r q)
      \<and> (\<forall>x. payload s' x = payload r x)"
    using a by (rule wf_freelist_remove)
  show "p \<in> own \<Longrightarrow> \<exists>s'. freelist_add r p = Inr s' \<and> wf_region s' (own - {p}) \<and> nfree s' = Suc (nfree r)
      \<and> (\<forall>q\<in>set live_qs. contents s' q = contents r q \<and> color_of s' q = color_of r q)
      \<and> (\<forall>x. payload s' x = payload r x)"
    using a by (rule wf_freelist_add)
  show "p \<in> own \<Longrightarrow> wf_region (put_words p f r) own \<and> nfree (put_words p f r) = nfree r
      \<and> (\<forall>q\<in>set live_qs. contents (put_words p f r) q = contents r q
          \<and> color_of (put_words p f r) q = color_of r q)
      \<and> payload (put_words p f r) p = f (payload r p)
      \<and> (\<forall>x. x \<noteq> p \<longrightarrow> payload (put_words p f r) x = payload r x)"
    using a by (rule wf_put_words)
qed

end
