(* ===== verification/MigUsr.thy ===== *)
theory MigUsr
  imports MigRegion
begin

text \<open>
  The user API of \<^verbatim>\<open>libsmm/migusr.c\<close>: submitting a replication request and opening a device.
  The system calls (\<^verbatim>\<open>open\<close>, \<^verbatim>\<open>mmap\<close>, \<^verbatim>\<open>write\<close>) are parameters.  The last section gives the
  two things a user thread does to the shared region, one library call after the other: it
  submits a request, or it takes a completed one off \<open>qcomp\<close> and returns the descriptor to the
  free list (as the test programs do); the driver model lets such actions happen between any
  two of its own queue operations.
\<close>

section \<open>Submitting a request\<close>

definition MIG_INIT_REGION :: int where "MIG_INIT_REGION = 0"
definition MIG_FILL_QREQ :: int where "MIG_FILL_QREQ = 1"
definition MIG_EMPTY_QREQ :: int where "MIG_EMPTY_QREQ = 2"
definition MIG_MOVE_SINGLE :: int where "MIG_MOVE_SINGLE = 3"
definition MIG_MOVE_SINGLE_NOREMAP :: int where "MIG_MOVE_SINGLE_NOREMAP = 4"
definition MIG_MOVE_SINGLE_MIG :: int where "MIG_MOVE_SINGLE_MIG = 5"

text \<open>The three members that the API writes; \<^verbatim>\<open>order\<close> loses all but its low 3 bits.\<close>

definition fill_request :: "64 word \<Rightarrow> 64 word \<Rightarrow> 32 word \<Rightarrow> mig_desc \<Rightarrow> mig_desc" where
  "fill_request src dst ord d =
     set_order (ucast ord) (set_virt_base_dest (virt_to_base dst) (set_virt_base (virt_to_base src) d))"

text \<open>
  The library sees the region through a pointer \<open>r\<close> to the shared pages: in a state \<open>s\<close> of the whole machine
  they hold \<open>get r s\<close>, and \<open>put r R s\<close> is the state after they have been written.
\<close>

definition on_region ::
  "(int \<Rightarrow> 's \<Rightarrow> mig_region) \<Rightarrow> (int \<Rightarrow> mig_region \<Rightarrow> 's \<Rightarrow> 's) \<Rightarrow> int
     \<Rightarrow> (mig_region \<Rightarrow> fault + 'a \<times> mig_region) \<Rightarrow> 's \<Rightarrow> fault + 'a \<times> 's" where
  "on_region get put r f s = map_sum id (\<lambda>(x, R). (x, put r R s)) (f (get r s))"

text \<open>
  \<open>wr fd cmd\<close> is the system call \<^verbatim>\<open>write(fd, &cmd, sizeof(int))\<close>: it enters the kernel, so it acts on the
  whole state.  Its result is only printed.
\<close>

definition memif_start_replication ::
  "(int \<Rightarrow> 's \<Rightarrow> mig_region) \<Rightarrow> (int \<Rightarrow> mig_region \<Rightarrow> 's \<Rightarrow> 's) \<Rightarrow> (int \<Rightarrow> int \<Rightarrow> 's \<Rightarrow> fault + int \<times> 's)
     \<Rightarrow> int \<Rightarrow> int \<Rightarrow> 64 word \<Rightarrow> 64 word \<Rightarrow> 32 word \<Rightarrow> 's \<Rightarrow> fault + desc_p \<times> 's" where
  "memif_start_replication get put wr fd r src dst ord s =
     bindE (guardE Assert_failed (r \<noteq> 0)) (\<lambda>_.
     bindE (guardE Assert_failed (0 < fd)) (\<lambda>_.
     bindE (on_region get put r freelist_remove s) (\<lambda>(d, s).
     case d of None \<Rightarrow> Inl Assert_failed
     | Some desc \<Rightarrow>
         bindE (on_region get put r (\<lambda>R. Inr ((), upd_desc desc (fill_request src dst ord) R)) s) (\<lambda>(_, s).
         bindE (on_region get put r (\<lambda>R. mig_enqueue R Qreq desc) s) (\<lambda>(clr, s).
         if clr = COLOR_USR
         then bindE (wr fd MIG_MOVE_SINGLE_NOREMAP s) (\<lambda>(ret, s). Inr (desc, s))
         else Inr (desc, s))))))"

definition fns :: "string list" where
  "fns = [''/sys/kernel/debug/migif'', ''/sys/kernel/debug/migif1'',
          ''/sys/kernel/debug/migif2'', ''/sys/kernel/debug/migif3'']"

text \<open>
  \<open>opn\<close> and \<open>mmp\<close> are the system calls; \<open>mmp\<close> returns None for \<^verbatim>\<open>MAP_FAILED\<close>.  The result is
  the return value and what is stored through \<open>region\<close>, if anything.
\<close>

definition memif_open ::
  "(string \<Rightarrow> int) \<Rightarrow> (int \<Rightarrow> 64 word option) \<Rightarrow> int \<Rightarrow> fault + int \<times> 64 word option" where
  "memif_open opn mmp nr =
     bindE (guardE Assert_failed (0 \<le> nr \<and> nr \<le> 3)) (\<lambda>_.
     let fd = opn (fns ! nat nr) in
     if fd < 0 then Inr (-1, None)
     else case mmp fd of None \<Rightarrow> Inr (-1, None) | Some address \<Rightarrow> Inr (fd, Some address))"

section \<open>Effect of a submission\<close>

text \<open>The content words of a request, and its members.\<close>

definition fill_words :: "64 word \<Rightarrow> 64 word \<Rightarrow> 32 word \<Rightarrow> 64 word \<times> 64 word \<Rightarrow> 64 word \<times> 64 word" where
  "fill_words src dst ord = (\<lambda>(a, b).
     (bf_set 52 3 (ucast ord) (bf_set 0 52 (virt_to_base src) a), bf_set 0 52 (virt_to_base dst) b))"

lemma fill_request_words:
  "upd_desc p (fill_request src dst ord) r = put_words p (fill_words src dst ord) r"
proof -
  have "fill_request src dst ord d = (let (a, b) = fill_words src dst ord (word0 d, word1 d)
      in d\<lparr>word0 := a, word1 := b\<rparr>)" for d
    by (cases d) (simp add: fill_words_def fill_request_def set_order_def set_virt_base_dest_def
        set_virt_base_def)
  then show ?thesis by (simp add: put_words_def upd_desc_def)
qed

definition req_src :: "64 word \<times> 64 word \<Rightarrow> 64 word" where
  "req_src w = base_to_virt (bf_get 0 52 (fst w))"
definition req_dst :: "64 word \<times> 64 word \<Rightarrow> 64 word" where
  "req_dst w = base_to_virt (bf_get 0 52 (snd w))"
definition req_order :: "64 word \<times> 64 word \<Rightarrow> 64 word" where
  "req_order w = bf_get 52 3 (fst w)"

lemma fill_words_fields:
  "req_src (fill_words src dst ord w) = take_bit 52 (MIG_BLOCK_ROUND_DOWN src)"
  "req_dst (fill_words src dst ord w) = take_bit 52 (MIG_BLOCK_ROUND_DOWN dst)"
  "req_order (fill_words src dst ord w) = ucast ord AND mask 3"
  by (cases w; simp add: fill_words_def req_src_def req_dst_def req_order_def bf_get_set_same
      bf_get_set_other virt_to_base_fits base_to_virt_virt_to_base)+

section \<open>User actions\<close>

datatype uact = Submit "64 word" "64 word" "32 word" | Reap

text \<open>What was submitted and what was taken, as lists of at most one element.\<close>

definition user_submit ::
  "64 word \<Rightarrow> 64 word \<Rightarrow> 32 word \<Rightarrow> mig_region \<Rightarrow> fault + (64 word \<times> 64 word) list \<times> mig_region" where
  "user_submit src dst ord r = bindE (freelist_remove r) (\<lambda>(d, r).
     case d of None \<Rightarrow> Inr ([], r)
     | Some desc \<Rightarrow>
         let r = upd_desc desc (fill_request src dst ord) r; w = payload r desc in
         bindE (mig_enqueue r Qreq desc) (\<lambda>(clr, r). Inr ([w], r)))"

definition user_reap :: "mig_region \<Rightarrow> fault + (64 word \<times> 64 word) list \<times> mig_region" where
  "user_reap r = bindE (mig_dequeue r Qcomp) (\<lambda>(d, r).
     case d of None \<Rightarrow> Inr ([], r)
     | Some desc \<Rightarrow> let w = payload r desc in bindE (freelist_add r desc) (\<lambda>r. Inr ([w], r)))"

lemma qs_live [simp]: "Qreq \<in> set live_qs" "Qissued \<in> set live_qs" "Qcomp \<in> set live_qs"
  by (simp_all add: live_qs_def)

lemma user_submit_ok:
  assumes "wf_region r own" and "0 < nfree r"
  shows "\<exists>w r'. user_submit src dst ord r = Inr ([w], r') \<and> wf_region r' own
    \<and> contents r' Qreq = contents r Qreq @ [w] \<and> nfree r = Suc (nfree r')
    \<and> (\<forall>q\<in>set live_qs. q \<noteq> Qreq \<longrightarrow> contents r' q = contents r q)
    \<and> (\<forall>q\<in>set live_qs. color_of r' q = color_of r q) \<and> (\<forall>x\<in>own. payload r' x = payload r x)
    \<and> (\<exists>v. w = fill_words src dst ord v)"
proof -
  obtain d r1 r2 where a: "freelist_remove r = Inr (Some d, r1)"
    "mig_enqueue (put_words d (fill_words src dst ord) r1) Qreq d = Inr (color_of r Qreq, r2)"
    "wf_region r2 own" "contents r2 Qreq = contents r Qreq @ [fill_words src dst ord (payload r d)]"
    "nfree r = Suc (nfree r2)"
    "\<forall>q\<in>set live_qs. q \<noteq> Qreq \<longrightarrow> contents r2 q = contents r q"
    "\<forall>q\<in>set live_qs. color_of r2 q = color_of r q" "\<forall>x\<in>own. payload r2 x = payload r x"
    using mqa.submit_law [OF assms(1) qs_live(1) assms(2), of "fill_words src dst ord"] by blast
  obtain d' r1' where b: "freelist_remove r = Inr (Some d', r1')" "wf_region r1' (insert d' own)"
    "\<forall>x. payload r1' x = payload r x"
    using mqa.alloc_some [OF assms] by blast
  have e: "d' = d" "r1' = r1" using a(1) b(1) by simp_all
  have "payload (put_words d (fill_words src dst ord) r1) d = fill_words src dst ord (payload r d)"
    using mqa.put_law [of r1 "insert d own" d "fill_words src dst ord"] b(2,3) unfolding e by simp
  then have "user_submit src dst ord r = Inr ([fill_words src dst ord (payload r d)], r2)"
    using a(1,2) by (simp add: user_submit_def fill_request_words Let_def)
  then show ?thesis using a(3-) by blast
qed

lemma user_submit_none:
  assumes "wf_region r own" and "nfree r = 0"
  shows "user_submit src dst ord r = Inr ([], r)"
  using mqa.alloc_none [OF assms] by (simp add: user_submit_def)

lemma user_reap_none:
  assumes "wf_region r own" and "contents r Qcomp = []"
  shows "user_reap r = Inr ([], r)"
  using mq.deq_none [OF assms(1) qs_live(3) assms(2)] by (simp add: user_reap_def)

lemma user_reap_ok:
  assumes "wf_region r own" and "contents r Qcomp = w # ws" and "0 < nfree r"
  shows "\<exists>r'. user_reap r = Inr ([w], r') \<and> wf_region r' own
    \<and> contents r' Qcomp = ws \<and> nfree r' = Suc (nfree r)
    \<and> (\<forall>q\<in>set live_qs. q \<noteq> Qcomp \<longrightarrow> contents r' q = contents r q)
    \<and> (\<forall>q\<in>set live_qs. color_of r' q = color_of r q) \<and> (\<forall>x\<in>own. payload r' x = payload r x)"
proof -
  obtain d r1 where d: "mig_dequeue r Qcomp = Inr (Some d, r1)" "d \<notin> own" "wf_region r1 (insert d own)"
    "contents r Qcomp = payload r1 d # contents r1 Qcomp"
    "\<forall>q\<in>set live_qs. q \<noteq> Qcomp \<longrightarrow> contents r1 q = contents r q"
    "\<forall>q\<in>set live_qs. color_of r1 q = color_of r q" "nfree r1 = nfree r"
    "\<forall>x\<in>own. payload r1 x = payload r x"
    using mq.deq_some [OF assms(1) qs_live(3) _ assms(3)] assms(2) by force
  obtain r2 where f: "freelist_add r1 d = Inr r2" "wf_region r2 (insert d own - {d})"
    "nfree r2 = Suc (nfree r1)"
    "\<forall>q\<in>set live_qs. contents r2 q = contents r1 q \<and> color_of r2 q = color_of r1 q"
    "\<forall>x. payload r2 x = payload r1 x"
    using mqa.free_law [OF d(3)] by blast
  have o: "insert d own - {d} = own" using d(2) by blast
  have "user_reap r = Inr ([w], r2)" using d(1,4) f(1) assms(2) by (simp add: user_reap_def)
  then show ?thesis using f d o assms(2) by (auto simp del: insert_Diff_single)
qed

section \<open>The API call\<close>

text \<open>What the library relies on: shared pages hold what was written to them last.\<close>

locale shared_pages =
  fixes get :: "int \<Rightarrow> 's \<Rightarrow> mig_region" and put :: "int \<Rightarrow> mig_region \<Rightarrow> 's \<Rightarrow> 's"
  assumes get_put: "get r (put r R s) = R" and put_put: "put r R (put r R' s) = put r R s"
begin

text \<open>
  \<^verbatim>\<open>memif_start_replication\<close>: a free descriptor is filled in and becomes the last request; the
  driver is entered exactly if the request queue was the users', and the descriptor is returned.
\<close>

lemma start_replication_ok:
  assumes "wf_region (get r s) own" and "0 < nfree (get r s)" and "0 < fd" and "r \<noteq> 0"
  shows "\<exists>d w R. memif_start_replication get put wr fd r src dst ord s
      = (if color_of (get r s) Qreq = COLOR_USR
         then bindE (wr fd MIG_MOVE_SINGLE_NOREMAP (put r R s)) (\<lambda>(ret, s2). Inr (d, s2)) else Inr (d, put r R s))
    \<and> wf_region R own \<and> contents R Qreq = contents (get r s) Qreq @ [w] \<and> nfree (get r s) = Suc (nfree R)
    \<and> req_src w = take_bit 52 (MIG_BLOCK_ROUND_DOWN src) \<and> req_dst w = take_bit 52 (MIG_BLOCK_ROUND_DOWN dst)
    \<and> req_order w = ucast ord AND mask 3
    \<and> (\<forall>q\<in>set live_qs. q \<noteq> Qreq \<longrightarrow> contents R q = contents (get r s) q)
    \<and> (\<forall>q\<in>set live_qs. color_of R q = color_of (get r s) q)"
proof -
  let ?w = "fill_words src dst ord" and ?R = "get r s"
  obtain d R1 R2 where a: "freelist_remove ?R = Inr (Some d, R1)"
    "mig_enqueue (put_words d ?w R1) Qreq d = Inr (color_of ?R Qreq, R2)"
    "wf_region R2 own" "contents R2 Qreq = contents ?R Qreq @ [?w (payload ?R d)]" "nfree ?R = Suc (nfree R2)"
    "\<forall>q\<in>set live_qs. q \<noteq> Qreq \<longrightarrow> contents R2 q = contents ?R q"
    "\<forall>q\<in>set live_qs. color_of R2 q = color_of ?R q"
    using mqa.submit_law [OF assms(1) qs_live(1) assms(2), of ?w] by blast
  have "memif_start_replication get put wr fd r src dst ord s
      = (if color_of ?R Qreq = COLOR_USR
         then bindE (wr fd MIG_MOVE_SINGLE_NOREMAP (put r R2 s)) (\<lambda>(ret, s2). Inr (d, s2)) else Inr (d, put r R2 s))"
    using assms(3,4) a(1,2)
    by (simp add: memif_start_replication_def on_region_def get_put put_put fill_request_words)
  then show ?thesis
    using a(3-7) fill_words_fields [of src dst ord "payload ?R d"] by blast
qed

lemma start_replication_fails:
  assumes "wf_region (get r s) own" and "nfree (get r s) = 0 \<or> fd \<le> 0 \<or> r = 0"
  shows "memif_start_replication get put wr fd r src dst ord s = Inl Assert_failed"
proof (cases "0 < fd \<and> r \<noteq> 0")
  case True
  then have "freelist_remove (get r s) = Inr (None, get r s)" using mqa.alloc_none [OF assms(1)] assms(2) by simp
  then show ?thesis using True by (simp add: memif_start_replication_def on_region_def)
qed (auto simp: memif_start_replication_def guardE_def)

end

end
