(* ===== verification/Monad.thy ===== *)
theory Monad
  imports Prelude
begin

text \<open>
  Programs with a state and faults, and their calls of code outside this repository.  A state
  type of a component extends \<open>env\<close>, the history of such calls and the function that answers
  them.  Two kinds of facts about programs are shared: what a run leaves unchanged (\<open>keeps\<close>) and
  how the calls of a run balance (\<open>shifts\<close>).
\<close>

section \<open>Programs\<close>

type_synonym ('s, 'a) prog = "'s \<Rightarrow> fault + 'a \<times> 's"

definition ret :: "'a \<Rightarrow> ('s, 'a) prog" where "ret x = (\<lambda>s. Inr (x, s))"
definition failK :: "fault \<Rightarrow> ('s, 'a) prog" where "failK e = (\<lambda>s. Inl e)"

definition bindK :: "('s, 'a) prog \<Rightarrow> ('a \<Rightarrow> ('s, 'b) prog) \<Rightarrow> ('s, 'b) prog" where
  "bindK m f = (\<lambda>s. case m s of Inl e \<Rightarrow> Inl e | Inr (x, s1) \<Rightarrow> f x s1)"

definition seqK :: "('s, 'a) prog \<Rightarrow> ('s, 'b) prog \<Rightarrow> ('s, 'b) prog" where
  "seqK m n = bindK m (\<lambda>_. n)"

definition getK :: "('s \<Rightarrow> 'a) \<Rightarrow> ('s, 'a) prog" where "getK f = (\<lambda>s. Inr (f s, s))"
definition modK :: "('s \<Rightarrow> 's) \<Rightarrow> ('s, unit) prog" where "modK f = (\<lambda>s. Inr ((), f s))"

definition BUG_ON :: "bool \<Rightarrow> ('s, unit) prog" where
  "BUG_ON b = (if b then failK Bug else ret ())"

definition assertK :: "bool \<Rightarrow> ('s, unit) prog" where
  "assertK b = (if b then ret () else failK Assert_failed)"

text \<open>\<open>whenK\<close> is an \<^verbatim>\<open>if\<close> without \<^verbatim>\<open>else\<close>; \<open>forK\<close> and \<open>foldK\<close> run a body for each index of a list.\<close>

definition whenK :: "bool \<Rightarrow> ('s, unit) prog \<Rightarrow> ('s, unit) prog" where
  "whenK b m = (if b then m else ret ())"

primrec forK :: "'a list \<Rightarrow> ('a \<Rightarrow> ('s, unit) prog) \<Rightarrow> ('s, unit) prog" where
  "forK [] f = ret ()"
| "forK (x # xs) f = seqK (f x) (forK xs f)"

primrec foldK :: "('b \<Rightarrow> 'a \<Rightarrow> ('s, 'b) prog) \<Rightarrow> 'b \<Rightarrow> 'a list \<Rightarrow> ('s, 'b) prog" where
  "foldK f b [] = ret b"
| "foldK f b (x # xs) = bindK (f b x) (\<lambda>b'. foldK f b' xs)"

lemma run_simps [simp]:
  "ret x s = Inr (x, s)"
  "failK e s = Inl e"
  "getK g s = Inr (g s, s)"
  "modK h s = Inr ((), h s)"
  "BUG_ON b s = (if b then Inl Bug else Inr ((), s))"
  "assertK b s = (if b then Inr ((), s) else Inl Assert_failed)"
  by (simp_all add: ret_def failK_def getK_def modK_def BUG_ON_def assertK_def)

lemma bindK_run:
  "bindK m f s = (case m s of Inl e \<Rightarrow> Inl e | Inr (x, s1) \<Rightarrow> f x s1)"
  by (simp add: bindK_def)

lemma seqK_run:
  "seqK m n s = (case m s of Inl e \<Rightarrow> Inl e | Inr (x, s1) \<Rightarrow> n s1)"
  by (simp add: seqK_def bindK_def)

lemma bindK_Inr [simp]: "m s = Inr (x, s1) \<Longrightarrow> bindK m f s = f x s1"
  by (simp add: bindK_def)

lemma bindK_Inl [simp]: "m s = Inl e \<Longrightarrow> bindK m f s = Inl e"
  by (simp add: bindK_def)

lemma seqK_Inr [simp]: "m s = Inr (x, s1) \<Longrightarrow> seqK m n s = n s1"
  by (simp add: seqK_def)

lemma seqK_Inl [simp]: "m s = Inl e \<Longrightarrow> seqK m n s = Inl e"
  by (simp add: seqK_def)

lemma bindK_eq_Inr:
  "bindK m f s = Inr (y, s2) \<longleftrightarrow> (\<exists>x s1. m s = Inr (x, s1) \<and> f x s1 = Inr (y, s2))"
  by (auto simp: bindK_def split: sum.splits)

lemma seqK_eq_Inr:
  "seqK m n s = Inr (y, s2) \<longleftrightarrow> (\<exists>x s1. m s = Inr (x, s1) \<and> n s1 = Inr (y, s2))"
  by (auto simp: seqK_def bindK_eq_Inr)

section \<open>Calls of code outside the model\<close>

text \<open>
  A call is recorded as its name, arguments and result; the result is the answer of an arbitrary
  function of everything called so far.
\<close>

type_synonym kevent = "string \<times> int list \<times> int"

record env =
  hist :: "kevent list"
  answer :: "kevent list \<Rightarrow> string \<Rightarrow> int list \<Rightarrow> int"

text \<open>A call of a kernel function: by its result, as a truth value, and for its effect only.\<close>

definition call :: "string \<Rightarrow> int list \<Rightarrow> ('z env_scheme, int) prog" where
  "call f xs = (\<lambda>s. let v = answer s (hist s) f xs in Inr (v, s\<lparr>hist := hist s @ [(f, xs, v)]\<rparr>))"

definition callb :: "string \<Rightarrow> int list \<Rightarrow> ('z env_scheme, bool) prog" where
  "callb f xs = bindK (call f xs) (\<lambda>v. ret (v \<noteq> 0))"

definition exec :: "string \<Rightarrow> int list \<Rightarrow> ('z env_scheme, unit) prog" where
  "exec f xs = seqK (call f xs) (ret ())"

lemma call_run:
  "call f xs s = Inr (answer s (hist s) f xs,
     s\<lparr>hist := hist s @ [(f, xs, answer s (hist s) f xs)]\<rparr>)"
  by (simp add: call_def Let_def)

lemma callb_run:
  "callb f xs s = Inr (answer s (hist s) f xs \<noteq> 0,
     s\<lparr>hist := hist s @ [(f, xs, answer s (hist s) f xs)]\<rparr>)"
  by (simp add: callb_def call_run)

lemma exec_run:
  "exec f xs s = Inr ((), s\<lparr>hist := hist s @ [(f, xs, answer s (hist s) f xs)]\<rparr>)"
  by (simp add: exec_def call_run)

lemmas call_runs = call_run callb_run exec_run

section \<open>Frames and balances\<close>

text \<open>\<open>keeps g m\<close>: a run of \<open>m\<close> that returns leaves the part \<open>g\<close> of the state as it was.\<close>

definition keeps :: "('s \<Rightarrow> 'x) \<Rightarrow> ('s, 'a) prog \<Rightarrow> bool" where
  "keeps g m \<longleftrightarrow> (\<forall>s x s1. m s = Inr (x, s1) \<longrightarrow> g s1 = g s)"

lemma keepsD: "keeps g m \<Longrightarrow> m s = Inr (x, s1) \<Longrightarrow> g s1 = g s"
  by (simp add: keeps_def)

lemma keeps_bindK [simp]:
  assumes "keeps g m" and "\<And>x. keeps g (f x)"
  shows "keeps g (bindK m f)"
  unfolding keeps_def bindK_eq_Inr using assms by (metis keepsD)

lemma keeps_seqK [simp]: "keeps g m \<Longrightarrow> keeps g n \<Longrightarrow> keeps g (seqK m n)"
  by (simp add: seqK_def)

lemma keeps_basic [simp]:
  "keeps g (ret x)" "keeps g (failK e)" "keeps g (getK h)" "keeps g (BUG_ON b)" "keeps g (assertK b)"
  by (auto simp: keeps_def split: if_splits)

lemma keeps_if [simp]: "keeps g m \<Longrightarrow> keeps g n \<Longrightarrow> keeps g (if b then m else n)"
  by simp

lemma keeps_whenK [simp]: "keeps g m \<Longrightarrow> keeps g (whenK b m)"
  by (simp add: whenK_def)

lemma keeps_forK [simp]: "(\<And>x. keeps g (f x)) \<Longrightarrow> keeps g (forK xs f)"
  by (induction xs) simp_all

lemma keeps_foldK [simp]: "(\<And>b x. keeps g (f b x)) \<Longrightarrow> keeps g (foldK f b xs)"
  by (induction xs arbitrary: b) simp_all

lemma keeps_modK: "(\<And>s. g (h s) = g s) \<Longrightarrow> keeps g (modK h)"
  by (simp add: keeps_def)

text \<open>
  \<open>shifts w m D\<close>: the calls made by a run of \<open>m\<close> that returns \<open>x\<close> weigh \<open>D x\<close> under the weight
  \<open>w\<close> of one call.  With \<open>w\<close> counting \<open>1\<close> for taking and \<open>-1\<close> for releasing a lock or a
  reference, this is a balance.
\<close>

definition weight :: "(kevent \<Rightarrow> int) \<Rightarrow> 'z env_scheme \<Rightarrow> int" where
  "weight w s = sum_list (map w (hist s))"

definition shifts :: "(kevent \<Rightarrow> int) \<Rightarrow> ('z env_scheme, 'a) prog \<Rightarrow> ('a \<Rightarrow> int) \<Rightarrow> bool" where
  "shifts w m D \<longleftrightarrow> (\<forall>s x s1. m s = Inr (x, s1) \<longrightarrow> weight w s1 = weight w s + D x)"

lemma shiftsD: "shifts w m D \<Longrightarrow> m s = Inr (x, s1) \<Longrightarrow> weight w s1 = weight w s + D x"
  by (simp add: shifts_def)

lemma shifts_bindK:
  assumes "shifts w m D" and "\<And>x. shifts w (f x) (\<lambda>y. E y - D x)"
  shows "shifts w (bindK m f) E"
  unfolding shifts_def bindK_eq_Inr
proof (intro allI impI, elim exE conjE)
  fix s y s2 x s1
  assume "m s = Inr (x, s1)" "f x s1 = Inr (y, s2)"
  then show "weight w s2 = weight w s + E y"
    using shiftsD [OF assms(1)] shiftsD [OF assms(2)] by force
qed

lemma shifts_seqK:
  assumes "shifts w m (\<lambda>_. d)" and "shifts w n (\<lambda>y. E y - d)"
  shows "shifts w (seqK m n) E"
  unfolding seqK_def by (rule shifts_bindK [OF assms])

lemma shifts_call:
  assumes "\<And>v. w (f, xs, v) = D v"
  shows "shifts w (call f xs) D"
  using assms by (simp add: shifts_def call_run weight_def)

lemma shifts_exec:
  assumes "\<And>v. w (f, xs, v) = d"
  shows "shifts w (exec f xs) (\<lambda>_. d)"
  using assms by (simp add: shifts_def exec_run weight_def)

lemma forK_append: "forK (xs @ ys) f s = seqK (forK xs f) (forK ys f) s"
  by (induction xs arbitrary: s) (auto simp: seqK_run split: sum.splits prod.splits)

lemma seqK_ret [simp]: "seqK m (ret ()) = m"
  by (auto simp: fun_eq_iff seqK_run split: sum.splits)

lemma foldK_snoc: "foldK f b (xs @ [x]) s = bindK (foldK f b xs) (\<lambda>b'. f b' x) s"
  by (induction xs arbitrary: b s) (auto simp: bindK_run split: sum.splits)

text \<open>The case of weight zero closes under composition.\<close>

abbreviation quiet :: "(kevent \<Rightarrow> int) \<Rightarrow> ('z env_scheme, 'a) prog \<Rightarrow> bool" where
  "quiet w m \<equiv> shifts w m (\<lambda>_. 0)"

lemma quiet_bindK [simp]: "quiet w m \<Longrightarrow> (\<And>x. quiet w (f x)) \<Longrightarrow> quiet w (bindK m f)"
  by (rule shifts_bindK) auto

lemma quiet_seqK [simp]: "quiet w m \<Longrightarrow> quiet w n \<Longrightarrow> quiet w (seqK m n)"
  by (rule shifts_seqK) auto

lemma quiet_basic [simp]:
  "quiet w (ret x)" "quiet w (failK e)" "quiet w (getK h)" "quiet w (BUG_ON b)" "quiet w (assertK b)"
  by (auto simp: shifts_def weight_def split: if_splits)

lemma quiet_modK [simp]: "(\<And>s. hist (h s) = hist s) \<Longrightarrow> quiet w (modK h)"
  by (simp add: shifts_def weight_def)

lemma quiet_if [simp]: "quiet w m \<Longrightarrow> quiet w n \<Longrightarrow> quiet w (if b then m else n)"
  by simp

lemma quiet_whenK [simp]: "quiet w m \<Longrightarrow> quiet w (whenK b m)"
  by (simp add: whenK_def)

lemma quiet_forK [simp]: "(\<And>x. quiet w (f x)) \<Longrightarrow> quiet w (forK xs f)"
  by (induction xs) simp_all

lemma quiet_foldK [simp]: "(\<And>b x. quiet w (f b x)) \<Longrightarrow> quiet w (foldK f b xs)"
  by (induction xs arbitrary: b) simp_all

lemma quiet_call [simp]:
  "(\<And>v. w (f, xs, v) = 0) \<Longrightarrow> quiet w (call f xs)"
  "(\<And>v. w (f, xs, v) = 0) \<Longrightarrow> quiet w (callb f xs)"
  "(\<And>v. w (f, xs, v) = 0) \<Longrightarrow> quiet w (exec f xs)"
  by (simp_all add: shifts_call shifts_exec callb_def)

text \<open>A sequence with a step that weighs something.\<close>

lemma shifts_step [simp]:
  "quiet w m \<Longrightarrow> (\<And>x. shifts w (f x) E) \<Longrightarrow> shifts w (bindK m f) E"
  "quiet w m \<Longrightarrow> shifts w n E \<Longrightarrow> shifts w (seqK m n) E"
  by (auto intro: shifts_bindK shifts_seqK)

lemma shifts_exec_seq [simp]:
  "(\<And>v. w (c, xs, v) = w (c, xs, 0)) \<Longrightarrow> shifts w n (\<lambda>y. E y - w (c, xs, 0))
    \<Longrightarrow> shifts w (seqK (exec c xs) n) E"
  by (rule shifts_seqK [OF shifts_exec])

lemma shifts_ret [simp]:
  "shifts w (ret x) E \<longleftrightarrow> E x = 0" "shifts w (\<lambda>s. Inr (x, s)) E \<longleftrightarrow> E x = 0"
  "shifts w (\<lambda>s. Inl e) E" "shifts w (failK e) E"
  by (auto simp: shifts_def)

lemma keeps_ret_eta [simp]: "keeps g (\<lambda>s. Inr (x, s))" "keeps g (\<lambda>s. Inl e)"
  by (simp_all add: keeps_def)

lemma shifts_BUG_ON [simp]:
  "(\<not> b \<Longrightarrow> shifts w n E) \<Longrightarrow> shifts w (seqK (BUG_ON b) n) E"
  by (auto simp: shifts_def seqK_run)

lemma shifts_if [simp]:
  "(b \<Longrightarrow> shifts w m E) \<Longrightarrow> (\<not> b \<Longrightarrow> shifts w n E) \<Longrightarrow> shifts w (if b then m else n) E"
  by simp

lemma shifts_option [simp]:
  "shifts w m E \<Longrightarrow> (\<And>x. shifts w (h x) E) \<Longrightarrow> shifts w (case o1 of None \<Rightarrow> m | Some x \<Rightarrow> h x) E"
  by (simp split: option.splits)

lemma shifts_prod [simp]:
  "(\<And>a b. shifts w (h a b) E) \<Longrightarrow> shifts w (case p of (a, b) \<Rightarrow> h a b) E"
  by (simp split: prod.splits)

lemma shifts_eq: "shifts w m E \<Longrightarrow> (\<And>y. E y = F y) \<Longrightarrow> shifts w m F"
  by (simp add: shifts_def)

text \<open>A loop whose rounds weigh the same.\<close>

lemma shifts_foldK_const:
  assumes "\<And>b x. shifts w (f b x) (\<lambda>_. c)"
  shows "shifts w (foldK f b xs) (\<lambda>_. c * int (length xs))"
proof (induction xs arbitrary: b)
  case (Cons x xs)
  show ?case
    unfolding foldK.simps by (rule shifts_bindK [OF assms]) (use Cons in \<open>simp add: algebra_simps\<close>)
qed simp

lemma shifts_forK_const:
  assumes "\<And>x. shifts w (f x) (\<lambda>_. c)"
  shows "shifts w (forK xs f) (\<lambda>_. c * int (length xs))"
proof (induction xs)
  case (Cons x xs)
  show ?case
    unfolding forK.simps by (rule shifts_seqK [OF assms]) (use Cons in \<open>simp add: algebra_simps\<close>)
qed simp

text \<open>The result of a call may decide its weight.\<close>

lemma shifts_callb_bind:
  "(\<And>v. shifts w (f (v \<noteq> 0)) (\<lambda>y. E y - w (c, xs, v))) \<Longrightarrow> shifts w (bindK (callb c xs) f) E"
  unfolding shifts_def bindK_eq_Inr callb_run weight_def by fastforce

lemma shifts_call_bind:
  "(\<And>v. shifts w (f v) (\<lambda>y. E y - w (c, xs, v))) \<Longrightarrow> shifts w (bindK (call c xs) f) E"
  unfolding shifts_def bindK_eq_Inr call_run weight_def by fastforce

lemma keeps_cases [simp]:
  "(\<And>a b. keeps g (f a b)) \<Longrightarrow> keeps g (case p of (a, b) \<Rightarrow> f a b)"
  "keeps g m \<Longrightarrow> (\<And>x. keeps g (h x)) \<Longrightarrow> keeps g (case o1 of None \<Rightarrow> m | Some x \<Rightarrow> h x)"
  by (simp_all split: prod.splits option.splits)

lemma quiet_cases [simp]:
  "(\<And>a b. quiet w (f a b)) \<Longrightarrow> quiet w (case p of (a, b) \<Rightarrow> f a b)"
  "quiet w m \<Longrightarrow> (\<And>x. quiet w (h x)) \<Longrightarrow> quiet w (case o1 of None \<Rightarrow> m | Some x \<Rightarrow> h x)"
  by (simp_all split: prod.splits option.splits)

lemma keeps_Let [simp]: "(\<And>x. keeps g (f x)) \<Longrightarrow> keeps g (let x = v in f x)"
  by (simp add: Let_def)


end
