(* ===== verification/Kernel.thy ===== *)
theory Kernel
  imports MigUsr Monad "HOL-Library.Sublist"
begin

text \<open>
  The world the driver runs in.  The driver code is modelled as functions of a state monad with
  faults (\<open>'a kern\<close>) over the state \<open>kst\<close>: the shared regions, the driver's own tables and
  globals, the two members of \<^verbatim>\<open>struct page\<close> it assigns itself, and the history of the kernel
  functions it has called.  A kernel function that is not part of this repository is a call
  \<open>(name, arguments, result)\<close> in the history; its result is an answer of \<open>answer\<close>, an arbitrary
  function of everything called so far.  Pointers are integers, \<open>0\<close> is \<^verbatim>\<open>NULL\<close>.

  User threads run beside the driver: \<open>sched r\<close> is a list of chunks of user actions, and the
  next chunk runs on region \<open>r\<close> before each queue operation of the driver.  \<open>log_sub\<close> and
  \<open>log_reap\<close> record what the users have submitted and taken.
\<close>

section \<open>State\<close>

type_synonym addr = int
type_synonym words2 = "64 word \<times> 64 word"

record kpage =
  pg_mapping :: addr
  pg_index :: int

record mig_pg_desc =
  newpage :: addr
  page :: addr
  remap_swapcache :: int
  anon_vma :: addr
  pg_mem :: addr
  mig :: desc_p
  ptep :: addr
  pte :: int
  status :: int

text \<open>The two functions that submit a descriptor; \<open>Issue_null\<close> is a null function pointer.\<close>

datatype issue_func = Issue_null | Issue_copy | Issue_mig | Issue_garbage

text \<open>
  \<open>pg_desc\<close> has \<^verbatim>\<open>MAX_NR_SG\<close> elements; \<open>user_cpu\<close> also stands for the debug member \<^verbatim>\<open>tx_id\<close> of
  the same union.  \<open>migdesc\<close> is None for a null pointer.
\<close>

record mig_table =
  t_region :: addr
  t_mm :: addr
  issue_one_desc_func :: issue_func
  num_mig_descs :: int
  num_pages :: int
  pagelist :: "addr list"
  user_cpu :: int
  migdesc :: "desc_p option"
  pg_desc :: "nat \<Rightarrow> mig_pg_desc"

text \<open>The two members of \<^verbatim>\<open>pg_data_t\<close> that rate-limit NUMA migration.\<close>

record pgdat =
  numabalancing_migrate_next_window :: "64 word"
  numabalancing_migrate_nr_pages :: "64 word"

record mmap_info =
  i_chan :: addr
  i_region :: addr
  reference :: int

text \<open>
  The return codes of the migration functions; the value of \<^verbatim>\<open>MIGRATEPAGE_PENDING\<close> is not part of
  this repository.  \<open>kernel_rc\<close> reads the code that a function of the kernel proper returned; such
  a function does not know \<open>PENDING\<close>.
\<close>

datatype rc = SUCCESS | BALLOON_SUCCESS | PENDING | ENOMEM | EAGAIN | EBUSY | EINVAL | EIO | Other_rc int

definition kernel_rc :: "int \<Rightarrow> rc" where
  "kernel_rc v = (if v = 0 then SUCCESS else if v = 1 then BALLOON_SUCCESS else if v = -12 then ENOMEM
     else if v = -11 then EAGAIN else if v = -16 then EBUSY else if v = -22 then EINVAL
     else if v = -5 then EIO else Other_rc v)"

lemma kernel_rc_not_pending [simp]: "kernel_rc v \<noteq> PENDING"
  by (simp add: kernel_rc_def)

text \<open>
  \<open>after_free\<close> is what a table holds once its pages are given back: anything.  \<open>page_mem\<close> is what
  the pages of a region hold before they are initialised.  \<open>filp_priv\<close> and \<open>vma_priv\<close> are the
  members \<^verbatim>\<open>private_data\<close> of open files and \<^verbatim>\<open>vm_private_data\<close> of mappings.  \<open>my_counter\<close>,
  \<open>test_flag\<close> and the two arrays of times are globals of the 16-channel driver only.  Of the calling
  process, \<open>umem\<close> is what its memory holds as an \<^verbatim>\<open>int\<close> at an address, and \<open>files\<close> its table of open files,
  0 where there is none.
\<close>

record kst = env +
  regs :: "addr \<Rightarrow> mig_region"
  tables :: "addr \<Rightarrow> mig_table"
  after_free :: "addr \<Rightarrow> mig_table \<Rightarrow> mig_table"
  infos :: "addr \<Rightarrow> mmap_info"
  pages :: "addr \<Rightarrow> kpage"
  chans :: "int \<Rightarrow> addr"
  g_huge_page :: int
  usr_nr_tx :: "32 word"
  ker_nr_tx :: "32 word"
  filp_priv :: "addr \<Rightarrow> addr"
  vma_priv :: "addr \<Rightarrow> addr"
  debugif :: "int \<Rightarrow> addr"
  umem :: "addr \<Rightarrow> int"
  files :: "int \<Rightarrow> addr"
  page_mem :: "addr \<Rightarrow> nat \<Rightarrow> mig_desc"
  pgdats :: "addr \<Rightarrow> pgdat"
  max_nr_sg :: nat
  my_counter :: "32 word"
  test_flag :: nat
  cmplet_time :: "int list"
  start_transfer :: "int list"
  sched :: "addr \<Rightarrow> uact list list"
  log_sub :: "addr \<Rightarrow> words2 list"
  log_reap :: "addr \<Rightarrow> words2 list"

definition PAGE_SIZE :: int where "PAGE_SIZE = 4096"
definition NPAGES :: int where "NPAGES = 4"
definition NR_DEVICES :: int where "NR_DEVICES = 4"
definition HUGE_PAGE_SIZE :: int where "HUGE_PAGE_SIZE = 2 * 1024 * 1024"
definition MIGTABLE_PAGE_ORDER :: int where "MIGTABLE_PAGE_ORDER = 4"

text \<open>The device's \<^verbatim>\<open>mmap_info\<close> lies right after its region; the wait queue is a member of it.\<close>

definition region_to_mmap_info :: "addr \<Rightarrow> addr" where
  "region_to_mmap_info r = r + PAGE_SIZE * (NPAGES - 1)"

type_synonym 'a kern = "(kst, 'a) prog"

section \<open>Access to the driver's memory\<close>

definition upd_table :: "addr \<Rightarrow> (mig_table \<Rightarrow> mig_table) \<Rightarrow> unit kern" where
  "upd_table t f = modK (\<lambda>s. s\<lparr>tables := (tables s)(t := f (tables s t))\<rparr>)"

definition get_table :: "addr \<Rightarrow> (mig_table \<Rightarrow> 'a) \<Rightarrow> 'a kern" where
  "get_table t f = getK (\<lambda>s. f (tables s t))"

text \<open>\<^verbatim>\<open>table->pg_desc[i]\<close>: an index outside the array is a fault.\<close>

definition get_pg :: "addr \<Rightarrow> nat \<Rightarrow> mig_pg_desc kern" where
  "get_pg t i = (\<lambda>s. if i < max_nr_sg s then Inr (pg_desc (tables s t) i, s) else Inl Bad_access)"

definition upd_pg :: "addr \<Rightarrow> nat \<Rightarrow> (mig_pg_desc \<Rightarrow> mig_pg_desc) \<Rightarrow> unit kern" where
  "upd_pg t i f = (\<lambda>s. if i < max_nr_sg s
     then upd_table t (\<lambda>T. T\<lparr>pg_desc := (pg_desc T)(i := f (pg_desc T i))\<rparr>) s
     else Inl Bad_access)"

definition get_page :: "addr \<Rightarrow> (kpage \<Rightarrow> 'a) \<Rightarrow> 'a kern" where
  "get_page p f = getK (\<lambda>s. f (pages s p))"

definition upd_page :: "addr \<Rightarrow> (kpage \<Rightarrow> kpage) \<Rightarrow> unit kern" where
  "upd_page p f = modK (\<lambda>s. s\<lparr>pages := (pages s)(p := f (pages s p))\<rparr>)"

definition get_info :: "addr \<Rightarrow> (mmap_info \<Rightarrow> 'a) \<Rightarrow> 'a kern" where
  "get_info i f = getK (\<lambda>s. f (infos s i))"

definition upd_info :: "addr \<Rightarrow> (mmap_info \<Rightarrow> mmap_info) \<Rightarrow> unit kern" where
  "upd_info i f = modK (\<lambda>s. s\<lparr>infos := (infos s)(i := f (infos s i))\<rparr>)"

text \<open>A member of a descriptor, and a write to one the driver holds.\<close>

definition get_desc :: "addr \<Rightarrow> desc_p \<Rightarrow> (mig_desc \<Rightarrow> 'a) \<Rightarrow> 'a kern" where
  "get_desc r d f = getK (\<lambda>s. f (desc_at (regs s r) d))"

definition set_desc :: "addr \<Rightarrow> desc_p \<Rightarrow> (mig_desc \<Rightarrow> mig_desc) \<Rightarrow> unit kern" where
  "set_desc r d f = modK (\<lambda>s. s\<lparr>regs := (regs s)(r := upd_desc d f (regs s r))\<rparr>)"

text \<open>\<^verbatim>\<open>free_pages(table, order)\<close>: from here on the table's bytes are not ours.\<close>

definition free_table_of :: "int \<Rightarrow> addr \<Rightarrow> unit kern" where
  "free_table_of ord t = seqK (exec ''free_pages'' [t, ord])
     (modK (\<lambda>s. s\<lparr>tables := (tables s)(t := after_free s t (tables s t))\<rparr>))"

definition free_table :: "addr \<Rightarrow> unit kern" where
  "free_table = free_table_of MIGTABLE_PAGE_ORDER"

section \<open>Queue operations among user actions\<close>

definition user_act :: "uact \<Rightarrow> mig_region \<Rightarrow> words2 list \<times> words2 list \<times> mig_region" where
  "user_act a R = (case a of
     Submit src dst ord \<Rightarrow>
       (case user_submit src dst ord R of Inl e \<Rightarrow> ([], [], R) | Inr (ws, R1) \<Rightarrow> (ws, [], R1))
   | Reap \<Rightarrow> (case user_reap R of Inl e \<Rightarrow> ([], [], R) | Inr (ws, R1) \<Rightarrow> ([], ws, R1)))"

fun user_acts :: "uact list \<Rightarrow> mig_region \<Rightarrow> words2 list \<times> words2 list \<times> mig_region" where
  "user_acts [] R = ([], [], R)"
| "user_acts (a # as) R =
     (let (u, v, R1) = user_act a R; (us, vs, R2) = user_acts as R1 in (u @ us, v @ vs, R2))"

definition next_chunk :: "'a list list \<Rightarrow> 'a list" where
  "next_chunk cs = (case cs of [] \<Rightarrow> [] | c # _ \<Rightarrow> c)"

text \<open>The users' next chunk of actions on region \<open>r\<close>.\<close>

definition interfere :: "addr \<Rightarrow> unit kern" where
  "interfere r = modK (\<lambda>s.
     let (us, vs, R) = user_acts (next_chunk (sched s r)) (regs s r) in
     s\<lparr>regs := (regs s)(r := R), sched := (sched s)(r := tl (sched s r)),
       log_sub := (log_sub s)(r := log_sub s r @ us), log_reap := (log_reap s)(r := log_reap s r @ vs)\<rparr>)"

text \<open>A library operation on the region as it is then.\<close>

definition lib_op :: "addr \<Rightarrow> (mig_region \<Rightarrow> fault + 'a \<times> mig_region) \<Rightarrow> 'a kern" where
  "lib_op r f = (\<lambda>s. case f (regs s r) of Inl e \<Rightarrow> Inl e
     | Inr (x, R) \<Rightarrow> Inr (x, s\<lparr>regs := (regs s)(r := R)\<rparr>))"

definition k_dequeue :: "addr \<Rightarrow> qid \<Rightarrow> desc_p option kern" where
  "k_dequeue r q = seqK (interfere r) (lib_op r (\<lambda>R. mig_dequeue R q))"

definition k_enqueue :: "addr \<Rightarrow> qid \<Rightarrow> desc_p \<Rightarrow> color_t kern" where
  "k_enqueue r q d = seqK (interfere r) (lib_op r (\<lambda>R. mig_enqueue R q d))"

definition k_set_color :: "addr \<Rightarrow> qid \<Rightarrow> color_t \<Rightarrow> color_t kern" where
  "k_set_color r q c = seqK (interfere r) (lib_op r (\<lambda>R. migqueue_set_color_if_empty R q c))"

definition k_color :: "addr \<Rightarrow> qid \<Rightarrow> color_t kern" where
  "k_color r q = seqK (interfere r) (lib_op r (\<lambda>R. bindE (migqueue_color R q) (\<lambda>c. Inr (c, R))))"

definition k_is_empty :: "addr \<Rightarrow> qid \<Rightarrow> bool kern" where
  "k_is_empty r q = seqK (interfere r) (getK (\<lambda>s. migqueue_is_empty (regs s r) q))"

section \<open>Code that leaves the queues alone\<close>

definition qview :: "kst \<Rightarrow> (addr \<Rightarrow> mig_region) \<times> (addr \<Rightarrow> uact list list) \<times> (addr \<Rightarrow> words2 list)
    \<times> (addr \<Rightarrow> words2 list) \<times> nat" where
  "qview s = (regs s, sched s, log_sub s, log_reap s, max_nr_sg s)"

lemma keeps_access [simp]:
  "keeps g (get_table t h1)" "keeps g (get_pg t i)" "keeps g (get_page p h2)" "keeps g (get_info j h3)"
  "keeps g (get_desc r d h4)"
  by (auto simp: keeps_def get_table_def get_pg_def get_page_def get_info_def get_desc_def
      split: if_splits)

lemma keeps_qview [simp]:
  "keeps qview (call f xs)" "keeps qview (callb f xs)" "keeps qview (exec f xs)"
  "keeps qview (upd_table t h1)" "keeps qview (upd_pg t i h2)" "keeps qview (upd_page p h3)"
  "keeps qview (upd_info j h4)" "keeps qview (free_table_of ord t)" "keeps qview (free_table t)"
  by (auto simp: keeps_def qview_def call_runs upd_table_def upd_pg_def upd_page_def upd_info_def
      free_table_def free_table_of_def seqK_eq_Inr split: if_splits)

lemma keeps_tables [simp]:
  "keeps tables (call f xs)" "keeps tables (callb f xs)" "keeps tables (exec f xs)"
  "keeps tables (upd_page p h3)" "keeps tables (upd_info j h4)" "keeps tables (set_desc r d h5)"
  by (auto simp: keeps_def call_runs upd_page_def upd_info_def set_desc_def)

lemma quiet_access [simp]:
  "quiet w (get_table t h1)" "quiet w (get_pg t i)" "quiet w (get_page p h2)" "quiet w (get_info j h3)"
  "quiet w (get_desc r d h4)" "quiet w (upd_table t h5)" "quiet w (upd_pg t i h6)"
  "quiet w (upd_page p h7)" "quiet w (upd_info j h8)" "quiet w (set_desc r d h9)"
  by (auto simp: shifts_def weight_def get_table_def get_pg_def get_page_def get_info_def get_desc_def
      upd_table_def upd_pg_def upd_page_def upd_info_def set_desc_def split: if_splits)

section \<open>Runs that return\<close>

text \<open>
  \<open>succeeds A R N m V\<close>: when the kernel answers as \<open>A\<close>, the regions are \<open>R\<close> and \<^verbatim>\<open>MAX_NR_SG\<close> is \<open>N\<close>,
  \<open>m\<close> returns a value in \<open>V\<close> and keeps these three.  A result of a call is some answer of \<open>A\<close>.
\<close>

definition env_is :: "(kevent list \<Rightarrow> string \<Rightarrow> int list \<Rightarrow> int) \<Rightarrow> (addr \<Rightarrow> mig_region) \<Rightarrow> nat \<Rightarrow> kst \<Rightarrow> bool" where
  "env_is A R N s \<longleftrightarrow> answer s = A \<and> regs s = R \<and> max_nr_sg s = N"

definition succeeds ::
  "(kevent list \<Rightarrow> string \<Rightarrow> int list \<Rightarrow> int) \<Rightarrow> (addr \<Rightarrow> mig_region) \<Rightarrow> nat \<Rightarrow> 'a kern
     \<Rightarrow> ('a \<Rightarrow> kst \<Rightarrow> bool) \<Rightarrow> bool"
where
  "succeeds A R N m V \<longleftrightarrow>
     (\<forall>s. env_is A R N s \<longrightarrow> (\<exists>x s1. m s = Inr (x, s1) \<and> env_is A R N s1 \<and> V x s1))"

lemma succeedsD:
  assumes "succeeds A R N m V" and "env_is A R N s"
  obtains x s1 where "m s = Inr (x, s1)" "env_is A R N s1" "V x s1"
  using assms unfolding succeeds_def by blast

lemma succeeds_bindK:
  assumes "succeeds A R N m V" and "\<And>x s. V x s \<Longrightarrow> succeeds A R N (f x) W"
  shows "succeeds A R N (bindK m f) W"
  unfolding succeeds_def
proof (intro allI impI)
  fix s assume "env_is A R N s"
  then obtain x s1 where m: "m s = Inr (x, s1)" "env_is A R N s1" "V x s1" using succeedsD [OF assms(1)] by blast
  obtain y s2 where "f x s1 = Inr (y, s2)" "env_is A R N s2" "W y s2"
    using assms(2) [OF m(3)] m(2) by (rule succeedsD)
  then show "\<exists>y s2. bindK m f s = Inr (y, s2) \<and> env_is A R N s2 \<and> W y s2" using m(1) by simp
qed

lemma succeeds_seqK:
  assumes "succeeds A R N m (\<lambda>_ _. True)" and "succeeds A R N n W"
  shows "succeeds A R N (seqK m n) W"
  unfolding seqK_def by (rule succeeds_bindK [OF assms])

lemma succeeds_call_bind:
  assumes "\<And>h. succeeds A R N (f (A h c xs)) W"
  shows "succeeds A R N (bindK (call c xs) f) W"
  using assms by (auto simp: succeeds_def env_is_def call_run)

lemma succeeds_callb_bind:
  assumes "\<And>h. succeeds A R N (f (A h c xs \<noteq> 0)) W"
  shows "succeeds A R N (bindK (callb c xs) f) W"
  using assms by (auto simp: succeeds_def env_is_def callb_run)

lemma succeeds_exec_seq:
  assumes "succeeds A R N n W"
  shows "succeeds A R N (seqK (exec c xs) n) W"
  using assms by (auto simp: succeeds_def env_is_def exec_run)

lemma succeeds_get_desc_bind:
  assumes "succeeds A R N (f (h (desc_at (R r) d))) W"
  shows "succeeds A R N (bindK (get_desc r d h) f) W"
  using assms by (auto simp: succeeds_def env_is_def get_desc_def bindK_run)

lemma succeeds_max_bind:
  assumes "succeeds A R N (f N) W"
  shows "succeeds A R N (bindK (getK max_nr_sg) f) W"
  using assms by (auto simp: succeeds_def env_is_def bindK_run)

lemma succeeds_BUG_ON_seq:
  assumes "\<not> b" and "succeeds A R N n W"
  shows "succeeds A R N (seqK (BUG_ON b) n) W"
  using assms by (auto simp: succeeds_def seqK_run)

lemma succeeds_assertK_seq:
  assumes "b" and "succeeds A R N n W"
  shows "succeeds A R N (seqK (assertK b) n) W"
  using assms by (auto simp: succeeds_def seqK_run)

lemma succeeds_store_seq:
  assumes "succeeds A R N n W"
  shows "succeeds A R N (seqK (upd_table t f1) n) W" "succeeds A R N (seqK (upd_page p f2) n) W"
    "succeeds A R N (bindK (get_info j f3) (\<lambda>_. n)) W"
  using assms by (auto simp: succeeds_def env_is_def upd_table_def upd_page_def get_info_def seqK_run bindK_run)

lemma succeeds_upd_pg_seq:
  assumes "i < N" and "succeeds A R N n W"
  shows "succeeds A R N (seqK (upd_pg t i f) n) W"
  using assms by (auto simp: succeeds_def env_is_def upd_pg_def upd_table_def seqK_run)

lemma succeeds_get_info_bind:
  assumes "\<And>x. succeeds A R N (f x) W"
  shows "succeeds A R N (bindK (get_info j h) f) W"
  using assms by (auto simp: succeeds_def get_info_def bindK_run)

lemma succeeds_get_page_bind:
  assumes "\<And>x. succeeds A R N (f x) W"
  shows "succeeds A R N (bindK (get_page j h) f) W"
  using assms by (auto simp: succeeds_def get_page_def bindK_run)

lemma succeeds_ret: "(\<And>s. V x s) \<Longrightarrow> succeeds A R N (ret x) V"
  by (simp add: succeeds_def)

lemma succeeds_leaf:
  "succeeds A R N (exec c xs) (\<lambda>_ _. True)" "succeeds A R N (call c xs) (\<lambda>v _. \<exists>h. v = A h c xs)"
  "\<not> b \<Longrightarrow> succeeds A R N (BUG_ON b) (\<lambda>_ _. True)"
  by (auto simp: succeeds_def env_is_def call_runs)

lemma succeeds_weaken: "succeeds A R N m V \<Longrightarrow> (\<And>x s. V x s \<Longrightarrow> W x s) \<Longrightarrow> succeeds A R N m W"
  unfolding succeeds_def by blast

lemma succeeds_foldK:
  assumes "P [] b" and "\<And>ys x b. P ys b \<Longrightarrow> prefix (ys @ [x]) xs \<Longrightarrow> succeeds A R N (f b x) (\<lambda>b' _. P (ys @ [x]) b')"
  shows "succeeds A R N (foldK f b xs) (\<lambda>b' _. P xs b')"
proof -
  have "succeeds A R N (foldK f b zs) (\<lambda>b' _. P xs b')" if "xs = ys @ zs" "P ys b" for ys zs b
    using that
  proof (induction zs arbitrary: ys b)
    case Nil
    then show ?case unfolding foldK.simps by (intro succeeds_ret) simp
  next
    case (Cons z zs)
    have "succeeds A R N (f b z) (\<lambda>b' _. P (ys @ [z]) b')"
      using Cons.prems by (intro assms(2)) (auto simp: prefix_def)
    then show ?case
      using Cons.IH [of "ys @ [z]"] Cons.prems by (auto intro: succeeds_bindK)
  qed
  from this [of "[]" xs b] show ?thesis using assms(1) by simp
qed

lemmas succeeds_rules = succeeds_call_bind succeeds_callb_bind succeeds_exec_seq succeeds_get_desc_bind succeeds_max_bind
  succeeds_BUG_ON_seq succeeds_assertK_seq succeeds_store_seq(1,2) succeeds_upd_pg_seq succeeds_get_info_bind
  succeeds_get_page_bind succeeds_ret

end
