(* ===== verification/DrvIssue.thy ===== *)
theory DrvIssue
  imports Kernel
begin

text \<open>
  Submitting one descriptor to the DMA engine: \<^verbatim>\<open>install_new_pte\<close>, \<^verbatim>\<open>issue_one_desc_copy\<close>
  (replication) and \<^verbatim>\<open>issue_one_desc_mig\<close> (migration) of \<^verbatim>\<open>migrate-x86/migrate-x86.c\<close>, without the
  \<^verbatim>\<open>EMU_HUGETLB\<close> build.  A scatter list is the list of its elements; \<^verbatim>\<open>sg_next\<close> of the last of
  the \<open>count\<close> elements that \<^verbatim>\<open>sg_init_table\<close> laid out is \<^verbatim>\<open>NULL\<close>, so the cursor is null when the
  list has \<open>count\<close> elements.  \<^verbatim>\<open>rmap_walk\<close> calls its callback on the mappings of a page; which
  these are is an answer of the kernel.

  The lemmas: a submission leaves the queues alone and balances the \<^verbatim>\<open>mmap_sem\<close>; the scatter
  lists it hands to the engine are the pages of the two ranges, at their physical addresses
  and with the length of the page size asked for.
\<close>

section \<open>Scatter lists\<close>

record sg_ent =
  sg_page :: addr
  sg_len :: int
  dma_address :: int
  dma_length :: int

definition sg_args :: "sg_ent list \<Rightarrow> int list" where
  "sg_args es = concat (map (\<lambda>e. [sg_page e, sg_len e, dma_address e, dma_length e]) es)"

text \<open>\<^verbatim>\<open>IS_ERR\<close>: the top 4095 addresses.\<close>

definition IS_ERR :: "addr \<Rightarrow> bool" where
  "IS_ERR p \<longleftrightarrow> -4095 \<le> p \<and> p < 0"

text \<open>A kernel function that fills an array of \<open>n\<close> elements.\<close>

definition call_array :: "string \<Rightarrow> int list \<Rightarrow> nat \<Rightarrow> int list kern" where
  "call_array f xs n = (seqK (exec f xs) (
    foldK (\<lambda>l j. bindK (call (f @ ''[]'') (xs @ [int j])) (\<lambda>v. ret (l @ [v]))) [] [0..<n]))"

definition SWAP_AGAIN :: int where "SWAP_AGAIN = 1"

text \<open>The walk stops when the callback does not return \<^verbatim>\<open>SWAP_AGAIN\<close>.\<close>

fun rmap_visit :: "(addr \<Rightarrow> int \<Rightarrow> int kern) \<Rightarrow> addr \<Rightarrow> nat list \<Rightarrow> unit kern" where
  "rmap_visit cb p [] = ret ()"
| "rmap_visit cb p (i # is) = (bindK (call ''rmap_walk.vma'' [p, int i]) (\<lambda>vma.
  bindK (call ''rmap_walk.address'' [p, int i]) (\<lambda>address.
  bindK (cb vma address) (\<lambda>v.
  if v = SWAP_AGAIN then rmap_visit cb p is else ret ()))))"

definition rmap_walk :: "addr \<Rightarrow> (addr \<Rightarrow> int \<Rightarrow> int kern) \<Rightarrow> unit kern" where
  "rmap_walk p cb = (bindK (call ''rmap_walk'' [p]) (\<lambda>n.
    rmap_visit cb p [0..<nat n]))"

section \<open>Replacing the pte\<close>

text \<open>The pte slot and its lock: huge pages and ordinary ones; None is \<^verbatim>\<open>goto out\<close>.\<close>

definition locate_new_pte :: "addr \<Rightarrow> addr \<Rightarrow> addr \<Rightarrow> int \<Rightarrow> (addr \<times> addr) option kern" where
  "locate_new_pte new vma mm address = (bindK (callb ''PageHuge'' [new]) (\<lambda>huge.
    if huge then (bindK (call ''huge_pte_offset'' [mm, address]) (\<lambda>ptep.
       if ptep = 0 then ret None
       else (bindK (call ''hstate_vma'' [vma]) (\<lambda>hs.
         bindK (call ''huge_pte_lockptr'' [hs, mm, ptep]) (\<lambda>ptl.
         ret (Some (ptep, ptl)))))))
     else (bindK (call ''mm_find_pmd'' [mm, address]) (\<lambda>pmd.
       if pmd = 0 then ret None
       else (bindK (callb ''pmd_trans_huge'' [pmd]) (\<lambda>th.
         if th then ret None
         else (bindK (call ''pte_offset_map'' [pmd, address]) (\<lambda>ptep.
           bindK (call ''pte_lockptr'' [mm, pmd]) (\<lambda>ptl.
           ret (Some (ptep, ptl)))))))))))"

text \<open>The reverse mapping of the new page, shared with \<^verbatim>\<open>remove_migration_pte\<close>.\<close>

definition add_rmap :: "addr \<Rightarrow> addr \<Rightarrow> int \<Rightarrow> unit kern" where
  "add_rmap new vma address = (bindK (callb ''PageHuge'' [new]) (\<lambda>huge.
    if huge then (bindK (callb ''PageAnon'' [new]) (\<lambda>anon.
       if anon then exec ''hugepage_add_anon_rmap'' [new, vma, address]
       else exec ''page_dup_rmap'' [new]))
     else (bindK (callb ''PageAnon'' [new]) (\<lambda>anon.
       if anon then exec ''page_add_anon_rmap'' [new, vma, address]
       else exec ''page_add_file_rmap'' [new]))))"

definition install_new_pte :: "addr \<Rightarrow> nat \<Rightarrow> addr \<Rightarrow> addr \<Rightarrow> int \<Rightarrow> int kern" where
  "install_new_pte t i new vma address = (bindK (call ''vma->vm_mm'' [vma]) (\<lambda>mm.
    bindK (get_pg t i) (\<lambda>d.
    let old = page d in
    bindK (locate_new_pte new vma mm address) (\<lambda>loc.
    case loc of None \<Rightarrow> ret SWAP_AGAIN
     | Some (pp, ptl) \<Rightarrow> (seqK (exec ''spin_lock'' [ptl]) (
       bindK (call ''*ptep'' [pp]) (\<lambda>oldpte.
       seqK (exec ''get_page'' [new]) (
       bindK (call ''vma->vm_page_prot'' [vma]) (\<lambda>prot.
       bindK (call ''mk_pte'' [new, prot]) (\<lambda>v0.
       bindK (call ''pte_mkyoung'' [v0]) (\<lambda>v1.
       bindK (callb ''pte_write'' [oldpte]) (\<lambda>w.
       bindK (if w then call ''pte_mkwrite'' [v1] else ret v1) (\<lambda>v2.
       bindK (callb ''PageHuge'' [new]) (\<lambda>huge.
       bindK (if huge then bindK (call ''pte_mkhuge'' [v2])
                  (\<lambda>h. call ''arch_make_huge_pte'' [h, vma, new, 0]) else ret v2) (\<lambda>v3.
       seqK (exec ''flush_dcache_page'' [new]) (
       seqK (exec ''set_pte_at'' [mm, address, pp, v3]) (
       seqK (upd_pg t i (\<lambda>d. d\<lparr>ptep := pp\<rparr>)) (
       bindK (call ''*ptep'' [pp]) (\<lambda>now.
       seqK (upd_pg t i (\<lambda>d. d\<lparr>pte := now\<rparr>)) (
       seqK (add_rmap new vma address) (
       seqK (exec ''update_mmu_cache'' [vma, address, pp]) (
       seqK (exec ''page_remove_rmap'' [old]) (
       seqK (exec ''put_page'' [old]) (
       seqK (exec ''pte_unmap_unlock'' [pp, ptl]) (
       ret SWAP_AGAIN)))))))))))))))))))))))))"

section \<open>Checks and table set-up\<close>

text \<open>The range must lie in a migratable vma.\<close>

definition check_vma :: "addr \<Rightarrow> int \<Rightarrow> unit kern" where
  "check_vma vma paddr =
     (if vma = 0 then failK Bug else (bindK (call ''vma->vm_start'' [vma]) (\<lambda>st.
       if paddr < st then failK Bug
        else (bindK (callb ''vma_migratable'' [vma]) (\<lambda>ok.
          BUG_ON (\<not> ok))))))"

definition alloc_table :: "addr kern" where
  "alloc_table = (bindK (call ''sizeof(struct mig_table)'' []) (\<lambda>sz.
    seqK (BUG_ON (2 ^ nat MIGTABLE_PAGE_ORDER * PAGE_SIZE \<le> sz)) (
    bindK (call ''__get_free_pages'' [MIGTABLE_PAGE_ORDER]) (\<lambda>t.
    seqK (assertK (t \<noteq> 0)) (
    ret t)))))"

definition page_count_of :: "mig_desc \<Rightarrow> nat" where
  "page_count_of d = 2 ^ unat (order d)"

text \<open>The two scatter tables, \<^verbatim>\<open>sg_src\<close> and \<^verbatim>\<open>sg_dst\<close>, of \<open>count\<close> elements.\<close>

definition alloc_sg :: "nat \<Rightarrow> (addr \<times> addr) kern" where
  "alloc_sg count = (bindK (getK max_nr_sg) (\<lambda>maxsg.
    seqK (BUG_ON (maxsg < count)) (
    bindK (call ''kmalloc'' [int count]) (\<lambda>sg_src.
    bindK (call ''kmalloc'' [int count]) (\<lambda>sg_dst.
    seqK (assertK (sg_src \<noteq> 0 \<and> sg_dst \<noteq> 0)) (
    seqK (exec ''sg_init_table'' [sg_dst, int count]) (
    seqK (exec ''sg_init_table'' [sg_src, int count]) (
    ret (sg_src, sg_dst)))))))))"

text \<open>One element on each list; the destination's \<^verbatim>\<open>dma_length\<close> is left at zero.\<close>

definition sg_add ::
  "bool \<Rightarrow> nat \<Rightarrow> addr \<Rightarrow> addr \<Rightarrow> sg_ent list \<times> sg_ent list \<Rightarrow> (sg_ent list \<times> sg_ent list) kern" where
  "sg_add huge count op np = (\<lambda>(src, dst). (seqK (BUG_ON (count \<le> length src \<or> count \<le> length dst)) (
    let len = (if huge then HUGE_PAGE_SIZE else PAGE_SIZE) in
    bindK (call ''page_to_phys'' [op]) (\<lambda>sa.
    bindK (call ''page_to_phys'' [np]) (\<lambda>da.
    ret (src @ [\<lparr>sg_page = op, sg_len = len, dma_address = sa,
                  dma_length = (if huge then 2 * 1024 * 1024 else 4096)\<rparr>],
          dst @ [\<lparr>sg_page = np, sg_len = len, dma_address = da, dma_length = 0\<rparr>]))))))"

text \<open>Fill in the table and hand the transfer to the engine (the same code in both functions).\<close>

definition submit_sg ::
  "issue_func \<Rightarrow> addr \<Rightarrow> addr \<Rightarrow> desc_p \<Rightarrow> bool \<Rightarrow> addr \<Rightarrow> nat \<Rightarrow> addr \<Rightarrow> addr
     \<Rightarrow> sg_ent list \<times> sg_ent list \<Rightarrow> addr kern" where
  "submit_sg func t r desc do_irq mm count sg_src sg_dst = (\<lambda>(src, dst). (seqK (upd_table t (\<lambda>T. T\<lparr>t_region := r, t_mm := mm, num_mig_descs := 1, num_pages := int count,
       migdesc := Some desc, issue_one_desc_func := func\<rparr>)) (
    bindK (call ''smp_processor_id'' []) (\<lambda>cpu.
    seqK (upd_table t (\<lambda>T. T\<lparr>user_cpu := cpu\<rparr>)) (
    seqK (BUG_ON (src = [] \<or> dst = [])) (
    seqK (exec ''sg_mark_end'' [sg_src, int (length src) - 1]) (
    seqK (exec ''sg_mark_end'' [sg_dst, int (length dst) - 1]) (
    seqK (upd_pg t count (\<lambda>d. d\<lparr>page := 0\<rparr>)) (
    bindK (get_info (region_to_mmap_info r) i_chan) (\<lambda>chan.
    bindK (call ''device_prep_dma_sg''
        (chan # int count # int count # of_bool do_irq # sg_args dst @ sg_args src)) (\<lambda>tx.
    seqK (BUG_ON (tx = 0)) (
    seqK (whenK do_irq (exec ''tx->callback = dma_callback_kthread'' [tx, t])) (
    seqK (exec ''dmaengine_submit'' [tx]) (
    seqK (exec ''dma_async_issue_pending'' [chan]) (
    seqK (exec ''kfree'' [sg_dst]) (
    seqK (exec ''kfree'' [sg_src]) (
    ret t)))))))))))))))))"

section \<open>Replication\<close>

definition issue_copy_page ::
  "bool \<Rightarrow> nat \<Rightarrow> int list \<Rightarrow> int list \<Rightarrow> sg_ent list \<times> sg_ent list \<Rightarrow> nat
     \<Rightarrow> (sg_ent list \<times> sg_ent list) kern" where
  "issue_copy_page huge count opage npage sgl j = (seqK (BUG_ON (IS_ERR (opage ! j))) (
    seqK (BUG_ON (opage ! j = 0)) (
    bindK (call ''page_mapcount'' [opage ! j]) (\<lambda>mo.
    seqK (BUG_ON (1 < mo)) (
    seqK (BUG_ON (IS_ERR (npage ! j))) (
    seqK (BUG_ON (npage ! j = 0)) (
    bindK (call ''page_mapcount'' [npage ! j]) (\<lambda>mn.
    seqK (BUG_ON (1 < mn)) (
    sg_add huge count (opage ! j) (npage ! j) sgl)))))))))"

definition follow_range :: "bool \<Rightarrow> string \<Rightarrow> addr \<Rightarrow> int \<Rightarrow> nat \<Rightarrow> int list kern" where
  "follow_range huge flags vma paddr count =
     call_array ((if huge then ''follow_huge_page_range'' else ''follow_page_range'') @ flags)
       [vma, paddr, int count] count"

text \<open>Everything up to the table set-up: the table, the number of pages, the two scatter lists.\<close>

definition collect_copy :: "addr \<Rightarrow> desc_p \<Rightarrow> addr \<Rightarrow> (addr \<times> nat \<times> addr \<times> addr \<times> sg_ent list \<times> sg_ent list) kern" where
  "collect_copy r desc mm = (bindK alloc_table (\<lambda>t.
    bindK (get_desc r desc page_count_of) (\<lambda>count.
    bindK (alloc_sg count) (\<lambda>(sg_src, sg_dst).
    bindK (get_desc r desc (\<lambda>d. uint (base_to_virt (virt_base d)))) (\<lambda>paddr.
    bindK (get_desc r desc (\<lambda>d. uint (base_to_virt (virt_base_dest d)))) (\<lambda>paddr1.
    seqK (exec ''down_read'' [mm]) (
    bindK (call ''find_vma'' [mm, paddr]) (\<lambda>vma.
    bindK (call ''find_vma'' [mm, paddr1]) (\<lambda>vma1.
    seqK (check_vma vma paddr) (
    seqK (check_vma vma1 paddr1) (
    bindK (call ''kmalloc'' [int count]) (\<lambda>oa.
    bindK (call ''kmalloc'' [int count]) (\<lambda>na.
    seqK (BUG_ON (oa = 0 \<or> na = 0)) (
    bindK (get_desc r desc (\<lambda>d. huge_page d \<noteq> 0)) (\<lambda>huge.
    bindK (follow_range huge '' FOLL_SPLIT'' vma paddr count) (\<lambda>opage.
    bindK (follow_range huge '' FOLL_SPLIT'' vma1 paddr1 count) (\<lambda>npage.
    seqK (exec ''up_read'' [mm]) (
    bindK (foldK (issue_copy_page huge count opage npage) ([], []) [0..<count]) (\<lambda>sgl.
    seqK (exec ''kfree'' [oa]) (
    seqK (exec ''kfree'' [na]) (
    ret (t, count, sg_src, sg_dst, sgl))))))))))))))))))))))"

definition issue_one_desc_copy :: "addr \<Rightarrow> desc_p \<Rightarrow> bool \<Rightarrow> addr \<Rightarrow> addr kern" where
  "issue_one_desc_copy r desc do_irq mm = (bindK (collect_copy r desc mm) (\<lambda>(t, count, sg_src, sg_dst, sgl).
    submit_sg Issue_copy t r desc do_irq mm count sg_src sg_dst sgl))"

section \<open>Migration\<close>

text \<open>Taking the old page off the LRU; the extra reference of \<^verbatim>\<open>FOLL_GET\<close> is dropped.\<close>

definition mig_isolate :: "addr \<Rightarrow> bool \<Rightarrow> addr \<Rightarrow> unit kern" where
  "mig_isolate t huge p = (seqK (BUG_ON (IS_ERR p)) (
    seqK (BUG_ON (p = 0)) (
    bindK (call ''page_mapcount'' [p]) (\<lambda>mc.
    seqK (BUG_ON (1 < mc)) (
    seqK (if \<not> huge then (bindK (call ''isolate_lru_page'' [p]) (\<lambda>err.
       seqK (BUG_ON (err \<noteq> 0)) (
       seqK (upd_table t (\<lambda>T. T\<lparr>pagelist := pagelist T @ [p]\<rparr>)) (
       bindK (call ''page_is_file_cache'' [p]) (\<lambda>fc.
       exec ''inc_zone_page_state NR_ISOLATED_ANON'' [p, fc])))))
     else (bindK (callb ''PageHead'' [p]) (\<lambda>hd.
       whenK hd (exec ''isolate_huge_page'' [p, t])))) (
    exec ''put_page'' [p]))))))"

definition mig_new_page :: "addr \<Rightarrow> desc_p \<Rightarrow> bool \<Rightarrow> addr \<Rightarrow> addr kern" where
  "mig_new_page r desc huge p = (bindK (get_desc r desc (\<lambda>d. uint (node d))) (\<lambda>nd.
    seqK (BUG_ON (\<not> (nd = 0 \<or> nd = 1))) (
    bindK (if \<not> huge then call ''alloc_pages_exact_node'' [nd, 0]
            else (bindK (call ''compound_head'' [p]) (\<lambda>hp.
              bindK (call ''page_hstate'' [hp]) (\<lambda>h.
              bindK (call ''alloc_huge_page_node'' [h, 1]) (\<lambda>np.
              seqK (BUG_ON (np = 0)) (
              ret np)))))) (\<lambda>np.
    seqK (BUG_ON (IS_ERR np)) (
    seqK (BUG_ON (np = 0)) (
    bindK (call ''page_mapcount'' [np]) (\<lambda>mc.
    seqK (BUG_ON (1 < mc)) (
    if \<not> huge then (bindK (callb ''PageTransHuge'' [np]) (\<lambda>th.
       seqK (BUG_ON th) (
       ret np)))
     else ret np))))))))"

text \<open>Lock both pages, prepare the new one and switch the ptes of the old one to it.\<close>

definition mig_switch :: "addr \<Rightarrow> nat \<Rightarrow> addr \<Rightarrow> addr \<Rightarrow> unit kern" where
  "mig_switch t j p np = (bindK (callb ''trylock_page'' [p]) (\<lambda>l.
    seqK (BUG_ON (\<not> l)) (
    bindK (callb ''PageAnon'' [p]) (\<lambda>an.
    bindK (if an then callb ''PageKsm'' [p] else ret False) (\<lambda>ksm.
    bindK (if an \<and> \<not> ksm then (bindK (call ''page_get_anon_vma'' [p]) (\<lambda>av.
       seqK (BUG_ON (av = 0)) (
       ret av)))
            else ret 0) (\<lambda>av.
    bindK (callb ''balloon_page_movable'' [p]) (\<lambda>bl.
    seqK (BUG_ON bl) (
    bindK (get_page p pg_mapping) (\<lambda>mapping.
    seqK (BUG_ON (mapping = 0)) (
    bindK (callb ''trylock_page'' [np]) (\<lambda>ln.
    seqK (BUG_ON (\<not> ln)) (
    bindK (get_page p pg_index) (\<lambda>idx.
    seqK (upd_page np (\<lambda>P. P\<lparr>pg_index := idx, pg_mapping := mapping\<rparr>)) (
    bindK (callb ''PageSwapBacked'' [p]) (\<lambda>sb.
    seqK (whenK sb (exec ''SetPageSwapBacked'' [np])) (
    bindK (callb ''PageWriteback'' [p]) (\<lambda>wb.
    seqK (BUG_ON wb) (
    seqK (upd_pg t j (\<lambda>d. d\<lparr>page := p\<rparr>)) (
    seqK (upd_pg t j (\<lambda>d. d\<lparr>newpage := np\<rparr>)) (
    seqK (rmap_walk np (install_new_pte t j np)) (
    seqK (whenK (av \<noteq> 0) (exec ''put_anon_vma'' [av])) (
    upd_pg t j (\<lambda>d. d\<lparr>status := 0\<rparr>)))))))))))))))))))))))"

definition issue_mig_page ::
  "addr \<Rightarrow> addr \<Rightarrow> desc_p \<Rightarrow> bool \<Rightarrow> nat \<Rightarrow> int list \<Rightarrow> sg_ent list \<times> sg_ent list \<Rightarrow> nat
     \<Rightarrow> (sg_ent list \<times> sg_ent list) kern" where
  "issue_mig_page t r desc huge count opage sgl j = (seqK (mig_isolate t huge (opage ! j)) (
    bindK (mig_new_page r desc huge (opage ! j)) (\<lambda>np.
    seqK (mig_switch t j (opage ! j) np) (
    sg_add huge count (opage ! j) np sgl))))"

definition collect_mig :: "addr \<Rightarrow> desc_p \<Rightarrow> addr \<Rightarrow> (addr \<times> nat \<times> addr \<times> addr \<times> sg_ent list \<times> sg_ent list) kern" where
  "collect_mig r desc mm = (bindK (get_desc r desc (\<lambda>d. huge_page d \<noteq> 0)) (\<lambda>huge.
    seqK (modK (\<lambda>s. s\<lparr>g_huge_page := (if huge_page (desc_at (regs s r) desc) = 1 then 1 else 0)\<rparr>)) (
    bindK alloc_table (\<lambda>t.
    seqK (upd_table t (\<lambda>T. T\<lparr>pagelist := []\<rparr>)) (
    bindK (get_desc r desc page_count_of) (\<lambda>count.
    bindK (alloc_sg count) (\<lambda>(sg_src, sg_dst).
    bindK (get_desc r desc (\<lambda>d. uint (base_to_virt (virt_base d)))) (\<lambda>paddr.
    seqK (exec ''down_read'' [mm]) (
    bindK (call ''find_vma'' [mm, paddr]) (\<lambda>vma.
    seqK (check_vma vma paddr) (
    bindK (call ''kmalloc'' [int count]) (\<lambda>oa.
    seqK (BUG_ON (oa = 0)) (
    bindK (follow_range huge '' FOLL_SPLIT|FOLL_GET'' vma paddr count) (\<lambda>opage.
    bindK (foldK (issue_mig_page t r desc huge count opage) ([], []) [0..<count]) (\<lambda>sgl.
    seqK (exec ''up_read'' [mm]) (
    seqK (exec ''kfree'' [oa]) (
    ret (t, count, sg_src, sg_dst, sgl))))))))))))))))))"

definition issue_one_desc_mig :: "addr \<Rightarrow> desc_p \<Rightarrow> bool \<Rightarrow> addr \<Rightarrow> addr kern" where
  "issue_one_desc_mig r desc do_irq mm = (bindK (collect_mig r desc mm) (\<lambda>(t, count, sg_src, sg_dst, sgl).
    submit_sg Issue_mig t r desc do_irq mm count sg_src sg_dst sgl))"

text \<open>The call through \<^verbatim>\<open>issue_one_desc_func\<close>: a null or a stale pointer is not code to run.\<close>

definition issue_one_desc :: "issue_func \<Rightarrow> addr \<Rightarrow> desc_p \<Rightarrow> bool \<Rightarrow> addr \<Rightarrow> addr kern" where
  "issue_one_desc f r desc do_irq mm = (case f of
     Issue_copy \<Rightarrow> issue_one_desc_copy r desc do_irq mm
   | Issue_mig \<Rightarrow> issue_one_desc_mig r desc do_irq mm
   | _ \<Rightarrow> failK Bad_access)"

section \<open>Submission and the queues\<close>

lemma keeps_rmap_walk [simp]:
  assumes "\<And>v a. keeps g (cb v a)" and "\<And>f xs. keeps g (call f xs)"
  shows "keeps g (rmap_walk p cb)"
proof -
  have "keeps g (rmap_visit cb p is)" for "is"
    using assms by (induction "is") simp_all
  then show ?thesis using assms by (simp add: rmap_walk_def)
qed

lemma keeps_call_array [simp]:
  assumes "\<And>f xs. keeps g (call f xs)"
  shows "keeps g (call_array f xs n)"
  using assms by (simp add: call_array_def exec_def)

lemma keeps_qview_issue_parts [simp]:
  "keeps qview alloc_table" "keeps qview (alloc_sg n)" "keeps qview (check_vma v a)"
  "keeps qview (sg_add h n p q sgl)" "keeps qview (submit_sg fn t r d irq mm n s1 s2 sgl)"
  "keeps qview (follow_range h fl v a n)" "keeps qview (locate_new_pte np v mm a)"
  "keeps qview (add_rmap np v a)"
  by (cases sgl; simp add: alloc_table_def alloc_sg_def check_vma_def sg_add_def submit_sg_def
      follow_range_def locate_new_pte_def add_rmap_def)+

lemma keeps_qview_install [simp]: "keeps qview (install_new_pte t i np v a)"
  by (simp add: install_new_pte_def)

lemma keeps_qview_mig_parts [simp]:
  "keeps qview (mig_isolate t h p)" "keeps qview (mig_new_page r d h p)" "keeps qview (mig_switch t j p np)"
  by (simp_all add: mig_isolate_def mig_new_page_def mig_switch_def)

lemma keeps_qview_collect [simp]: "keeps qview (collect_copy r d mm)" "keeps qview (collect_mig r d mm)"
  by (simp_all add: collect_copy_def collect_mig_def issue_copy_page_def issue_mig_page_def keeps_modK qview_def)

lemma keeps_qview_copy [simp]: "keeps qview (issue_one_desc_copy r d irq mm)"
  by (simp add: issue_one_desc_copy_def)

lemma keeps_qview_mig [simp]: "keeps qview (issue_one_desc_mig r d irq mm)"
  by (simp add: issue_one_desc_mig_def)

lemma keeps_qview_issue [simp]: "keeps qview (issue_one_desc f r d irq mm)"
  by (cases f) (simp_all add: issue_one_desc_def)

section \<open>Locks\<close>

text \<open>\<^verbatim>\<open>mmap_sem\<close> for reading: the number of times it is taken less the times it is released.\<close>

definition sem_w :: "addr \<Rightarrow> kevent \<Rightarrow> int" where
  "sem_w mm = (\<lambda>(f, xs, v). if f = ''down_read'' \<and> xs = [mm] then 1
     else if f = ''up_read'' \<and> xs = [mm] then -1 else 0)"

lemma sem_w_simps [simp]:
  "sem_w mm (''down_read'', [mm], v) = 1" "sem_w mm (''up_read'', [mm], v) = -1"
  "f \<noteq> ''down_read'' \<Longrightarrow> f \<noteq> ''up_read'' \<Longrightarrow> sem_w mm (f, xs, v) = 0"
  by (simp_all add: sem_w_def)

lemma quiet_rmap_walk [simp]:
  assumes "\<And>v a. quiet w (cb v a)" and "\<And>v xs. w (''rmap_walk'', xs, v) = 0"
    and "\<And>v xs. w (''rmap_walk.vma'', xs, v) = 0" and "\<And>v xs. w (''rmap_walk.address'', xs, v) = 0"
  shows "quiet w (rmap_walk p cb)"
proof -
  have "quiet w (rmap_visit cb p is)" for "is"
    using assms by (induction "is") simp_all
  then show ?thesis using assms by (simp add: rmap_walk_def)
qed

lemma quiet_sem_parts [simp]:
  "quiet (sem_w m) alloc_table" "quiet (sem_w m) (alloc_sg n)" "quiet (sem_w m) (check_vma v a)"
  "quiet (sem_w m) (sg_add h n p q sgl)" "quiet (sem_w m) (submit_sg fn t r d irq mm n s1 s2 sgl)"
  "quiet (sem_w m) (follow_range h fl v a n)" "quiet (sem_w m) (locate_new_pte np v mm a)"
  "quiet (sem_w m) (add_rmap np v a)"
  by (cases sgl; simp add: alloc_table_def alloc_sg_def check_vma_def sg_add_def submit_sg_def
      follow_range_def locate_new_pte_def add_rmap_def call_array_def Let_def)+

lemma quiet_sem_mig_parts [simp]:
  "quiet (sem_w m) (install_new_pte t i np v a)" "quiet (sem_w m) (mig_isolate t h p)"
  "quiet (sem_w m) (mig_new_page r d h p)" "quiet (sem_w m) (issue_copy_page h n op npg sgl j)"
  by (simp_all add: install_new_pte_def mig_isolate_def mig_new_page_def issue_copy_page_def Let_def)

lemma quiet_sem_switch [simp]: "quiet (sem_w m) (mig_switch t j p np)"
  by (simp add: mig_switch_def)

lemma collect_sem [simp]: "quiet (sem_w mm) (collect_copy r d mm)" "quiet (sem_w mm) (collect_mig r d mm)"
  by (simp_all add: collect_copy_def collect_mig_def issue_mig_page_def)

lemma issue_copy_sem [simp]: "quiet (sem_w mm) (issue_one_desc_copy r d irq mm)"
  by (simp add: issue_one_desc_copy_def)

lemma issue_mig_sem [simp]: "quiet (sem_w mm) (issue_one_desc_mig r d irq mm)"
  by (simp add: issue_one_desc_mig_def)

section \<open>What is transferred\<close>

text \<open>
  What the lists of a submission need of the kernel: memory, both ranges mapped and migratable, pages that
  are present and not shared.  \<open>pt huge a\<close> is the page that the process has at virtual address \<open>a\<close>, \<open>phys\<close>
  its physical address.  A whole submission needs an engine that accepts the transfer, too.
\<close>

definition kernel_collects ::
  "(kevent list \<Rightarrow> string \<Rightarrow> int list \<Rightarrow> int) \<Rightarrow> (bool \<Rightarrow> int \<Rightarrow> addr) \<Rightarrow> (addr \<Rightarrow> int) \<Rightarrow> bool" where
  "kernel_collects A pt phys \<longleftrightarrow>
     (\<forall>h. A h ''sizeof(struct mig_table)'' [] < 65536)
     \<and> (\<forall>h xs. A h ''__get_free_pages'' xs \<noteq> 0) \<and> (\<forall>h xs. A h ''kmalloc'' xs \<noteq> 0)
     \<and> (\<forall>h xs. A h ''find_vma'' xs \<noteq> 0)
     \<and> (\<forall>h g mm a. A h ''vma->vm_start'' [A g ''find_vma'' [mm, a]] \<le> a)
     \<and> (\<forall>h xs. A h ''vma_migratable'' xs \<noteq> 0)
     \<and> (\<forall>h v a n j. A h ''follow_page_range FOLL_SPLIT[]'' [v, a, n, j] = pt False (a + j * PAGE_SIZE))
     \<and> (\<forall>h v a n j. A h ''follow_huge_page_range FOLL_SPLIT[]'' [v, a, n, j] = pt True (a + j * HUGE_PAGE_SIZE))
     \<and> (\<forall>b a. 0 < pt b a) \<and> (\<forall>h xs. A h ''page_mapcount'' xs \<le> 1)
     \<and> (\<forall>h p. A h ''page_to_phys'' [p] = phys p)"

definition kernel_copies ::
  "(kevent list \<Rightarrow> string \<Rightarrow> int list \<Rightarrow> int) \<Rightarrow> (bool \<Rightarrow> int \<Rightarrow> addr) \<Rightarrow> (addr \<Rightarrow> int) \<Rightarrow> bool" where
  "kernel_copies A pt phys \<longleftrightarrow> kernel_collects A pt phys \<and> (\<forall>h xs. A h ''device_prep_dma_sg'' xs \<noteq> 0)"

lemma kernel_collectsD:
  assumes "kernel_collects A pt phys"
  shows "\<not> 65536 \<le> A h ''sizeof(struct mig_table)'' []" "A h ''__get_free_pages'' xs \<noteq> 0"
    "A h ''kmalloc'' xs \<noteq> 0" "A h ''find_vma'' xs \<noteq> 0"
    "\<not> a < A h ''vma->vm_start'' [A g ''find_vma'' [mm, a]]" "A h ''vma_migratable'' xs \<noteq> 0"
    "\<not> IS_ERR (pt b a)" "pt b a \<noteq> 0" "\<not> 1 < A h ''page_mapcount'' xs"
    "A h ''page_to_phys'' [p] = phys p"
    "A h ''follow_page_range FOLL_SPLIT[]'' [v, a, n, j] = pt False (a + j * PAGE_SIZE)"
    "A h ''follow_huge_page_range FOLL_SPLIT[]'' [v, a, n, j] = pt True (a + j * HUGE_PAGE_SIZE)"
proof -
  have "0 < pt b a" using assms by (simp add: kernel_collects_def)
  then show "\<not> IS_ERR (pt b a)" "pt b a \<noteq> 0" by (simp_all add: IS_ERR_def)
qed (use assms in \<open>auto simp: kernel_collects_def not_le not_less\<close>)

lemma kernel_copiesD:
  assumes "kernel_copies A pt phys"
  shows "kernel_collects A pt phys" "A h ''__get_free_pages'' xs \<noteq> 0" "A h ''device_prep_dma_sg'' xs \<noteq> 0"
  using assms kernel_collectsD(2) by (auto simp: kernel_copies_def)

definition page_bytes :: "bool \<Rightarrow> int" where
  "page_bytes huge = (if huge then HUGE_PAGE_SIZE else PAGE_SIZE)"

text \<open>The scatter lists for \<open>n\<close> pages from virtual address \<open>a\<close>.\<close>

definition range_sg :: "(bool \<Rightarrow> int \<Rightarrow> addr) \<Rightarrow> (addr \<Rightarrow> int) \<Rightarrow> bool \<Rightarrow> bool \<Rightarrow> int \<Rightarrow> nat \<Rightarrow> sg_ent list" where
  "range_sg pt phys src huge a n = map (\<lambda>j. let p = pt huge (a + int j * page_bytes huge) in
     \<lparr>sg_page = p, sg_len = page_bytes huge, dma_address = phys p,
      dma_length = (if src then page_bytes huge else 0)\<rparr>) [0..<n]"

lemma succeeds_follow:
  assumes "kernel_collects A pt phys"
  shows "succeeds A R N (follow_range huge '' FOLL_SPLIT'' v a n)
    (\<lambda>l _. l = map (\<lambda>j. pt huge (a + int j * page_bytes huge)) [0..<n])"
proof -
  let ?nm = "if huge then ''follow_huge_page_range'' else ''follow_page_range''"
  let ?P = "\<lambda>ys l. l = map (\<lambda>j. pt huge (a + int j * page_bytes huge)) ys"
  have 1: "succeeds A R N (bindK (call ((?nm @ '' FOLL_SPLIT'') @ ''[]'') ([v, a, int n] @ [int j]))
      (\<lambda>x. ret (l @ [x]))) (\<lambda>l' _. ?P (ys @ [j]) l')" if "?P ys l" for ys l j
    using that assms
    by (intro succeeds_call_bind succeeds_ret) (simp add: kernel_collects_def page_bytes_def)
  have "succeeds A R N (foldK (\<lambda>l j. bindK (call ((?nm @ '' FOLL_SPLIT'') @ ''[]'') ([v, a, int n] @ [int j]))
      (\<lambda>x. ret (l @ [x]))) [] [0..<n]) (\<lambda>l _. ?P [0..<n] l)"
    by (rule succeeds_foldK) (simp, rule 1, simp)
  then show ?thesis
    unfolding follow_range_def call_array_def by (intro succeeds_exec_seq)
qed

lemma prefix_upt:
  assumes "prefix (ys @ [j]) [0..<n]"
  shows "ys = [0..<length ys] \<and> j = length ys \<and> length ys < n"
proof -
  obtain zs where "[0..<n] = (ys @ [j]) @ zs" using assms by (auto simp: prefix_def)
  then have eq: "take (Suc (length ys)) [0..<n] = ys @ [j]" and ln: "length ys < n"
    by (metis append_eq_conv_conj length_append_singleton,
        metis add_Suc add_Suc_right diff_zero length_Cons length_append length_upt less_add_Suc1 append_assoc append_Cons append_Nil)
  then show ?thesis by (auto simp: take_Suc_conv_app_nth)
qed

lemma succeeds_copy_pages:
  assumes "kernel_collects A pt phys"
  shows "succeeds A R N
    (foldK (issue_copy_page huge n (map (\<lambda>j. pt huge (a + int j * page_bytes huge)) [0..<n])
       (map (\<lambda>j. pt huge (b + int j * page_bytes huge)) [0..<n])) ([], []) [0..<n])
    (\<lambda>sgl _. sgl = (range_sg pt phys True huge a n, range_sg pt phys False huge b n))"
proof -
  let ?o = "map (\<lambda>j. pt huge (a + int j * page_bytes huge)) [0..<n]"
  let ?n = "map (\<lambda>j. pt huge (b + int j * page_bytes huge)) [0..<n]"
  let ?P = "\<lambda>ys sgl. ys = [0..<length ys] \<longrightarrow> sgl = (range_sg pt phys True huge a (length ys), range_sg pt phys False huge b (length ys))"
  have 1: "succeeds A R N (issue_copy_page huge n ?o ?n sgl j) (\<lambda>s' _. ?P (ys @ [j]) s')"
    if P: "?P ys sgl" and pre: "prefix (ys @ [j]) [0..<n]" for ys sgl j
  proof -
    have ys: "ys = [0..<length ys]" and j: "j = length ys" and ln: "length ys < n"
      using prefix_upt [OF pre] by simp_all
    have sgl: "sgl = (range_sg pt phys True huge a (length ys), range_sg pt phys False huge b (length ys))"
      using P ys by simp
    show ?thesis
      using ln j ys
      unfolding issue_copy_page_def sgl sg_add_def prod.case Let_def
      by (intro succeeds_rules)
         (auto simp: kernel_collectsD [OF assms] range_sg_def page_bytes_def Let_def PAGE_SIZE_def HUGE_PAGE_SIZE_def)
  qed
  have "succeeds A R N (foldK (issue_copy_page huge n ?o ?n) ([], []) [0..<n]) (\<lambda>s' _. ?P [0..<n] s')"
    by (rule succeeds_foldK) (simp add: range_sg_def, rule 1)
  then show ?thesis by simp
qed


lemma submit_sg_run:
  assumes "answer s = A" and "\<And>h xs. A h ''device_prep_dma_sg'' xs \<noteq> 0"
    and "src \<noteq> []" and "dst \<noteq> []" and "count < max_nr_sg s"
  shows "\<exists>s1. submit_sg fn t r d irq mm count sa da (src, dst) s = Inr (t, s1)
    \<and> answer s1 = A \<and> regs s1 = regs s \<and> max_nr_sg s1 = max_nr_sg s
    \<and> issue_one_desc_func (tables s1 t) = fn \<and> num_pages (tables s1 t) = int count
    \<and> migdesc (tables s1 t) = Some d \<and> t_region (tables s1 t) = r \<and> t_mm (tables s1 t) = mm
    \<and> (\<exists>tx. (''device_prep_dma_sg'', i_chan (infos s (region_to_mmap_info r)) # int count # int count
          # of_bool irq # sg_args dst @ sg_args src, tx) \<in> set (hist s1))
    \<and> (irq \<longrightarrow> (\<exists>tx v. (''tx->callback = dma_callback_kthread'', [tx, t], v) \<in> set (hist s1)))"
  using assms
  by (cases irq)
    (auto simp: submit_sg_def seqK_run bindK_run call_runs upd_table_def upd_pg_def get_info_def whenK_def Let_def)

lemma succeeds_check_vma:
  assumes "kernel_collects A pt phys"
  shows "succeeds A R N (check_vma (A h ''find_vma'' [mm, a]) a) (\<lambda>_ _. True)"
proof -
  show ?thesis
    unfolding check_vma_def by (auto simp: kernel_collectsD [OF assms] intro!: succeeds_rules succeeds_leaf)
qed

lemma succeeds_alloc:
  assumes "kernel_collects A pt phys"
  shows "succeeds A R N alloc_table (\<lambda>_ _. True)"
    and "n \<le> N \<Longrightarrow> succeeds A R N (alloc_sg n) (\<lambda>_ _. True)"
  unfolding alloc_table_def alloc_sg_def MIGTABLE_PAGE_ORDER_def PAGE_SIZE_def
  by (auto simp: kernel_collectsD [OF assms] intro!: succeeds_rules succeeds_leaf)

lemma page_count_of_bounds: "0 < page_count_of d" "page_count_of d \<le> 128"
proof -
  have "unat (order d) < 2 ^ 3" unfolding order_def by (rule bf_get_less) simp
  then have "unat (order d) \<le> 7" by simp
  then have "(2::nat) ^ unat (order d) \<le> 2 ^ 7" by (rule power_increasing) simp
  then show "page_count_of d \<le> 128" by (simp add: page_count_of_def)
qed (simp add: page_count_of_def)

lemma succeeds_collect_copy:
  assumes K: "kernel_collects A pt phys" and n: "page_count_of (desc_at (R r) d) < N"
  defines "D \<equiv> desc_at (R r) d"
  shows "succeeds A R N (collect_copy r d mm)
    (\<lambda>(t, count, sa, da, sgl) _. count = page_count_of D
      \<and> sgl = (range_sg pt phys True (huge_page D \<noteq> 0) (uint (base_to_virt (virt_base D))) (page_count_of D),
         range_sg pt phys False (huge_page D \<noteq> 0) (uint (base_to_virt (virt_base_dest D))) (page_count_of D)))"
proof -
  have kp: "\<And>h xs. A h ''kmalloc'' xs \<noteq> 0" using K by (auto simp: kernel_collects_def)
  show ?thesis
    unfolding collect_copy_def Let_def
    apply (rule succeeds_bindK [OF succeeds_alloc(1) [OF K]])
    apply (rule succeeds_get_desc_bind)
    apply (rule succeeds_bindK [OF succeeds_alloc(2) [OF K]])
    using n apply simp
    apply (clarsimp simp only: prod.case split_paired_all)
    apply (rule succeeds_get_desc_bind)+
    apply (rule succeeds_exec_seq)
    apply (rule succeeds_call_bind)+
    apply (rule succeeds_seqK [OF succeeds_check_vma [OF K]])+
    apply (rule succeeds_call_bind)+
    apply (rule succeeds_BUG_ON_seq)
    using kp apply simp
    apply (rule succeeds_get_desc_bind)
    apply (rule succeeds_bindK [OF succeeds_follow [OF K]])+
    apply (simp only: D_def [symmetric])
    apply (rule succeeds_exec_seq)
    apply (rule succeeds_bindK [OF succeeds_copy_pages [OF K]])
    apply (simp only:)
    apply (rule succeeds_exec_seq)+
    apply (simp add: succeeds_ret)
    done
qed

text \<open>A descriptor handed to the engine, as its table and the history show it.\<close>

definition submitted ::
  "issue_func \<Rightarrow> addr \<Rightarrow> desc_p \<Rightarrow> bool \<Rightarrow> addr \<Rightarrow> nat \<Rightarrow> sg_ent list \<times> sg_ent list \<Rightarrow> addr \<Rightarrow> kst \<Rightarrow> bool" where
  "submitted fn r d irq mm n sgl t s \<longleftrightarrow> issue_one_desc_func (tables s t) = fn \<and> migdesc (tables s t) = Some d
     \<and> t_region (tables s t) = r \<and> t_mm (tables s t) = mm \<and> num_pages (tables s t) = int n
     \<and> (\<exists>chan tx. (''device_prep_dma_sg'', chan # int n # int n # of_bool irq # sg_args (snd sgl) @ sg_args (fst sgl), tx)
          \<in> set (hist s))
     \<and> (irq \<longrightarrow> (\<exists>tx v. (''tx->callback = dma_callback_kthread'', [tx, t], v) \<in> set (hist s)))"

lemma succeeds_submit:
  assumes "\<And>h xs. A h ''device_prep_dma_sg'' xs \<noteq> 0" and "fst sgl \<noteq> []" and "snd sgl \<noteq> []" and n: "n < N"
  shows "succeeds A R N (submit_sg fn t r d irq mm n sa da sgl) (submitted fn r d irq mm n sgl)"
  unfolding succeeds_def
proof (intro allI impI)
  fix s assume "env_is A R N s"
  then have 1: "answer s = A" "n < max_nr_sg s" "regs s = R" "max_nr_sg s = N"
    using n by (simp_all add: env_is_def)
  show "\<exists>x s1. submit_sg fn t r d irq mm n sa da sgl s = Inr (x, s1) \<and> env_is A R N s1
      \<and> submitted fn r d irq mm n sgl x s1"
    using submit_sg_run [OF 1(1) assms(1) assms(2,3) 1(2), of fn t r d irq mm sa da]
    unfolding env_is_def submitted_def prod.collapse 1(3,4) by blast
qed

lemma length_range_sg [simp]: "length (range_sg pt phys b huge a n) = n"
  by (simp add: range_sg_def)

lemma range_sg_nonempty [simp]: "range_sg pt phys b huge a (page_count_of D) \<noteq> []"
  using page_count_of_bounds(1) [of D] by (simp add: range_sg_def)

lemma issue_copy_succeeds:
  assumes K: "kernel_copies A pt phys" and n: "page_count_of (desc_at (R r) d) < N"
  defines "D \<equiv> desc_at (R r) d"
  shows "succeeds A R N (issue_one_desc_copy r d irq mm) (submitted Issue_copy r d irq mm (page_count_of D)
    (range_sg pt phys True (huge_page D \<noteq> 0) (uint (base_to_virt (virt_base D))) (page_count_of D),
     range_sg pt phys False (huge_page D \<noteq> 0) (uint (base_to_virt (virt_base_dest D))) (page_count_of D)))"
  unfolding issue_one_desc_copy_def
  apply (rule succeeds_bindK [OF succeeds_collect_copy [where R = R, OF kernel_copiesD(1) [OF K] n]])
  apply (clarsimp simp only: prod.case split_paired_all D_def [symmetric])
  apply (rule succeeds_submit)
  using K n by (simp_all add: kernel_copies_def D_def)

end
