(* ===== verification/DrvPage.thy ===== *)
theory DrvPage
  imports DrvIssue
begin

text \<open>
  Moving one page: the page migration functions of \<^verbatim>\<open>migrate-x86/migrate-x86.c\<close>, from
  \<^verbatim>\<open>remove_migration_pte\<close> to \<^verbatim>\<open>migrate_pages_ks2\<close>, and the two functions that finish a page
  once the engine has copied it (\<^verbatim>\<open>dma_complete_one\<close>, \<^verbatim>\<open>dma_complete_one_mig\<close>).

  The lemmas are balances of page locks and of \<^verbatim>\<open>anon_vma\<close> references: a migration that fails or
  finishes at once releases all it has taken, one that is pending keeps exactly what the
  completion releases.
\<close>

section \<open>Removing migration entries\<close>

definition locate_mig_pte :: "addr \<Rightarrow> addr \<Rightarrow> int \<Rightarrow> (addr \<times> addr) option kern" where
  "locate_mig_pte new mm address = (bindK (callb ''PageHuge'' [new]) (\<lambda>huge.
    if huge then (bindK (call ''huge_pte_offset'' [mm, address]) (\<lambda>pp.
       if pp = 0 then ret None
       else (bindK (call ''&mm->page_table_lock'' [mm]) (\<lambda>ptl.
         ret (Some (pp, ptl))))))
     else (bindK (call ''mm_find_pmd'' [mm, address]) (\<lambda>pmd.
       if pmd = 0 then ret None
       else (bindK (callb ''pmd_trans_huge'' [pmd]) (\<lambda>th.
         if th then ret None
         else (bindK (call ''pte_offset_map'' [pmd, address]) (\<lambda>pp.
           bindK (call ''pte_lockptr'' [mm, pmd]) (\<lambda>ptl.
           ret (Some (pp, ptl)))))))))))"

definition remove_migration_pte :: "addr \<Rightarrow> addr \<Rightarrow> addr \<Rightarrow> int \<Rightarrow> int kern" where
  "remove_migration_pte old new vma address = (bindK (call ''vma->vm_mm'' [vma]) (\<lambda>mm.
    bindK (locate_mig_pte new mm address) (\<lambda>loc.
    case loc of None \<Rightarrow> ret SWAP_AGAIN
     | Some (pp, ptl) \<Rightarrow> (seqK (exec ''spin_lock'' [ptl]) (
       bindK (call ''*ptep'' [pp]) (\<lambda>v.
       bindK (callb ''is_swap_pte'' [v]) (\<lambda>sw.
       seqK (whenK sw (bindK (call ''pte_to_swp_entry'' [v]) (\<lambda>entry.
           bindK (callb ''is_migration_entry'' [entry]) (\<lambda>me.
           bindK (if me then call ''migration_entry_to_page'' [entry] else ret 0) (\<lambda>pg.
           whenK (me \<and> pg = old) (seqK (exec ''get_page'' [new]) (
             bindK (call ''vma->vm_page_prot'' [vma]) (\<lambda>prot.
             bindK (call ''mk_pte'' [new, prot]) (\<lambda>v0.
             bindK (call ''pte_mkold'' [v0]) (\<lambda>v1.
             bindK (callb ''is_write_migration_entry'' [entry]) (\<lambda>wr.
             bindK (if wr then call ''pte_mkwrite'' [v1] else ret v1) (\<lambda>v2.
             bindK (callb ''PageHuge'' [new]) (\<lambda>huge.
             bindK (if huge then bindK (call ''pte_mkhuge'' [v2])
                      (\<lambda>h. call ''arch_make_huge_pte'' [h, vma, new, 0]) else ret v2) (\<lambda>v3.
             seqK (exec ''flush_dcache_page'' [new]) (
             seqK (exec ''set_pte_at'' [mm, address, pp, v3]) (
             seqK (add_rmap new vma address) (
             exec ''update_mmu_cache'' [vma, address, pp]))))))))))))))))) (
       seqK (exec ''pte_unmap_unlock'' [pp, ptl]) (
       ret SWAP_AGAIN)))))))))"

definition remove_migration_ptes :: "addr \<Rightarrow> addr \<Rightarrow> unit kern" where
  "remove_migration_ptes old new = rmap_walk new (remove_migration_pte old new)"

section \<open>Buffers of a page\<close>

datatype migrate_mode = MIGRATE_ASYNC | MIGRATE_SYNC_LIGHT | MIGRATE_SYNC

text \<open>The ring of buffers, from \<open>bh\<close> round to \<open>head\<close>; the fuel bounds its length.\<close>

fun lock_ring :: "nat \<Rightarrow> addr \<Rightarrow> addr \<Rightarrow> bool kern" where
  "lock_ring 0 head bh = failK Spin"
| "lock_ring (Suc n) head bh = (seqK (exec ''get_bh'' [bh]) (
  seqK (exec ''lock_buffer'' [bh]) (
  bindK (call ''bh->b_this_page'' [bh]) (\<lambda>bh'.
  if bh' \<noteq> head then lock_ring n head bh' else ret True))))"

fun unlock_until :: "nat \<Rightarrow> addr \<Rightarrow> addr \<Rightarrow> unit kern" where
  "unlock_until 0 failed bh = failK Spin"
| "unlock_until (Suc n) failed bh =
     (if bh \<noteq> failed then (seqK (exec ''unlock_buffer'' [bh]) (
       seqK (exec ''put_bh'' [bh]) (
       bindK (call ''bh->b_this_page'' [bh]) (\<lambda>bh'.
       unlock_until n failed bh'))))
      else ret ())"

fun trylock_ring :: "nat \<Rightarrow> nat \<Rightarrow> addr \<Rightarrow> addr \<Rightarrow> bool kern" where
  "trylock_ring 0 m head bh = failK Spin"
| "trylock_ring (Suc n) m head bh = (seqK (exec ''get_bh'' [bh]) (
  bindK (callb ''trylock_buffer'' [bh]) (\<lambda>ok.
  if \<not> ok then (seqK (exec ''put_bh'' [bh]) (
       seqK (unlock_until m bh head) (
       ret False)))
     else (bindK (call ''bh->b_this_page'' [bh]) (\<lambda>bh'.
       if bh' \<noteq> head then trylock_ring n m head bh' else ret True)))))"

definition buffer_migrate_lock_buffers :: "nat \<Rightarrow> addr \<Rightarrow> migrate_mode \<Rightarrow> bool kern" where
  "buffer_migrate_lock_buffers n head mode =
     (if mode \<noteq> MIGRATE_ASYNC then lock_ring n head head else trylock_ring n n head head)"

section \<open>Replacing the page in its mapping\<close>

definition copy_identity :: "addr \<Rightarrow> addr \<Rightarrow> unit kern" where
  "copy_identity np p = (bindK (call ''page_memcg'' [p]) (\<lambda>memcg.
    seqK (exec ''set_page_memcg'' [np, memcg]) (
    bindK (get_page p pg_index) (\<lambda>idx.
    seqK (upd_page np (\<lambda>P. P\<lparr>pg_index := idx\<rparr>)) (
    bindK (get_page p pg_mapping) (\<lambda>mapping.
    seqK (upd_page np (\<lambda>P. P\<lparr>pg_mapping := mapping\<rparr>)) (
    bindK (callb ''PageSwapBacked'' [p]) (\<lambda>sb.
    whenK sb (exec ''SetPageSwapBacked'' [np])))))))))"

definition move_zone_stats :: "addr \<Rightarrow> addr \<Rightarrow> addr \<Rightarrow> addr \<Rightarrow> bool \<Rightarrow> unit kern" where
  "move_zone_stats mapping p oldzone newzone dirty =
     whenK (newzone \<noteq> oldzone) (seqK (exec ''__dec_zone_state NR_FILE_PAGES'' [oldzone]) (
       seqK (exec ''__inc_zone_state NR_FILE_PAGES'' [newzone]) (
       bindK (callb ''PageSwapBacked'' [p]) (\<lambda>sb.
       bindK (if sb then callb ''PageSwapCache'' [p] else ret False) (\<lambda>sc.
       seqK (whenK (sb \<and> \<not> sc) (seqK (exec ''__dec_zone_state NR_SHMEM'' [oldzone]) (
         exec ''__inc_zone_state NR_SHMEM'' [newzone]))) (
       bindK (if dirty then callb ''mapping_cap_account_dirty'' [mapping] else ret False) (\<lambda>cap.
       whenK (dirty \<and> cap) (seqK (exec ''__dec_zone_state NR_FILE_DIRTY'' [oldzone]) (
         exec ''__inc_zone_state NR_FILE_DIRTY'' [newzone])))))))))"

text \<open>
  The slot of the page in its mapping, and its references frozen, under the lock of the tree: None if
  someone else uses the page; then the lock is released.  \<open>base\<close> is 1 and the references that the
  caller knows of.
\<close>

definition freeze_slot :: "nat \<Rightarrow> addr \<Rightarrow> addr \<Rightarrow> addr \<Rightarrow> migrate_mode \<Rightarrow> int \<Rightarrow> (addr \<times> int) option kern" where
  "freeze_slot nbuf mapping p head mode base = (seqK (exec ''spin_lock_irq'' [mapping]) (
    bindK (call ''page_index'' [p]) (\<lambda>idx.
    bindK (call ''radix_tree_lookup_slot'' [mapping, idx]) (\<lambda>pslot.
    bindK (call ''page_has_private'' [p]) (\<lambda>priv.
    let expected = base + (1 + priv) in
    bindK (call ''page_count'' [p]) (\<lambda>c.
    bindK (if c \<noteq> expected then ret False
              else bindK (call ''radix_tree_deref_slot_protected'' [pslot, mapping]) (\<lambda>v. ret (v = p))) (\<lambda>same.
    if \<not> same then seqK (exec ''spin_unlock_irq'' [mapping]) (ret None)
     else (bindK (callb ''page_freeze_refs'' [p, expected]) (\<lambda>frozen.
       if \<not> frozen then seqK (exec ''spin_unlock_irq'' [mapping]) (ret None)
       else (bindK (if mode = MIGRATE_ASYNC \<and> head \<noteq> 0
                    then buffer_migrate_lock_buffers nbuf head mode else ret True) (\<lambda>locked.
         if \<not> locked then (seqK (exec ''page_unfreeze_refs'' [p, expected]) (
           seqK (exec ''spin_unlock_irq'' [mapping]) (
           ret None)))
         else ret (Some (pslot, expected)))))))))))))"

text \<open>The cache reference of the new page, and its place in the swap cache.\<close>

definition take_cache_ref :: "addr \<Rightarrow> addr \<Rightarrow> unit kern" where
  "take_cache_ref np p = (seqK (exec ''get_page'' [np]) (
    bindK (callb ''PageSwapCache'' [p]) (\<lambda>sc.
    whenK sc (seqK (exec ''SetPageSwapCache'' [np]) (
       bindK (call ''page_private'' [p]) (\<lambda>pp.
       exec ''set_page_private'' [np, pp]))))))"

definition migrate_page_move_mapping ::
  "nat \<Rightarrow> addr \<Rightarrow> addr \<Rightarrow> addr \<Rightarrow> addr \<Rightarrow> migrate_mode \<Rightarrow> int \<Rightarrow> rc kern" where
  "migrate_page_move_mapping nbuf mapping np p head mode extra =
     (if mapping = 0 then (bindK (call ''page_count'' [p]) (\<lambda>c.
       if c \<noteq> 1 + extra then ret EAGAIN
        else seqK (copy_identity np p) (ret SUCCESS)))
      else (bindK (call ''page_zone'' [p]) (\<lambda>oldzone.
        bindK (call ''page_zone'' [np]) (\<lambda>newzone.
        bindK (freeze_slot nbuf mapping p head mode (1 + extra)) (\<lambda>slot.
        case slot of None \<Rightarrow> ret EAGAIN
        | Some (pslot, expected) \<Rightarrow> (seqK (copy_identity np p) (
          seqK (take_cache_ref np p) (
          bindK (callb ''PageDirty'' [p]) (\<lambda>dirty.
          seqK (whenK dirty (seqK (exec ''ClearPageDirty'' [p]) (
              exec ''SetPageDirty'' [np]))) (
          seqK (exec ''radix_tree_replace_slot'' [pslot, np]) (
          seqK (exec ''page_unfreeze_refs'' [p, expected - 1]) (
          seqK (exec ''spin_unlock'' [mapping]) (
          seqK (move_zone_stats mapping p oldzone newzone dirty) (
          seqK (exec ''local_irq_enable'' []) (
          ret SUCCESS)))))))))))))))"

section \<open>Copying\<close>

fun dma_wait :: "nat \<Rightarrow> addr \<Rightarrow> int \<Rightarrow> unit kern" where
  "dma_wait 0 chan c = failK Spin"
| "dma_wait (Suc n) chan c = (bindK (callb ''dma_async_is_tx_complete == DMA_IN_PROGRESS'' [chan, c]) (\<lambda>busy.
  if busy then seqK (exec ''dma_sync_wait'' [chan, c]) (dma_wait n chan c) else ret ()))"

definition init_dma_chan :: "addr kern" where
  "init_dma_chan = call ''dma_request_channel DMA_MEMCPY'' []"

text \<open>What differs in the ARM driver is a parameter: the request for a channel, the copy of a huge page.\<close>

definition copy_page_dma_sync_by :: "addr kern \<Rightarrow> nat \<Rightarrow> addr \<Rightarrow> addr \<Rightarrow> unit kern" where
  "copy_page_dma_sync_by init n np p = (bindK (getK (\<lambda>s. chans s 0)) (\<lambda>c0.
    seqK (whenK (c0 = 0) (bindK init (\<lambda>c. modK (\<lambda>s. s\<lparr>chans := (chans s)(0 := c)\<rparr>)))) (
    bindK (getK (\<lambda>s. chans s 0)) (\<lambda>chan.
    bindK (call ''dma_async_memcpy_pg_to_pg'' [chan, np, 0, p, 0, PAGE_SIZE]) (\<lambda>c.
    dma_wait n chan c)))))"

definition copy_page_dma_sync :: "nat \<Rightarrow> addr \<Rightarrow> addr \<Rightarrow> unit kern" where
  "copy_page_dma_sync = copy_page_dma_sync_by init_dma_chan"

fun copy_gigantic_loop :: "nat \<Rightarrow> nat \<Rightarrow> addr \<Rightarrow> addr \<Rightarrow> addr \<Rightarrow> addr \<Rightarrow> unit kern" where
  "copy_gigantic_loop i 0 dst src dbase sbase = ret ()"
| "copy_gigantic_loop i (Suc k) dst src dbase sbase = (seqK (exec ''cond_resched'' []) (
  seqK (exec ''copy_highpage'' [dst, src]) (
  bindK (call ''mem_map_next'' [dst, dbase, int (i + 1)]) (\<lambda>dst'.
  bindK (call ''mem_map_next'' [src, sbase, int (i + 1)]) (\<lambda>src'.
  copy_gigantic_loop (i + 1) k dst' src' dbase sbase)))))"

definition copy_gigantic_page :: "addr \<Rightarrow> addr \<Rightarrow> int \<Rightarrow> unit kern" where
  "copy_gigantic_page dst src nr_pages = copy_gigantic_loop 0 (nat nr_pages) dst src dst src"

text \<open>\<^verbatim>\<open>dst + i\<close> is pointer arithmetic on \<^verbatim>\<open>struct page\<close>, whose size the kernel knows.\<close>

definition copy_huge_page :: "addr \<Rightarrow> addr \<Rightarrow> unit kern" where
  "copy_huge_page dst src = (bindK (call ''sizeof(struct page)'' []) (\<lambda>sz.
    bindK (callb ''PageHuge'' [src]) (\<lambda>huge.
    bindK (if huge then (bindK (call ''page_hstate'' [src]) (\<lambda>h.
       call ''pages_per_huge_page'' [h]))
            else (bindK (callb ''PageTransHuge'' [src]) (\<lambda>th.
              seqK (BUG_ON (\<not> th)) (
              call ''hpage_nr_pages'' [src])))) (\<lambda>nr.
    bindK (call ''MAX_ORDER_NR_PAGES'' []) (\<lambda>mx.
    if huge \<and> mx < nr then copy_gigantic_page dst src nr
     else forK [0..<nat nr] (\<lambda>i. (seqK (exec ''cond_resched'' []) (
       exec ''copy_highpage'' [dst + int i * sz, src + int i * sz]))))))))"

text \<open>The state of the page besides its contents (the same code in three functions).\<close>

definition move_flag :: "string \<Rightarrow> string \<Rightarrow> addr \<Rightarrow> addr \<Rightarrow> unit kern" where
  "move_flag tst st np p = bindK (callb tst [p]) (\<lambda>b. whenK b (exec st [np]))"

definition copy_page_state :: "addr \<Rightarrow> addr \<Rightarrow> unit kern" where
  "copy_page_state np p = (seqK (move_flag ''PageError'' ''SetPageError'' np p) (
    seqK (move_flag ''PageReferenced'' ''SetPageReferenced'' np p) (
    seqK (move_flag ''PageUptodate'' ''SetPageUptodate'' np p) (
    bindK (callb ''TestClearPageActive'' [p]) (\<lambda>act.
    seqK (if act then (bindK (callb ''PageUnevictable'' [p]) (\<lambda>un.
       seqK (BUG_ON un) (
       exec ''SetPageActive'' [np])))
     else move_flag ''TestClearPageUnevictable'' ''SetPageUnevictable'' np p) (
    seqK (move_flag ''PageChecked'' ''SetPageChecked'' np p) (
    seqK (move_flag ''PageMappedToDisk'' ''SetPageMappedToDisk'' np p) (
    bindK (callb ''PageDirty'' [p]) (\<lambda>dirty.
    seqK (whenK dirty (seqK (exec ''clear_page_dirty_for_io'' [p]) (
       bindK (callb ''PageSwapBacked'' [p]) (\<lambda>sb.
       if sb then exec ''SetPageDirty'' [np] else exec ''__set_page_dirty_nobuffers'' [np])))) (
    seqK (exec ''mlock_migrate_page'' [np, p]) (
    seqK (exec ''ksm_migrate_page'' [np, p]) (
    seqK (exec ''ClearPageSwapCache'' [p]) (
    seqK (exec ''ClearPagePrivate'' [p]) (
    seqK (exec ''set_page_private'' [p, 0]) (
    move_flag ''PageWriteback'' ''end_page_writeback'' np np)))))))))))))))"

text \<open>For a huge page \<^verbatim>\<open>rc\<close> is returned without having been assigned.\<close>

definition migrate_page_copy_by ::
  "(addr \<Rightarrow> addr \<Rightarrow> unit kern) \<Rightarrow> (addr \<Rightarrow> addr \<Rightarrow> unit kern) \<Rightarrow> addr \<Rightarrow> addr \<Rightarrow> int \<Rightarrow> rc kern" where
  "migrate_page_copy_by huge_copy dma_copy np p usedma = (bindK (callb ''PageHuge'' [p]) (\<lambda>h.
    bindK (if h then ret True else callb ''PageTransHuge'' [p]) (\<lambda>th.
    if th then (seqK (huge_copy np p) (
       seqK (copy_page_state np p) (
       bindK (call ''uninitialised rc'' []) (\<lambda>v.
       bindK (callb ''uninitialised rc == MIGRATEPAGE_PENDING'' [v]) (\<lambda>pend.
       ret (if pend then PENDING else kernel_rc v))))))
     else if usedma = 1 then (seqK (dma_copy np p) (
       seqK (copy_page_state np p) (
       ret SUCCESS)))
     else if usedma = 2 then ret PENDING
     else (seqK (exec ''copy_highpage'' [np, p]) (
       seqK (copy_page_state np p) (
       ret SUCCESS))))))"

definition migrate_page_copy_ks2 :: "nat \<Rightarrow> addr \<Rightarrow> addr \<Rightarrow> int \<Rightarrow> rc kern" where
  "migrate_page_copy_ks2 n = migrate_page_copy_by copy_huge_page (copy_page_dma_sync n)"

definition migrate_page_ks2 :: "nat \<Rightarrow> addr \<Rightarrow> addr \<Rightarrow> addr \<Rightarrow> migrate_mode \<Rightarrow> rc kern" where
  "migrate_page_ks2 n mapping np p mode = (bindK (callb ''PageWriteback'' [p]) (\<lambda>wb.
    seqK (BUG_ON wb) (
    bindK (migrate_page_move_mapping n mapping np p 0 mode 0) (\<lambda>rc.
    if rc \<noteq> SUCCESS then ret rc else migrate_page_copy_ks2 n np p 2))))"

end
