(* ===== verification/DrvMove.thy ===== *)
theory DrvMove
  imports DrvPage
begin

text \<open>
  Moving a page to a new one and finishing it: \<^verbatim>\<open>writeout\<close>, \<^verbatim>\<open>fallback_migrate_page\<close>,
  \<^verbatim>\<open>move_to_new_page_ks2\<close>, \<^verbatim>\<open>__unmap_and_move_ks2\<close>, \<^verbatim>\<open>unmap_and_move_ks2\<close>,
  \<^verbatim>\<open>new_page_node1\<close>, \<^verbatim>\<open>migrate_pages_ks2\<close>, and the completions \<^verbatim>\<open>dma_complete_one\<close> and
  \<^verbatim>\<open>dma_complete_one_mig\<close> of \<^verbatim>\<open>migrate-x86/migrate-x86.c\<close>.

  The lemmas show that page locks and \<^verbatim>\<open>anon_vma\<close> references are balanced: whatever a migration
  attempt takes it releases, unless it reports \<open>PENDING\<close>; then it has kept exactly the two page
  locks and the reference that the completion of the page releases.
\<close>

section \<open>Moving\<close>

definition AOP_WRITEPAGE_ACTIVATE :: int where "AOP_WRITEPAGE_ACTIVATE = 0x80000"

definition writeout :: "addr \<Rightarrow> addr \<Rightarrow> rc kern" where
  "writeout mapping p = (bindK (callb ''a_ops->writepage'' [mapping]) (\<lambda>wp.
    if \<not> wp then ret EINVAL
     else (bindK (callb ''clear_page_dirty_for_io'' [p]) (\<lambda>c.
       if \<not> c then ret EAGAIN
       else (seqK (remove_migration_ptes p p) (
         bindK (call ''mapping->a_ops->writepage'' [mapping, p]) (\<lambda>rc.
         seqK (whenK (rc \<noteq> AOP_WRITEPAGE_ACTIVATE) (exec ''lock_page'' [p])) (
         ret (if rc < 0 then EIO else EAGAIN)))))))))"

text \<open>\<open>mv\<close> is the driver's \<^verbatim>\<open>migrate_page_ks2\<close>.\<close>

type_synonym page_migrator = "addr \<Rightarrow> addr \<Rightarrow> addr \<Rightarrow> migrate_mode \<Rightarrow> rc kern"

definition fallback_migrate_page_by :: "page_migrator \<Rightarrow> page_migrator" where
  "fallback_migrate_page_by mv mapping np p mode = (bindK (callb ''PageDirty'' [p]) (\<lambda>dirty.
    if dirty then (if mode \<noteq> MIGRATE_SYNC then ret EBUSY else writeout mapping p)
     else (bindK (callb ''page_has_private'' [p]) (\<lambda>priv.
       bindK (if priv then callb ''try_to_release_page'' [p] else ret True) (\<lambda>rel.
       if \<not> rel then ret EAGAIN else mv mapping np p mode)))))"

definition fallback_migrate_page :: "nat \<Rightarrow> page_migrator" where
  "fallback_migrate_page n = fallback_migrate_page_by (migrate_page_ks2 n)"

definition call_rc :: "string \<Rightarrow> int list \<Rightarrow> rc kern" where
  "call_rc f xs = bindK (call f xs) (\<lambda>v. ret (kernel_rc v))"

definition mode_arg :: "migrate_mode \<Rightarrow> int" where
  "mode_arg m = (case m of MIGRATE_ASYNC \<Rightarrow> 0 | MIGRATE_SYNC_LIGHT \<Rightarrow> 1 | MIGRATE_SYNC \<Rightarrow> 2)"

definition move_to_new_page_by :: "page_migrator \<Rightarrow> addr \<Rightarrow> addr \<Rightarrow> bool \<Rightarrow> migrate_mode \<Rightarrow> rc kern" where
  "move_to_new_page_by mv np p remap mode = (bindK (callb ''trylock_page'' [np]) (\<lambda>l.
    seqK (BUG_ON (\<not> l)) (
    bindK (get_page p pg_index) (\<lambda>idx.
    seqK (upd_page np (\<lambda>P. P\<lparr>pg_index := idx\<rparr>)) (
    bindK (get_page p pg_mapping) (\<lambda>pm.
    seqK (upd_page np (\<lambda>P. P\<lparr>pg_mapping := pm\<rparr>)) (
    bindK (callb ''PageSwapBacked'' [p]) (\<lambda>sb.
    seqK (whenK sb (exec ''SetPageSwapBacked'' [np])) (
    bindK (call ''page_mapping'' [p]) (\<lambda>mapping.
    bindK (if mapping = 0 then ret False else callb ''a_ops->migratepage'' [mapping]) (\<lambda>mp.
    bindK (if mapping = 0 then mv mapping np p mode
            else if mp then call_rc ''mapping->a_ops->migratepage'' [mapping, np, p, mode_arg mode]
            else fallback_migrate_page_by mv mapping np p mode) (\<lambda>rc.
    if rc = PENDING then ret rc
     else (seqK (if rc \<noteq> SUCCESS then upd_page np (\<lambda>P. P\<lparr>pg_mapping := 0\<rparr>)
       else (seqK (whenK remap (remove_migration_ptes p np)) (
         upd_page p (\<lambda>P. P\<lparr>pg_mapping := 0\<rparr>)))) (
       seqK (exec ''unlock_page'' [np]) (
       ret rc)))))))))))))))"

definition move_to_new_page_ks2 :: "nat \<Rightarrow> addr \<Rightarrow> addr \<Rightarrow> bool \<Rightarrow> migrate_mode \<Rightarrow> rc kern" where
  "move_to_new_page_ks2 n = move_to_new_page_by (migrate_page_ks2 n)"

text \<open>
  \<^verbatim>\<open>skip_unmap\<close>: the tail of \<^verbatim>\<open>__unmap_and_move_ks2\<close>; \<open>fin\<close> is the code at the label
  \<^verbatim>\<open>uncharge\<close>.
\<close>

definition move_unmapped ::
  "page_migrator \<Rightarrow> (rc \<Rightarrow> rc kern) \<Rightarrow> addr \<Rightarrow> addr \<Rightarrow> migrate_mode \<Rightarrow> addr \<Rightarrow> nat \<Rightarrow> addr \<Rightarrow> bool \<Rightarrow> rc kern" where
  "move_unmapped mv fin p np mode t i av remap = (bindK (callb ''page_mapped'' [p]) (\<lambda>mapped.
    bindK (if \<not> mapped then (seqK (upd_pg t i (\<lambda>d. d\<lparr>page := p, newpage := np, anon_vma := av, remap_swapcache := of_bool remap\<rparr>)) (
       move_to_new_page_by mv np p remap mode))
            else ret EAGAIN) (\<lambda>rc.
    if rc = PENDING then ret rc
     else (seqK (whenK (rc \<noteq> SUCCESS \<and> remap) (remove_migration_ptes p p)) (
       seqK (whenK (av \<noteq> 0) (exec ''put_anon_vma'' [av])) (
       fin rc))))))"

definition uncharge :: "addr \<Rightarrow> rc \<Rightarrow> rc kern" where
  "uncharge p rc = seqK (exec ''unlock_page'' [p]) (ret rc)"

text \<open>
  The page is locked.  The \<^verbatim>\<open>anon_vma\<close> of an anonymous page is pinned: the result is None for
  \<^verbatim>\<open>goto uncharge\<close>, otherwise the reference taken (or 0) and whether to remap.
\<close>

definition pin_anon_vma :: "addr \<Rightarrow> (addr \<times> bool) option kern" where
  "pin_anon_vma p = (bindK (callb ''PageAnon'' [p]) (\<lambda>an.
    bindK (if an then callb ''PageKsm'' [p] else ret False) (\<lambda>ksm.
    if an \<and> \<not> ksm then (bindK (call ''page_get_anon_vma'' [p]) (\<lambda>av.
       if av \<noteq> 0 then ret (Some (av, True))
       else (bindK (callb ''PageSwapCache'' [p]) (\<lambda>sc.
         if sc then ret (Some (0, False)) else ret None))))
     else ret (Some (0, True)))))"

definition unmap_locked ::
  "page_migrator \<Rightarrow> (rc \<Rightarrow> rc kern) \<Rightarrow> addr \<Rightarrow> addr \<Rightarrow> bool \<Rightarrow> migrate_mode \<Rightarrow> addr \<Rightarrow> nat \<Rightarrow> rc kern" where
  "unmap_locked mv fin p np force mode t i = (bindK (callb ''PageWriteback'' [p]) (\<lambda>wb.
    if wb \<and> mode \<noteq> MIGRATE_SYNC then fin EBUSY
     else if wb \<and> \<not> force then fin EAGAIN
     else (seqK (whenK wb (exec ''wait_on_page_writeback'' [p])) (
       bindK (pin_anon_vma p) (\<lambda>pin.
       case pin of None \<Rightarrow> fin EAGAIN
       | Some (av, remap) \<Rightarrow> (bindK (callb ''balloon_page_movable'' [p]) (\<lambda>bl.
         if bl then bindK (call_rc ''balloon_page_migrate'' [np, p, mode_arg mode]) fin
           else (bindK (get_page p pg_mapping) (\<lambda>pm.
             if pm = 0 then (bindK (callb ''PageAnon'' [p]) (\<lambda>an.
               seqK (BUG_ON an) (
               bindK (callb ''page_has_private'' [p]) (\<lambda>priv.
               if priv then seqK (exec ''try_to_free_buffers'' [p]) (fin EAGAIN)
               else move_unmapped mv fin p np mode t i av remap))))
             else (seqK (exec ''try_to_unmap MIGRATION|IGNORE_MLOCK|IGNORE_ACCESS|IGNORE_FLUSH_CACHE'' [p]) (
               move_unmapped mv fin p np mode t i av remap)))))))))))"

text \<open>\<open>locked\<close> is what follows once the page is locked.\<close>

definition do_unmap_and_move_by :: "rc kern \<Rightarrow> addr \<Rightarrow> bool \<Rightarrow> migrate_mode \<Rightarrow> rc kern" where
  "do_unmap_and_move_by locked p force mode = (bindK (callb ''trylock_page'' [p]) (\<lambda>l.
    if l then locked
     else if \<not> force \<or> mode = MIGRATE_ASYNC then ret EAGAIN
     else (bindK (callb ''current->flags & PF_MEMALLOC'' []) (\<lambda>ma.
       if ma then ret EAGAIN
       else (seqK (exec ''lock_page'' [p]) (
         locked))))))"

definition do_unmap_and_move_ks2 ::
  "nat \<Rightarrow> addr \<Rightarrow> addr \<Rightarrow> bool \<Rightarrow> migrate_mode \<Rightarrow> addr \<Rightarrow> nat \<Rightarrow> rc kern" where
  "do_unmap_and_move_ks2 n p np force mode t i =
     do_unmap_and_move_by (unmap_locked (migrate_page_ks2 n) (uncharge p) p np force mode t i) p force mode"

text \<open>\<^verbatim>\<open>list_del(&page->lru)\<close> takes the page off whichever list it is on.\<close>

definition list_del :: "addr \<Rightarrow> unit kern" where
  "list_del p = modK (\<lambda>s. s\<lparr>tables := (\<lambda>t. (tables s t)\<lparr>pagelist := removeAll p (pagelist (tables s t))\<rparr>)\<rparr>)"

definition new_page_node1 :: "addr \<Rightarrow> nat \<Rightarrow> addr kern" where
  "new_page_node1 t i = (bindK (get_pg t i) (\<lambda>d.
    bindK (get_table t t_region) (\<lambda>r.
    bindK (get_desc r (mig d) (\<lambda>d. uint (node d))) (\<lambda>nd.
    seqK (BUG_ON (\<not> (nd = 0 \<or> nd = 1))) (
    bindK (call ''alloc_pages_exact_node'' [nd, 0]) (\<lambda>pg.
    seqK (BUG_ON (pg = 0)) (
    ret pg)))))))"

text \<open>The end of \<^verbatim>\<open>unmap_and_move_ks2\<close>; \<^verbatim>\<open>result\<close> points to the status of entry \<open>i\<close>.\<close>

definition finish_move :: "addr \<Rightarrow> addr \<Rightarrow> addr \<Rightarrow> nat \<Rightarrow> rc \<Rightarrow> rc kern" where
  "finish_move p np t i rc =
     (if rc = PENDING then (bindK (call ''MIGRATEPAGE_PENDING'' []) (\<lambda>v.
       seqK (upd_pg t i (\<lambda>d. d\<lparr>status := v\<rparr>)) (
       ret rc)))
      else (seqK (whenK (rc \<noteq> EAGAIN) (seqK (list_del p) (
          bindK (call ''page_is_file_cache'' [p]) (\<lambda>fc.
          seqK (exec ''dec_zone_page_state NR_ISOLATED_ANON'' [p, fc]) (
          exec ''putback_lru_page'' [p]))))) (
        seqK (exec ''putback_lru_page'' [np]) (
        bindK (if rc \<noteq> SUCCESS then call ''rc as int'' [] else call ''page_to_nid'' [np]) (\<lambda>st.
        seqK (upd_pg t i (\<lambda>d. d\<lparr>status := st\<rparr>)) (
        ret rc))))))"

text \<open>The attempt on the locked page, \<open>um\<close>, is a parameter: the ARM driver has its own.\<close>

type_synonym page_mover = "nat \<Rightarrow> addr \<Rightarrow> addr \<Rightarrow> bool \<Rightarrow> migrate_mode \<Rightarrow> addr \<Rightarrow> nat \<Rightarrow> rc kern"

definition unmap_and_move_by :: "page_mover \<Rightarrow> nat \<Rightarrow> addr \<Rightarrow> bool \<Rightarrow> migrate_mode \<Rightarrow> addr \<Rightarrow> nat \<Rightarrow> rc kern" where
  "unmap_and_move_by um n p force mode t i = (bindK (new_page_node1 t i) (\<lambda>np.
    if np = 0 then ret ENOMEM
     else (bindK (call ''page_count'' [p]) (\<lambda>c.
       if c = 1 then finish_move p np t i SUCCESS
       else (bindK (callb ''PageTransHuge'' [p]) (\<lambda>th.
         bindK (if th then callb ''split_huge_page'' [p] else ret False) (\<lambda>sp.
         if sp then finish_move p np t i SUCCESS
         else (bindK (um n p np force mode t i) (\<lambda>rc.
           if rc = BALLOON_SUCCESS then (bindK (call ''page_is_file_cache'' [p]) (\<lambda>fc.
             seqK (exec ''dec_zone_page_state NR_ISOLATED_ANON'' [p, fc]) (
             seqK (exec ''balloon_page_free'' [p]) (
             ret SUCCESS))))
           else finish_move p np t i rc)))))))))"

definition unmap_and_move_ks2 :: "nat \<Rightarrow> addr \<Rightarrow> bool \<Rightarrow> migrate_mode \<Rightarrow> addr \<Rightarrow> nat \<Rightarrow> rc kern" where
  "unmap_and_move_ks2 = unmap_and_move_by do_unmap_and_move_ks2"

section \<open>All pages of a table\<close>

text \<open>Counters and scatter lists of \<^verbatim>\<open>migrate_pages_ks2\<close>; \<open>mp_out\<close> is \<^verbatim>\<open>goto out\<close>.\<close>

record mp_state =
  mp_retry :: nat
  mp_failed :: nat
  mp_succeeded :: nat
  mp_pending :: nat
  mp_out :: bool
  mp_sg :: "sg_ent list \<times> sg_ent list"

text \<open>The element has no \<^verbatim>\<open>dma_length\<close> here; \<open>count\<close> is \<^verbatim>\<open>table->num_pages\<close>.\<close>

definition mp_sg_add :: "nat \<Rightarrow> addr \<Rightarrow> addr \<Rightarrow> sg_ent list \<times> sg_ent list \<Rightarrow> (sg_ent list \<times> sg_ent list) kern" where
  "mp_sg_add count op np = (\<lambda>(src, dst). (seqK (BUG_ON (count \<le> length src \<or> count \<le> length dst)) (
    bindK (call ''page_to_phys'' [op]) (\<lambda>sa.
    bindK (call ''page_to_phys'' [np]) (\<lambda>da.
    ret (src @ [\<lparr>sg_page = op, sg_len = PAGE_SIZE, dma_address = sa, dma_length = 0\<rparr>],
          dst @ [\<lparr>sg_page = np, sg_len = PAGE_SIZE, dma_address = da, dma_length = 0\<rparr>]))))))"

type_synonym sg_adder = "nat \<Rightarrow> addr \<Rightarrow> addr \<Rightarrow> sg_ent list \<times> sg_ent list \<Rightarrow> (sg_ent list \<times> sg_ent list) kern"

definition mp_one :: "page_mover \<Rightarrow> sg_adder \<Rightarrow> nat \<Rightarrow> migrate_mode \<Rightarrow> addr \<Rightarrow> nat \<Rightarrow> nat \<Rightarrow> mp_state \<Rightarrow> addr \<Rightarrow> mp_state kern" where
  "mp_one um add n mode t count pass m p =
     (if mp_out m then ret m
      else (bindK (callb ''in_softirq'' []) (\<lambda>soft.
        seqK (whenK (\<not> soft) (exec ''cond_resched'' [])) (
        bindK (unmap_and_move_by um n p (2 < pass) mode t (mp_pending m)) (\<lambda>rc.
        case rc of
          ENOMEM \<Rightarrow> ret (m\<lparr>mp_out := True\<rparr>)
        | EAGAIN \<Rightarrow> ret (m\<lparr>mp_retry := mp_retry m + 1\<rparr>)
        | SUCCESS \<Rightarrow> ret (m\<lparr>mp_succeeded := mp_succeeded m + 1\<rparr>)
        | PENDING \<Rightarrow> (bindK (get_pg t (mp_pending m)) (\<lambda>d.
          bindK (add count (page d) (newpage d) (mp_sg m)) (\<lambda>sgl.
          bindK (getK max_nr_sg) (\<lambda>mx.
          seqK (BUG_ON (mx < mp_pending m + 1)) (
          ret (m\<lparr>mp_pending := mp_pending m + 1, mp_sg := sgl\<rparr>))))))
        | _ \<Rightarrow> ret (m\<lparr>mp_failed := mp_failed m + 1\<rparr>))))))"

text \<open>Up to ten passes over the list, as it is when the pass starts, while something asks for a retry.\<close>

fun mp_passes :: "page_mover \<Rightarrow> sg_adder \<Rightarrow> nat \<Rightarrow> migrate_mode \<Rightarrow> addr \<Rightarrow> nat \<Rightarrow> nat list \<Rightarrow> mp_state \<Rightarrow> mp_state kern" where
  "mp_passes um add n mode t count [] m = ret m"
| "mp_passes um add n mode t count (pass # ps) m =
     (if mp_retry m = 0 \<or> mp_out m then ret m
      else (bindK (get_table t pagelist) (\<lambda>pl.
        bindK (foldK (mp_one um add n mode t count pass) (m\<lparr>mp_retry := 0\<rparr>) pl) (\<lambda>m'.
        mp_passes um add n mode t count ps m'))))"

text \<open>The result is 0 only when no page failed or still asks for a retry.\<close>

definition migrate_pages_by :: "page_mover \<Rightarrow> sg_adder \<Rightarrow> nat \<Rightarrow> migrate_mode \<Rightarrow> addr \<Rightarrow> int kern" where
  "migrate_pages_by um add n mode t = (bindK (callb ''current->flags & PF_SWAPWRITE'' []) (\<lambda>swapwrite.
    seqK (whenK (\<not> swapwrite) (exec ''current->flags |= PF_SWAPWRITE'' [])) (
    bindK (get_table t num_pages) (\<lambda>np.
    bindK (call ''kmalloc'' [np]) (\<lambda>sg_src.
    bindK (call ''kmalloc'' [np]) (\<lambda>sg_dst.
    seqK (assertK (sg_src \<noteq> 0 \<and> sg_dst \<noteq> 0)) (
    seqK (exec ''sg_init_table'' [sg_dst, np]) (
    seqK (exec ''sg_init_table'' [sg_src, np]) (
    bindK (mp_passes um add n mode t (nat np) [0..<10]
       \<lparr>mp_retry = 1, mp_failed = 0, mp_succeeded = 0, mp_pending = 0, mp_out = False, mp_sg = ([], [])\<rparr>) (\<lambda>m.
    bindK (if mp_out m then call ''ENOMEM as int'' [] else ret 0) (\<lambda>nomem.
    seqK (whenK (0 < mp_succeeded m) (exec ''count_vm_events PGMIGRATE_SUCCESS'' [int (mp_succeeded m)])) (
    seqK (whenK (0 < mp_failed m) (seqK (exec ''count_vm_events PGMIGRATE_FAIL'' [int (mp_failed m)]) (
       BUG_ON True))) (
    seqK (BUG_ON (0 < mp_succeeded m \<and> 0 < mp_pending m)) (
    seqK (whenK (0 < mp_pending m) (bindK (getK (\<lambda>s. chans s 0)) (\<lambda>chan.
       seqK (BUG_ON (chan = 0)) (
       seqK (exec ''sg_mark_end'' [sg_src, int (mp_pending m) - 1]) (
       seqK (exec ''sg_mark_end'' [sg_dst, int (mp_pending m) - 1]) (
       seqK (upd_pg t (mp_pending m) (\<lambda>d. d\<lparr>page := 0\<rparr>)) (
       bindK (call ''device_prep_dma_sg'' (chan # int (mp_pending m) # int (mp_pending m) # 1
               # sg_args (snd (mp_sg m)) @ sg_args (fst (mp_sg m)))) (\<lambda>tx.
       seqK (BUG_ON (tx = 0)) (
       seqK (exec ''tx->callback = dma_callback'' [tx, t]) (
       seqK (exec ''dmaengine_submit'' [tx]) (
       exec ''dma_async_issue_pending'' [chan]))))))))))) (
    seqK (whenK (\<not> swapwrite) (exec ''current->flags &= ~PF_SWAPWRITE'' [])) (
    seqK (exec ''kfree'' [sg_dst]) (
    seqK (exec ''kfree'' [sg_src]) (
    ret (if mp_out m then nomem else int (mp_failed m) + int (mp_retry m))))))))))))))))))))"

definition migrate_pages_ks2 :: "nat \<Rightarrow> migrate_mode \<Rightarrow> addr \<Rightarrow> int kern" where
  "migrate_pages_ks2 = migrate_pages_by do_unmap_and_move_ks2 mp_sg_add"

section \<open>Completion\<close>

text \<open>\<open>charge\<close> is what a driver does with the page's charge before it unlocks the old page.\<close>

definition dma_complete_one_by :: "(mig_pg_desc \<Rightarrow> unit kern) \<Rightarrow> addr \<Rightarrow> nat \<Rightarrow> unit kern" where
  "dma_complete_one_by charge t i = (bindK (get_pg t i) (\<lambda>d.
    let p = page d in
    let np = newpage d in
    seqK (copy_page_state np p) (
    seqK (whenK (remap_swapcache d \<noteq> 0) (remove_migration_ptes p np)) (
    seqK (upd_page p (\<lambda>P. P\<lparr>pg_mapping := 0\<rparr>)) (
    seqK (exec ''unlock_page'' [np]) (
    seqK (whenK (anon_vma d \<noteq> 0) (exec ''put_anon_vma'' [anon_vma d])) (
    seqK (charge d) (
    seqK (exec ''unlock_page'' [p]) (
    seqK (list_del p) (
    bindK (call ''page_is_file_cache'' [p]) (\<lambda>fc.
    seqK (exec ''dec_zone_page_state NR_ISOLATED_ANON'' [p, fc]) (
    seqK (exec ''putback_lru_page'' [p]) (
    exec ''putback_lru_page'' [np])))))))))))))"

definition dma_complete_one :: "addr \<Rightarrow> nat \<Rightarrow> unit kern" where
  "dma_complete_one = dma_complete_one_by (\<lambda>d. ret ())"

text \<open>The result is false when the race is detected.\<close>

definition dma_complete_one_mig :: "addr \<Rightarrow> nat \<Rightarrow> bool kern" where
  "dma_complete_one_mig t i = (bindK (get_pg t i) (\<lambda>d.
    let p = page d in
    let np = newpage d in
    bindK (call ''pte_mkold'' [pte d]) (\<lambda>old.
    bindK (callb ''__sync_bool_compare_and_swap'' [ptep d, pte d, old]) (\<lambda>ok.
    if \<not> ok then ret False
     else (seqK (copy_page_state np p) (
       seqK (upd_page p (\<lambda>P. P\<lparr>pg_mapping := 0\<rparr>)) (
       seqK (exec ''unlock_page'' [np]) (
       seqK (exec ''unlock_page'' [p]) (
       bindK (getK g_huge_page) (\<lambda>huge.
       seqK (if huge = 0 then (seqK (list_del p) (
         bindK (call ''page_is_file_cache'' [p]) (\<lambda>fc.
         seqK (exec ''dec_zone_page_state NR_ISOLATED_ANON'' [p, fc]) (
         seqK (exec ''putback_lru_page'' [p]) (
         exec ''putback_lru_page'' [np])))))
       else (seqK (exec ''putback_active_hugepage'' [p]) (
         seqK (exec ''hugetlb_cgroup_migrate'' [p, np]) (
         exec ''putback_active_hugepage'' [np])))) (
       ret True)))))))))))"

section \<open>Page locks\<close>

text \<open>
  The balance of the lock of page \<open>q\<close>.  The \<^verbatim>\<open>writepage\<close> method of an address space unlocks the
  page unless it returns \<^verbatim>\<open>AOP_WRITEPAGE_ACTIVATE\<close>.
\<close>

definition lock_w :: "addr \<Rightarrow> kevent \<Rightarrow> int" where
  "lock_w q = (\<lambda>(f, xs, v).
     if f = ''trylock_page'' then of_bool (xs = [q] \<and> v \<noteq> 0)
     else if f = ''lock_page'' then of_bool (xs = [q])
     else if f = ''unlock_page'' then - of_bool (xs = [q])
     else if f = ''mapping->a_ops->writepage'' then - of_bool (tl xs = [q] \<and> v \<noteq> AOP_WRITEPAGE_ACTIVATE)
     else 0)"

lemma lock_w_simps [simp]:
  "lock_w q (''trylock_page'', [p], v) = of_bool (p = q \<and> v \<noteq> 0)"
  "lock_w q (''lock_page'', [p], v) = of_bool (p = q)"
  "lock_w q (''unlock_page'', [p], v) = - of_bool (p = q)"
  "lock_w q (''mapping->a_ops->writepage'', [m, p], v) = - of_bool (p = q \<and> v \<noteq> AOP_WRITEPAGE_ACTIVATE)"
  "f \<noteq> ''trylock_page'' \<Longrightarrow> f \<noteq> ''lock_page'' \<Longrightarrow> f \<noteq> ''unlock_page'' \<Longrightarrow>
   f \<noteq> ''mapping->a_ops->writepage'' \<Longrightarrow> lock_w q (f, xs, v) = 0"
  by (simp_all add: lock_w_def)

text \<open>The calls that any of the balances of this development counts; a weight of only these is quiet elsewhere.\<close>

definition page_calls :: "string list" where
  "page_calls = [''trylock_page'', ''lock_page'', ''unlock_page'', ''mapping->a_ops->writepage'',
     ''mem_cgroup_prepare_migration'', ''mem_cgroup_end_migration'', ''__sync_bool_compare_and_swap'']"

definition page_weight :: "(kevent \<Rightarrow> int) \<Rightarrow> bool" where
  "page_weight w \<longleftrightarrow> (\<forall>f xs v. f \<notin> set page_calls \<longrightarrow> w (f, xs, v) = 0)"

lemma page_weight_lock [simp]: "page_weight (lock_w q)"
  by (simp add: page_weight_def page_calls_def)

lemma page_weightD: "page_weight w \<Longrightarrow> f \<notin> set page_calls \<Longrightarrow> w (f, xs, v) = 0"
  by (simp add: page_weight_def)

lemma quiet_page_parts [simp]:
  assumes w: "page_weight w"
  shows "quiet w (remove_migration_ptes o1 n1)" "quiet w (lock_ring n hb bh)" "quiet w (unlock_until m fl bh)"
    "quiet w (dma_wait n ch c)" "quiet w (copy_gigantic_loop i k d s db sb)" "quiet w (copy_page_state np p)"
    "quiet w (copy_huge_page d s)" "quiet w (pin_anon_vma p)" "quiet w (locate_mig_pte np mm a)" "quiet w (add_rmap np v a)"
proof -
  note W = page_weightD [OF w, unfolded page_calls_def]
  have parts: "quiet w (locate_mig_pte np mm a)" "quiet w (add_rmap np v a)" for np mm a v
    by (simp_all add: locate_mig_pte_def add_rmap_def W)
  then show "quiet w (locate_mig_pte np mm a)" "quiet w (add_rmap np v a)" by simp_all
  show "quiet w (remove_migration_ptes o1 n1)"
    by (simp add: remove_migration_ptes_def remove_migration_pte_def parts W)
  show "quiet w (lock_ring n hb bh)" by (induction n arbitrary: bh) (simp_all add: W)
  show "quiet w (unlock_until m fl bh)" by (induction m arbitrary: bh) (simp_all add: W)
  show "quiet w (dma_wait n ch c)" by (induction n) (simp_all add: W)
  have gigantic: "quiet w (copy_gigantic_loop i k d s db sb)" for i k d s db sb
    by (induction k arbitrary: i d s) (simp_all add: W)
  then show "quiet w (copy_gigantic_loop i k d s db sb)" .
  show "quiet w (copy_page_state np p)" by (simp add: copy_page_state_def move_flag_def W)
  show "quiet w (copy_huge_page d s)"
    by (simp add: copy_huge_page_def copy_gigantic_page_def gigantic Let_def W)
  show "quiet w (pin_anon_vma p)" by (simp add: pin_anon_vma_def W)
qed

lemma quiet_page_trylock_ring [simp]: "page_weight w \<Longrightarrow> quiet w (trylock_ring n m hb bh)"
  by (induction n arbitrary: bh) (simp_all add: page_weightD page_calls_def)

lemma quiet_page_slot [simp]:
  "page_weight w \<Longrightarrow> quiet w (freeze_slot n mapping p hb mode base)"
  "page_weight w \<Longrightarrow> quiet w (take_cache_ref np p)"
  by (simp_all add: freeze_slot_def take_cache_ref_def buffer_migrate_lock_buffers_def Let_def page_weightD page_calls_def)

lemma quiet_page_copy [simp]:
  assumes "page_weight w" and "\<And>a b. quiet w (hc a b)" and "\<And>a b. quiet w (dc a b)"
  shows "quiet w (migrate_page_copy_by hc dc np p u)"
  using assms by (simp add: migrate_page_copy_by_def page_weightD page_calls_def)

lemma quiet_page_dma [simp]:
  "page_weight w \<Longrightarrow> quiet w ini \<Longrightarrow> quiet w (copy_page_dma_sync_by ini n np p)"
  by (simp add: copy_page_dma_sync_by_def page_weightD page_calls_def)

lemma quiet_page_migrate [simp]: "page_weight w \<Longrightarrow> quiet w (migrate_page_ks2 n mapping np p mode)"
  by (simp add: migrate_page_ks2_def migrate_page_move_mapping_def copy_identity_def move_zone_stats_def
      migrate_page_copy_ks2_def copy_page_dma_sync_def init_dma_chan_def page_weightD page_calls_def)

lemma quiet_lock_writeout [simp]: "quiet (lock_w q) (writeout mapping p)"
proof -
  have "quiet (lock_w q) (bindK (call ''mapping->a_ops->writepage'' [mapping, p] :: int kern) (\<lambda>rc.
      seqK (whenK (rc \<noteq> AOP_WRITEPAGE_ACTIVATE) (exec ''lock_page'' [p])) (ret (if rc < 0 then EIO else EAGAIN))))"
    by (rule shifts_call_bind) (simp add: whenK_def)
  then show ?thesis by (simp add: writeout_def)
qed

lemma quiet_lock_fallback [simp]:
  "quiet (lock_w q) (mv mapping np p mode) \<Longrightarrow> quiet (lock_w q) (fallback_migrate_page_by mv mapping np p mode)"
  by (simp add: fallback_migrate_page_by_def)

lemma quiet_lock_call_rc [simp]:
  "(\<And>v. w (c, xs, v) = 0) \<Longrightarrow> quiet w (call_rc c xs)"
  by (simp add: call_rc_def)

text \<open>A move leaves the new page locked exactly when it is pending.\<close>

lemma lock_move_to_new_page:
  assumes "\<And>mapping np p mode. quiet (lock_w q) (mv mapping np p mode)"
  shows "shifts (lock_w q) (move_to_new_page_by mv np p remap mode) (\<lambda>rc. of_bool (rc = PENDING \<and> np = q))"
proof -
  have 1: "shifts (lock_w q) (if rc = PENDING then ret rc
     else seqK (if rc \<noteq> SUCCESS then upd_page np f
                else seqK (whenK remap (remove_migration_ptes p np)) (upd_page p g))
            (seqK (exec ''unlock_page'' [np]) (ret rc)))
     (\<lambda>rc. of_bool (rc = PENDING \<and> np = q) - of_bool (np = q))" for rc f g
    by simp
  show ?thesis
    unfolding move_to_new_page_by_def
    by (rule shifts_callb_bind) (simp add: 1 assms)
qed

definition pending_locks :: "addr \<Rightarrow> addr \<Rightarrow> addr \<Rightarrow> rc \<Rightarrow> int" where
  "pending_locks q p np rc = of_bool (rc = PENDING \<and> np = q) + of_bool (rc = PENDING \<and> p = q)"

text \<open>\<open>ends m P\<close>: a run that returns ends with \<open>P\<close>.\<close>

definition ends :: "'a kern \<Rightarrow> ('a \<Rightarrow> kst \<Rightarrow> bool) \<Rightarrow> bool" where
  "ends m P \<longleftrightarrow> (\<forall>s x s1. m s = Inr (x, s1) \<longrightarrow> P x s1)"

lemma ends_rules [simp]:
  "(\<And>x. ends (f x) P) \<Longrightarrow> ends (bindK m1 f) P"
  "ends n P \<Longrightarrow> ends (seqK m2 n) P"
  "ends m P \<Longrightarrow> ends n P \<Longrightarrow> ends (if b then m else n) P"
  "(\<And>s. P x s) \<Longrightarrow> ends (ret x) P" "ends (failK e) P"
  "ends m P \<Longrightarrow> (\<And>y. ends (h y) P) \<Longrightarrow> ends (case o1 of None \<Rightarrow> m | Some x \<Rightarrow> h x) P"
  "(\<And>a b. ends (h2 a b) P) \<Longrightarrow> ends (case p of (a, b) \<Rightarrow> h2 a b) P"
  by (auto simp: ends_def bindK_eq_Inr seqK_eq_Inr split: option.splits prod.splits if_splits)

text \<open>The code at \<^verbatim>\<open>uncharge\<close> unlocks the old page and returns its argument.\<close>

definition releases :: "(rc \<Rightarrow> rc kern) \<Rightarrow> addr \<Rightarrow> addr \<Rightarrow> bool" where
  "releases fin q p \<longleftrightarrow> (\<forall>rc. shifts (lock_w q) (fin rc) (\<lambda>_. - of_bool (p = q)) \<and> ends (fin rc) (\<lambda>x _. x = rc))"

lemma releases_uncharge [simp]: "releases (uncharge p) q p"
  by (simp add: releases_def uncharge_def)

lemma releases_lock:
  assumes "releases fin q p" and "rc \<noteq> PENDING"
  shows "shifts (lock_w q) (fin rc) (\<lambda>r. pending_locks q p np r - of_bool (p = q))"
proof -
  have "shifts (lock_w q) (fin rc) (\<lambda>_. - of_bool (p = q))" "ends (fin rc) (\<lambda>x _. x = rc)"
    using assms(1) by (simp_all add: releases_def)
  then show ?thesis
    using assms(2) unfolding shifts_def ends_def pending_locks_def by fastforce
qed

lemma lock_move_unmapped:
  assumes m: "\<And>mapping np p mode. quiet (lock_w q) (mv mapping np p mode)" and f: "releases fin q p"
  shows "shifts (lock_w q) (move_unmapped mv fin p np mode t i av remap) (\<lambda>rc. pending_locks q p np rc - of_bool (p = q))"
proof -
  have 1: "shifts (lock_w q) (if rc = PENDING then ret rc
      else seqK (whenK (rc \<noteq> SUCCESS \<and> remap) (remove_migration_ptes p p))
        (seqK (whenK (av \<noteq> 0) (exec ''put_anon_vma'' [av])) (fin rc)))
     (\<lambda>y. pending_locks q p np y - of_bool (p = q) - of_bool (rc = PENDING \<and> np = q))" for rc
    using releases_lock [OF f, of rc np] by (simp add: pending_locks_def)
  have 2: "shifts (lock_w q) (if \<not> mapped
      then seqK (upd_pg t i g) (move_to_new_page_by mv np p remap mode) else ret EAGAIN)
     (\<lambda>rc. of_bool (rc = PENDING \<and> np = q))" for mapped g
    by (simp add: lock_move_to_new_page m)
  show ?thesis
    unfolding move_unmapped_def
    by (rule shifts_step(1), simp, rule shifts_bindK [OF 2 1])
qed

lemma shifts_call_rc_bind:
  assumes "\<And>v. w (c, xs, v) = 0" and "\<And>v. shifts w (f (kernel_rc v)) E"
  shows "shifts w (bindK (call_rc c xs) f) E"
  using assms unfolding shifts_def by (auto simp: call_rc_def bindK_eq_Inr call_run weight_def)

lemma lock_unmap_locked:
  assumes m: "\<And>mapping np p mode. quiet (lock_w q) (mv mapping np p mode)" and f: "releases fin q p"
  shows "shifts (lock_w q) (unmap_locked mv fin p np force mode t i) (\<lambda>rc. pending_locks q p np rc - of_bool (p = q))"
proof -
  have np: "kernel_rc v \<noteq> PENDING" for v by (simp add: kernel_rc_def)
  have "shifts (lock_w q) (bindK (call_rc ''balloon_page_migrate'' [np, p, a]) fin)
      (\<lambda>rc. pending_locks q p np rc - of_bool (p = q))" for a
    by (rule shifts_call_rc_bind) (simp_all add: releases_lock [OF f np])
  then show ?thesis
    unfolding unmap_locked_def by (simp add: lock_move_unmapped m f releases_lock [OF f])
qed

text \<open>An attempt takes and releases the lock of each page, unless it is pending: then both stay locked.\<close>

lemma lock_do_unmap_and_move_by:
  assumes "shifts (lock_w q) locked (\<lambda>rc. pending_locks q p np rc - of_bool (p = q))"
  shows "shifts (lock_w q) (do_unmap_and_move_by locked p force mode) (pending_locks q p np)"
  unfolding do_unmap_and_move_by_def
  using assms by (intro shifts_callb_bind) (simp add: pending_locks_def)

lemma lock_do_unmap_and_move:
  "shifts (lock_w q) (do_unmap_and_move_ks2 n p np force mode t i) (pending_locks q p np)"
  unfolding do_unmap_and_move_ks2_def
  by (intro lock_do_unmap_and_move_by lock_unmap_locked) simp_all

section \<open>The table entry of a pending page\<close>

lemma keeps_tables_parts [simp]:
  "keeps tables (locate_mig_pte np mm a)" "keeps tables (add_rmap np v a)"
  "keeps tables (copy_identity np p)" "keeps tables (move_zone_stats mp p z1 z2 d)"
  "keeps tables (move_flag tst st np p)"
  by (simp_all add: locate_mig_pte_def add_rmap_def copy_identity_def move_zone_stats_def move_flag_def)

lemma keeps_tables_remove [simp]: "keeps tables (remove_migration_ptes o1 n1)"
  by (simp add: remove_migration_ptes_def remove_migration_pte_def)

lemma keeps_tables_rings [simp]:
  "keeps tables (lock_ring n hb bh)" "keeps tables (unlock_until m fl bh2)"
proof -
  show "keeps tables (lock_ring n hb bh)" by (induction n arbitrary: bh) simp_all
  show "keeps tables (unlock_until m fl bh2)" by (induction m arbitrary: bh2) simp_all
qed

lemma keeps_tables_trylock_ring [simp]: "keeps tables (trylock_ring n m hb bh)"
  by (induction n arbitrary: bh) simp_all

lemma keeps_tables_mapping [simp]: "keeps tables (migrate_page_move_mapping n mapping np p hb mode ex)"
  by (simp add: migrate_page_move_mapping_def freeze_slot_def take_cache_ref_def buffer_migrate_lock_buffers_def Let_def)

lemma keeps_tables_copy_parts [simp]:
  "keeps tables (dma_wait n ch c)" "keeps tables (copy_gigantic_loop i k d s db sb)"
proof -
  show "keeps tables (dma_wait n ch c)" by (induction n) simp_all
  show "keeps tables (copy_gigantic_loop i k d s db sb)"
    by (induction k arbitrary: i d s) simp_all
qed

lemma keeps_tables_state [simp]: "keeps tables (copy_page_state np p)" "keeps tables (copy_huge_page d s)"
  by (simp_all add: copy_page_state_def copy_huge_page_def copy_gigantic_page_def Let_def)

lemma keeps_tables_copy [simp]: "keeps tables (migrate_page_copy_ks2 n np p u)"
  by (simp add: migrate_page_copy_ks2_def migrate_page_copy_by_def copy_page_dma_sync_def copy_page_dma_sync_by_def
      init_dma_chan_def keeps_modK)

lemma keeps_tables_migrate [simp]: "keeps tables (migrate_page_ks2 n mapping np p mode)"
  by (simp add: migrate_page_ks2_def)

lemma keeps_tables_move [simp]:
  "(\<And>mapping np p mode. keeps tables (mv mapping np p mode)) \<Longrightarrow> keeps tables (move_to_new_page_by mv np p remap mode)"
  by (simp add: move_to_new_page_by_def fallback_migrate_page_by_def writeout_def call_rc_def)

definition entry_is :: "addr \<Rightarrow> nat \<Rightarrow> addr \<Rightarrow> addr \<Rightarrow> rc \<Rightarrow> kst \<Rightarrow> bool" where
  "entry_is t i p np rc s \<longleftrightarrow>
     rc = PENDING \<longrightarrow> page (pg_desc (tables s t) i) = p \<and> newpage (pg_desc (tables s t) i) = np"

lemma entry_is_other [simp]: "rc \<noteq> PENDING \<Longrightarrow> entry_is t i p np rc s"
  by (simp add: entry_is_def)

lemma ends_move_unmapped [simp]:
  assumes m: "\<And>mapping np p mode. keeps tables (mv mapping np p mode)" and f: "\<And>rc. ends (fin rc) (\<lambda>x _. x = rc)"
  shows "ends (move_unmapped mv fin p np mode t i av remap) (entry_is t i p np)"
  unfolding ends_def
proof (intro allI impI)
  fix s rc s1
  assume run: "move_unmapped mv fin p np mode t i av remap s = Inr (rc, s1)"
  show "entry_is t i p np rc s1"
    unfolding entry_is_def
  proof
    assume pe: "rc = PENDING"
    let ?upd = "upd_pg t i (\<lambda>d. d\<lparr>page := p, newpage := np, anon_vma := av, remap_swapcache := of_bool remap\<rparr>)"
    obtain m r2 s3 s2 where
      r: "(if \<not> m then seqK ?upd (move_to_new_page_by mv np p remap mode) else ret EAGAIN) s3 = Inr (r2, s2)"
      and e: "(if r2 = PENDING then ret r2 else seqK (whenK (r2 \<noteq> SUCCESS \<and> remap) (remove_migration_ptes p p))
        (seqK (whenK (av \<noteq> 0) (exec ''put_anon_vma'' [av])) (fin r2))) s2 = Inr (rc, s1)"
      using run unfolding move_unmapped_def by (auto simp: bindK_eq_Inr)
    have "r2 = rc" using e f [of r2] unfolding ends_def by (auto simp: seqK_eq_Inr split: if_splits)
    then have e1: "r2 = PENDING" "s2 = s1" "\<not> m" using pe e r by (auto split: if_splits)
    then obtain s4 u where "?upd s3 = Inr (u, s4)" and mvd: "move_to_new_page_by mv np p remap mode s4 = Inr (PENDING, s1)"
      using r by (auto simp: seqK_eq_Inr)
    then have "page (pg_desc (tables s4 t) i) = p" "newpage (pg_desc (tables s4 t) i) = np"
      by (auto simp: upd_pg_def upd_table_def split: if_splits)
    then show "page (pg_desc (tables s1 t) i) = p \<and> newpage (pg_desc (tables s1 t) i) = np"
      using keepsD [OF keeps_tables_move [OF m] mvd] by simp
  qed
qed

lemma ends_fin:
  assumes "\<And>rc. ends (fin rc) (\<lambda>x _. x = rc)"
  shows "rc \<noteq> PENDING \<Longrightarrow> ends (fin rc) (entry_is t i q np)" "ends (bindK (call_rc c xs) fin) (entry_is t i q np)"
proof -
  show 1: "ends (fin rc) (entry_is t i q np)" if "rc \<noteq> PENDING" for rc
    using assms [of rc] that unfolding ends_def entry_is_def by blast
  have "kernel_rc v \<noteq> PENDING" for v by (simp add: kernel_rc_def)
  then have "ends (fin (kernel_rc v)) (entry_is t i q np)" for v by (rule 1)
  then show "ends (bindK (call_rc c xs) fin) (entry_is t i q np)"
    unfolding call_rc_def by (simp add: ends_def bindK_eq_Inr) blast
qed

lemma ends_do_unmap_and_move_by:
  "ends locked (entry_is t i p np) \<Longrightarrow> ends (do_unmap_and_move_by locked p force mode) (entry_is t i p np)"
  by (simp add: do_unmap_and_move_by_def)

lemma ends_unmap_locked:
  assumes m: "\<And>mapping np p mode. keeps tables (mv mapping np p mode)" and f: "\<And>rc. ends (fin rc) (\<lambda>x _. x = rc)"
  shows "ends (unmap_locked mv fin p np force mode t i) (entry_is t i p np)"
  by (simp add: unmap_locked_def m f ends_fin [OF f])

lemma ends_do_unmap_and_move: "ends (do_unmap_and_move_ks2 n p np force mode t i) (entry_is t i p np)"
  unfolding do_unmap_and_move_ks2_def
  by (intro ends_do_unmap_and_move_by ends_unmap_locked) (simp_all add: uncharge_def)

section \<open>Completion releases\<close>

lemma quiet_list_del [simp]: "quiet w (list_del p)"
  by (simp add: list_del_def)

definition entry_locks :: "addr \<Rightarrow> mig_pg_desc \<Rightarrow> int" where
  "entry_locks q d = of_bool (newpage d = q) + of_bool (page d = q)"

lemma lock_dma_complete_one_by:
  assumes "dma_complete_one_by charge t i s = Inr (x, s1)" and "\<And>d. quiet (lock_w q) (charge d)"
  shows "weight (lock_w q) s1 = weight (lock_w q) s - entry_locks q (pg_desc (tables s t) i)"
proof -
  let ?d = "pg_desc (tables s t) i"
  let ?rest = "\<lambda>d. let p = page d in let np = newpage d in
     seqK (copy_page_state np p) (seqK (whenK (remap_swapcache d \<noteq> 0) (remove_migration_ptes p np))
      (seqK (upd_page p (\<lambda>P. P\<lparr>pg_mapping := 0\<rparr>)) (seqK (exec ''unlock_page'' [np])
      (seqK (whenK (anon_vma d \<noteq> 0) (exec ''put_anon_vma'' [anon_vma d])) (seqK (charge d) (seqK (exec ''unlock_page'' [p])
      (seqK (list_del p) (bindK (call ''page_is_file_cache'' [p]) (\<lambda>fc.
       seqK (exec ''dec_zone_page_state NR_ISOLATED_ANON'' [p, fc])
      (seqK (exec ''putback_lru_page'' [p]) (exec ''putback_lru_page'' [np])))))))))))"
  have "?rest ?d s = Inr (x, s1)"
    using assms(1) unfolding dma_complete_one_by_def by (auto simp: bindK_eq_Inr get_pg_def split: if_splits)
  moreover have "shifts (lock_w q) (?rest ?d) (\<lambda>_. - entry_locks q ?d)"
    by (simp add: Let_def entry_locks_def shifts_exec assms(2))
  ultimately show ?thesis
    using shiftsD by force
qed

lemma lock_dma_complete_one:
  assumes "dma_complete_one t i s = Inr (x, s1)"
  shows "weight (lock_w q) s1 = weight (lock_w q) s - entry_locks q (pg_desc (tables s t) i)"
  using lock_dma_complete_one_by [OF assms [unfolded dma_complete_one_def]] by simp

section \<open>Direct migration\<close>

lemma quiet_lock_mig_parts [simp]:
  "quiet (lock_w q) (install_new_pte t i np v a)" "quiet (lock_w q) (mig_isolate t h p)"
  "quiet (lock_w q) (mig_new_page r d h p)" "quiet (lock_w q) (sg_add h n p p2 sgl)"
  by (cases sgl; simp add: install_new_pte_def mig_isolate_def mig_new_page_def sg_add_def locate_new_pte_def Let_def)+

text \<open>The set-up of page \<open>j\<close> locks the old and the new page.\<close>

lemma lock_mig_switch:
  "shifts (lock_w q) (mig_switch t j p np) (\<lambda>_. of_bool (p = q) + of_bool (np = q))"
  unfolding mig_switch_def
  apply (rule shifts_callb_bind, rule shifts_BUG_ON)
  apply (rule shifts_step(1), simp)+
  apply (rule shifts_step(2), simp)
  apply (rule shifts_step(1), simp)
  apply (rule shifts_step(2), simp)
  apply (rule shifts_callb_bind, rule shifts_BUG_ON)
  apply simp
  done

text \<open>The entry that \<^verbatim>\<open>dma_complete_one_mig\<close> is given: its two pages are unlocked unless the race is detected.\<close>

lemma lock_dma_complete_one_mig:
  assumes "dma_complete_one_mig t i s = Inr (ok, s1)"
  shows "weight (lock_w q) s1 = weight (lock_w q) s - (if ok then entry_locks q (pg_desc (tables s t) i) else 0)"
proof -
  let ?d = "pg_desc (tables s t) i"
  let ?rest = "\<lambda>d. let p = page d in let np = newpage d in
     bindK (call ''pte_mkold'' [pte d]) (\<lambda>old.
     bindK (callb ''__sync_bool_compare_and_swap'' [ptep d, pte d, old]) (\<lambda>ok.
     if \<not> ok then ret False else
      seqK (copy_page_state np p) (seqK (upd_page p (\<lambda>P. P\<lparr>pg_mapping := 0\<rparr>))
      (seqK (exec ''unlock_page'' [np]) (seqK (exec ''unlock_page'' [p])
      (bindK (getK g_huge_page) (\<lambda>huge.
       seqK (if huge = 0 then seqK (list_del p) (bindK (call ''page_is_file_cache'' [p]) (\<lambda>fc.
               seqK (exec ''dec_zone_page_state NR_ISOLATED_ANON'' [p, fc])
               (seqK (exec ''putback_lru_page'' [p]) (exec ''putback_lru_page'' [np]))))
             else seqK (exec ''putback_active_hugepage'' [p])
               (seqK (exec ''hugetlb_cgroup_migrate'' [p, np]) (exec ''putback_active_hugepage'' [np])))
        (ret True))))))))"
  have "?rest ?d s = Inr (ok, s1)"
    using assms unfolding dma_complete_one_mig_def by (auto simp: bindK_eq_Inr get_pg_def split: if_splits)
  moreover have "shifts (lock_w q) (?rest ?d) (\<lambda>ok. - (if ok then entry_locks q ?d else 0))"
    by (simp add: Let_def entry_locks_def)
  ultimately show ?thesis
    using shiftsD by force
qed

end
