(* ===== verification/DrvUsers.thy ===== *)
theory DrvUsers
  imports Kernel
begin

text \<open>
  The driver's queue operations in the presence of user threads.  A step lets the users' next
  chunk of actions run and then performs one library operation; the lemmas give the outcome of
  each step from the contract of the library (the interpretations of theory MigRegion), as long
  as the users leave one descriptor on the free list.
\<close>

section \<open>Bounds on what users do\<close>

definition is_submit :: "uact \<Rightarrow> bool" where
  "is_submit a = (case a of Submit src dst ord \<Rightarrow> True | Reap \<Rightarrow> False)"

definition submits :: "uact list \<Rightarrow> nat" where
  "submits as = length (filter is_submit as)"

definition todo :: "kst \<Rightarrow> addr \<Rightarrow> nat" where
  "todo s r = sum_list (map submits (sched s r))"

section \<open>What users can do between two steps of the driver\<close>

definition rest :: "kst \<Rightarrow> (addr \<Rightarrow> mig_table) \<times> (addr \<Rightarrow> mig_table \<Rightarrow> mig_table) \<times> (addr \<Rightarrow> mmap_info)
    \<times> (addr \<Rightarrow> kpage) \<times> (int \<Rightarrow> addr) \<times> int \<times> nat \<times> kevent list \<times> (kevent list \<Rightarrow> string \<Rightarrow> int list \<Rightarrow> int)" where
  "rest s = (tables s, after_free s, infos s, pages s, chans s, g_huge_page s, max_nr_sg s, hist s, answer s)"

definition on_q :: "kst \<Rightarrow> addr \<Rightarrow> qid \<Rightarrow> words2 list" where
  "on_q s r q = contents (regs s r) q"

definition clr :: "kst \<Rightarrow> addr \<Rightarrow> color_t" where
  "clr s r = color_of (regs s r) Qreq"

text \<open>
  The device is sound: its region is well formed, the driver holds the descriptors \<open>own\<close>, and
  whatever the users still submit, a free descriptor is left for the replica of a dequeue.
\<close>

definition dev_ok :: "addr \<Rightarrow> desc_p set \<Rightarrow> kst \<Rightarrow> bool" where
  "dev_ok r own s \<longleftrightarrow> wf_region (regs s r) own \<and> todo s r < nfree (regs s r)"

text \<open>The users' part of a step: requests \<open>us\<close> appended to \<open>qreq\<close>, completions taken from \<open>qcomp\<close>.\<close>

definition users_ran :: "addr \<Rightarrow> desc_p set \<Rightarrow> kst \<Rightarrow> kst \<Rightarrow> bool" where
  "users_ran r own s s1 \<longleftrightarrow> dev_ok r own s1 \<and> rest s1 = rest s
     \<and> on_q s1 r Qissued = on_q s r Qissued \<and> clr s1 r = clr s r
     \<and> (\<forall>x\<in>own. payload (regs s1 r) x = payload (regs s r) x)
     \<and> log_reap s1 r @ on_q s1 r Qcomp = log_reap s r @ on_q s r Qcomp
     \<and> (\<exists>us. log_sub s1 r = log_sub s r @ us \<and> on_q s1 r Qreq = on_q s r Qreq @ us
          \<and> todo s1 r + length us \<le> todo s r)"

lemma user_act_ok:
  assumes wf: "wf_region R own" and room: "submits [a] < nfree R"
  shows "\<exists>us vs R1. user_act a R = (us, vs, R1) \<and> wf_region R1 own
    \<and> contents R1 Qreq = contents R Qreq @ us \<and> vs @ contents R1 Qcomp = contents R Qcomp
    \<and> contents R1 Qissued = contents R Qissued \<and> color_of R1 Qreq = color_of R Qreq
    \<and> (\<forall>x\<in>own. payload R1 x = payload R x) \<and> nfree R \<le> nfree R1 + submits [a]
    \<and> length us \<le> submits [a]"
proof (cases a)
  case (Submit src dst ord)
  have p: "0 < nfree R" using room by simp
  obtain w R1 where s: "user_submit src dst ord R = Inr ([w], R1)" "wf_region R1 own"
    "contents R1 Qreq = contents R Qreq @ [w]" "nfree R = Suc (nfree R1)"
    "\<forall>q\<in>set live_qs. q \<noteq> Qreq \<longrightarrow> contents R1 q = contents R q"
    "\<forall>q\<in>set live_qs. color_of R1 q = color_of R q" "\<forall>x\<in>own. payload R1 x = payload R x"
    using user_submit_ok [OF wf p, of src dst ord] by blast
  show ?thesis
    by (rule exI [of _ "[w]"], rule exI [of _ "[]"], rule exI [of _ R1])
      (use s in \<open>simp add: Submit user_act_def submits_def is_submit_def\<close>)
next
  case Reap
  show ?thesis
  proof (cases "contents R Qcomp")
    case Nil
    then show ?thesis
      using user_reap_none [OF wf Nil] wf by (simp add: Reap user_act_def submits_def)
  next
    case (Cons w ws)
    have p: "0 < nfree R" using room by simp
    obtain R1 where s: "user_reap R = Inr ([w], R1)" "wf_region R1 own" "contents R1 Qcomp = ws"
      "nfree R1 = Suc (nfree R)"
      "\<forall>q\<in>set live_qs. q \<noteq> Qcomp \<longrightarrow> contents R1 q = contents R q"
      "\<forall>q\<in>set live_qs. color_of R1 q = color_of R q" "\<forall>x\<in>own. payload R1 x = payload R x"
      using user_reap_ok [OF wf Cons p] by blast
    show ?thesis
      by (rule exI [of _ "[]"], rule exI [of _ "[w]"], rule exI [of _ R1])
        (use s Cons in \<open>simp add: Reap user_act_def submits_def is_submit_def\<close>)
  qed
qed

lemma submits_Cons: "submits (a # as) = submits [a] + submits as"
  by (simp add: submits_def)

lemma user_acts_ok:
  assumes "wf_region R own" and "submits as < nfree R"
  shows "\<exists>us vs R1. user_acts as R = (us, vs, R1) \<and> wf_region R1 own
    \<and> contents R1 Qreq = contents R Qreq @ us \<and> vs @ contents R1 Qcomp = contents R Qcomp
    \<and> contents R1 Qissued = contents R Qissued \<and> color_of R1 Qreq = color_of R Qreq
    \<and> (\<forall>x\<in>own. payload R1 x = payload R x) \<and> nfree R \<le> nfree R1 + submits as
    \<and> length us \<le> submits as"
  using assms
proof (induction as arbitrary: R)
  case Nil
  then show ?case by (simp add: submits_def)
next
  case (Cons a as)
  have "submits [a] < nfree R" using Cons.prems(2) submits_Cons [of a as] by simp
  then obtain us vs R1 where 1: "user_act a R = (us, vs, R1)" "wf_region R1 own"
    "contents R1 Qreq = contents R Qreq @ us" "vs @ contents R1 Qcomp = contents R Qcomp"
    "contents R1 Qissued = contents R Qissued" "color_of R1 Qreq = color_of R Qreq"
    "\<forall>x\<in>own. payload R1 x = payload R x" "nfree R \<le> nfree R1 + submits [a]" "length us \<le> submits [a]"
    using user_act_ok [OF Cons.prems(1)] by blast
  have "submits as < nfree R1" using Cons.prems(2) 1(8) submits_Cons [of a as] by simp
  then obtain us' vs' R2 where 2: "user_acts as R1 = (us', vs', R2)" "wf_region R2 own"
    "contents R2 Qreq = contents R1 Qreq @ us'" "vs' @ contents R2 Qcomp = contents R1 Qcomp"
    "contents R2 Qissued = contents R1 Qissued" "color_of R2 Qreq = color_of R1 Qreq"
    "\<forall>x\<in>own. payload R2 x = payload R1 x" "nfree R1 \<le> nfree R2 + submits as" "length us' \<le> submits as"
    using Cons.IH [OF 1(2)] by blast
  show ?case
    by (rule exI [of _ "us @ us'"], rule exI [of _ "vs @ vs'"], rule exI [of _ R2])
      (use 1 2 submits_Cons [of a as] in simp)
qed

lemma todo_next: "todo s r = submits (next_chunk (sched s r)) + sum_list (map submits (tl (sched s r)))"
  by (cases "sched s r") (simp_all add: todo_def next_chunk_def submits_def)

lemma interfere_ok:
  assumes "dev_ok r own s"
  shows "\<exists>s1. interfere r s = Inr ((), s1) \<and> users_ran r own s s1"
proof -
  let ?c = "next_chunk (sched s r)"
  have wf: "wf_region (regs s r) own" and room: "submits ?c < nfree (regs s r)"
    using assms todo_next [of s r] by (simp_all add: dev_ok_def)
  obtain us vs R1 where 1: "user_acts ?c (regs s r) = (us, vs, R1)" "wf_region R1 own"
    "contents R1 Qreq = contents (regs s r) Qreq @ us" "vs @ contents R1 Qcomp = contents (regs s r) Qcomp"
    "contents R1 Qissued = contents (regs s r) Qissued" "color_of R1 Qreq = color_of (regs s r) Qreq"
    "\<forall>x\<in>own. payload R1 x = payload (regs s r) x" "nfree (regs s r) \<le> nfree R1 + submits ?c"
    "length us \<le> submits ?c"
    using user_acts_ok [OF wf room] by blast
  let ?s1 = "s\<lparr>regs := (regs s)(r := R1), sched := (sched s)(r := tl (sched s r)),
       log_sub := (log_sub s)(r := log_sub s r @ us), log_reap := (log_reap s)(r := log_reap s r @ vs)\<rparr>"
  have "todo ?s1 r + submits ?c = todo s r"
    using todo_next [of s r] by (simp add: todo_def)
  then have "users_ran r own s ?s1"
    using 1 assms by (simp add: users_ran_def dev_ok_def rest_def on_q_def clr_def)
  then show ?thesis using 1(1) by (simp add: interfere_def)
qed

section \<open>Queue operations of the driver: the users run, then the operation\<close>

text \<open>What an operation does not touch.\<close>

definition env_same :: "addr \<Rightarrow> kst \<Rightarrow> kst \<Rightarrow> bool" where
  "env_same r s s1 \<longleftrightarrow> rest s1 = rest s \<and> sched s1 = sched s \<and> log_sub s1 = log_sub s \<and> log_reap s1 = log_reap s"

lemma env_same_todo: "env_same r s s1 \<Longrightarrow> todo s1 r = todo s r"
  by (simp add: env_same_def todo_def)

lemma k_dequeue_ok:
  assumes ok: "dev_ok r own s" and q: "q \<in> set live_qs"
  shows "\<exists>s1 d s2. users_ran r own s s1 \<and> k_dequeue r q s = Inr (d, s2)
    \<and> (case d of None \<Rightarrow> on_q s1 r q = [] \<and> s2 = s1
       | Some p \<Rightarrow> p \<notin> own \<and> dev_ok r (insert p own) s2 \<and> env_same r s1 s2
           \<and> on_q s1 r q = payload (regs s2 r) p # on_q s2 r q
           \<and> (\<forall>q'\<in>set live_qs. q' \<noteq> q \<longrightarrow> on_q s2 r q' = on_q s1 r q') \<and> clr s2 r = clr s1 r
           \<and> (\<forall>x\<in>own. payload (regs s2 r) x = payload (regs s1 r) x))"
proof -
  obtain s1 where i: "interfere r s = Inr ((), s1)" "users_ran r own s s1"
    using interfere_ok [OF ok] by blast
  have ok1: "wf_region (regs s1 r) own" "todo s1 r < nfree (regs s1 r)"
    using i(2) by (simp_all add: users_ran_def dev_ok_def)
  show ?thesis
  proof (cases "on_q s1 r q")
    case Nil
    then have "mig_dequeue (regs s1 r) q = Inr (None, regs s1 r)"
      using mq.deq_none [OF ok1(1) q] by (simp add: on_q_def)
    then have "k_dequeue r q s = Inr (None, s1)"
      by (simp add: k_dequeue_def i(1) lib_op_def)
    then show ?thesis using i(2) Nil by force
  next
    case (Cons v vs)
    then have ne: "contents (regs s1 r) q \<noteq> []" "0 < nfree (regs s1 r)" using ok1(2) by (auto simp: on_q_def)
    obtain p R where d: "mig_dequeue (regs s1 r) q = Inr (Some p, R)" "p \<notin> own" "wf_region R (insert p own)"
      "contents (regs s1 r) q = payload R p # contents R q"
      "\<forall>q'\<in>set live_qs. q' \<noteq> q \<longrightarrow> contents R q' = contents (regs s1 r) q'"
      "\<forall>q'\<in>set live_qs. color_of R q' = color_of (regs s1 r) q'" "nfree R = nfree (regs s1 r)"
      "\<forall>x\<in>own. payload R x = payload (regs s1 r) x"
      using mq.deq_some [OF ok1(1) q ne] by blast
    let ?s2 = "s1\<lparr>regs := (regs s1)(r := R)\<rparr>"
    have "k_dequeue r q s = Inr (Some p, ?s2)"
      using d(1) by (simp add: k_dequeue_def i(1) lib_op_def)
    moreover have "dev_ok r (insert p own) ?s2"
      using d(3,7) ok1(2) by (simp add: dev_ok_def todo_def)
    moreover have "env_same r s1 ?s2" by (simp add: env_same_def rest_def)
    ultimately show ?thesis
      using i(2) d by (intro exI [of _ s1] exI [of _ "Some p"] exI [of _ ?s2]) (simp add: on_q_def clr_def)
  qed
qed

lemma k_enqueue_ok:
  assumes ok: "dev_ok r own s" and q: "q \<in> set live_qs" and p: "p \<in> own"
  shows "\<exists>s1 c s2. users_ran r own s s1 \<and> k_enqueue r q p s = Inr (c, s2)
    \<and> dev_ok r (own - {p}) s2 \<and> env_same r s1 s2
    \<and> on_q s2 r q = on_q s1 r q @ [payload (regs s1 r) p]
    \<and> (\<forall>q'\<in>set live_qs. q' \<noteq> q \<longrightarrow> on_q s2 r q' = on_q s1 r q') \<and> clr s2 r = clr s1 r
    \<and> (\<forall>x. payload (regs s2 r) x = payload (regs s1 r) x)"
proof -
  obtain s1 where i: "interfere r s = Inr ((), s1)" "users_ran r own s s1"
    using interfere_ok [OF ok] by blast
  have ok1: "wf_region (regs s1 r) own" "todo s1 r < nfree (regs s1 r)"
    using i(2) by (simp_all add: users_ran_def dev_ok_def)
  obtain R where e: "mig_enqueue (regs s1 r) q p = Inr (color_of (regs s1 r) q, R)"
    "wf_region R (own - {p})" "contents R q = contents (regs s1 r) q @ [payload (regs s1 r) p]"
    "\<forall>q'\<in>set live_qs. q' \<noteq> q \<longrightarrow> contents R q' = contents (regs s1 r) q'"
    "\<forall>q'\<in>set live_qs. color_of R q' = color_of (regs s1 r) q'" "nfree R = nfree (regs s1 r)"
    "\<forall>x. payload R x = payload (regs s1 r) x"
    using mq.enq_law [OF ok1(1) q p] by blast
  let ?s2 = "s1\<lparr>regs := (regs s1)(r := R)\<rparr>"
  have "k_enqueue r q p s = Inr (color_of (regs s1 r) q, ?s2)"
    using e(1) by (simp add: k_enqueue_def i(1) lib_op_def)
  moreover have "dev_ok r (own - {p}) ?s2"
    using e(2,6) ok1(2) by (simp add: dev_ok_def todo_def)
  moreover have "env_same r s1 ?s2" by (simp add: env_same_def rest_def)
  ultimately show ?thesis
    using i(2) e by (intro exI [of _ s1] exI [of _ "color_of (regs s1 r) q"] exI [of _ ?s2])
      (simp add: on_q_def clr_def)
qed

lemma k_set_color_ok:
  assumes ok: "dev_ok r own s" and c: "0 \<le> sint c"
  shows "\<exists>s1 c0 s2. users_ran r own s s1 \<and> k_set_color r Qreq c s = Inr (c0, s2)
    \<and> (if on_q s1 r Qreq = [] then c0 = clr s1 r \<and> c0 \<noteq> -1 \<and> clr s2 r = c else c0 = -1 \<and> s2 = s1)
    \<and> dev_ok r own s2 \<and> env_same r s1 s2 \<and> (\<forall>q\<in>set live_qs. on_q s2 r q = on_q s1 r q)
    \<and> (\<forall>x. payload (regs s2 r) x = payload (regs s1 r) x)"
proof -
  obtain s1 where i: "interfere r s = Inr ((), s1)" "users_ran r own s s1"
    using interfere_ok [OF ok] by blast
  have ok1: "wf_region (regs s1 r) own" "todo s1 r < nfree (regs s1 r)" "dev_ok r own s1"
    using i(2) by (simp_all add: users_ran_def dev_ok_def)
  show ?thesis
  proof (cases "on_q s1 r Qreq = []")
    case False
    then have "migqueue_set_color_if_empty (regs s1 r) Qreq c = Inr (-1, regs s1 r)"
      using mqc.setc_busy [OF ok1(1) qs_live(1)] by (simp add: on_q_def)
    then have "k_set_color r Qreq c s = Inr (-1, s1)"
      by (simp add: k_set_color_def i(1) lib_op_def)
    then show ?thesis using i(2) False ok1(3)
      by (intro exI [of _ s1] exI [of _ "-1"] exI [of _ s1]) (simp add: env_same_def)
  next
    case True
    then obtain R where e: "migqueue_set_color_if_empty (regs s1 r) Qreq c = Inr (color_of (regs s1 r) Qreq, R)"
      "wf_region R own" "color_of R Qreq = c" "\<forall>q'\<in>set live_qs. contents R q' = contents (regs s1 r) q'"
      "nfree R = nfree (regs s1 r)" "\<forall>x. payload R x = payload (regs s1 r) x"
      using mqc.setc_law [OF ok1(1) qs_live(1) _ c] by (auto simp: on_q_def)
    let ?s2 = "s1\<lparr>regs := (regs s1)(r := R)\<rparr>"
    have "k_set_color r Qreq c s = Inr (color_of (regs s1 r) Qreq, ?s2)"
      using e(1) by (simp add: k_set_color_def i(1) lib_op_def)
    moreover have "dev_ok r own ?s2" using e(2,5) ok1(2) by (simp add: dev_ok_def todo_def)
    moreover have "env_same r s1 ?s2" by (simp add: env_same_def rest_def)
    moreover have "color_of (regs s1 r) Qreq \<noteq> -1"
      using color_of_ok [OF ok1(1) qs_live(1)] by auto
    ultimately show ?thesis
      using i(2) e True by (intro exI [of _ s1] exI [of _ "color_of (regs s1 r) Qreq"] exI [of _ ?s2])
        (simp add: on_q_def clr_def)
  qed
qed

lemma k_color_ok:
  assumes ok: "dev_ok r own s"
  shows "\<exists>s1. users_ran r own s s1 \<and> k_color r Qreq s = Inr (clr s1 r, s1)"
proof -
  obtain s1 where i: "interfere r s = Inr ((), s1)" "users_ran r own s s1"
    using interfere_ok [OF ok] by blast
  have "wf_region (regs s1 r) own" using i(2) by (simp add: users_ran_def dev_ok_def)
  then have "migqueue_color (regs s1 r) Qreq = Inr (color_of (regs s1 r) Qreq)"
    using wf_regionD(3) [OF _ qs_live(1)] migqueue_color_ok by blast
  then have "k_color r Qreq s = Inr (clr s1 r, s1)"
    by (simp add: k_color_def i(1) lib_op_def clr_def)
  then show ?thesis using i(2) by blast
qed

end
