(* ===== verification/DrvQueue.thy ===== *)
theory DrvQueue
  imports DrvMove DrvUsers
begin

text \<open>
  The queue side of the driver (\<^verbatim>\<open>migrate-x86/migrate-x86.c\<close>): \<^verbatim>\<open>user_flush\<close>,
  \<^verbatim>\<open>kernel_flush_work\<close>, the DMA callbacks \<^verbatim>\<open>dma_callback_kthread\<close>, \<^verbatim>\<open>dma_callback_noremap\<close>,
  \<^verbatim>\<open>dma_callback\<close>, the workers \<^verbatim>\<open>do_dma_complete\<close> and \<^verbatim>\<open>dma_complete_work_noremap\<close>, and
  \<^verbatim>\<open>flush_single_qreq\<close> and \<^verbatim>\<open>flush_single_qreq_noremap2\<close>.

  The loops take fuel.  Their rounds are bounded by what can be on the queues: at most
  \<open>ndescs\<close> requests, and one more for each submission that the users still make.
\<close>

section \<open>Submission from the user's system call\<close>

definition flush_fuel :: "addr \<Rightarrow> kst \<Rightarrow> nat" where
  "flush_fuel r s = unat (ndescs (regs s r)) + todo s r + 2"

text \<open>\<^verbatim>\<open>while ((desc = mig_dequeue(qreq))) mig_enqueue(qissued, desc);\<close>\<close>

fun empty_qreq :: "nat \<Rightarrow> addr \<Rightarrow> unit kern" where
  "empty_qreq 0 r = failK Spin"
| "empty_qreq (Suc n) r = (bindK (k_dequeue r Qreq) (\<lambda>d.
  case d of None \<Rightarrow> ret ()
     | Some desc \<Rightarrow> seqK (k_enqueue r Qissued desc) (empty_qreq n r)))"

text \<open>The label \<^verbatim>\<open>again\<close>: repeat while descriptors were enqueued under us.\<close>

fun claim_qreq :: "nat \<Rightarrow> addr \<Rightarrow> color_t kern" where
  "claim_qreq 0 r = failK Spin"
| "claim_qreq (Suc n) r = (bindK (getK (flush_fuel r)) (\<lambda>fuel.
  seqK (empty_qreq fuel r) (
  bindK (k_set_color r Qreq COLOR_KER) (\<lambda>c.
  if c = -1 then claim_qreq n r else ret c))))"

text \<open>
  Three drivers share this code: \<^verbatim>\<open>migrate-x86.c\<close>, its 16-channel copy and the ARM original
  \<^verbatim>\<open>migrate-ks2.c\<close>.  What differs below it is a value of \<open>variant\<close>: the call through
  \<^verbatim>\<open>issue_one_desc_func\<close>, the completion of a migrated page, the order of a table's pages, the
  question put to the engine, and what the flush of a whole queue and the device files use.
\<close>

type_synonym submitter = "issue_func \<Rightarrow> addr \<Rightarrow> desc_p \<Rightarrow> bool \<Rightarrow> addr \<Rightarrow> addr kern"

definition debug_fnames :: "string list" where
  "debug_fnames = [''migif'', ''migif1'', ''migif2'', ''migif3'']"

record variant =
  v_issue :: submitter
  v_complete :: "addr \<Rightarrow> nat \<Rightarrow> bool kern"
  v_order :: int
  v_done :: string
  v_alloc_table :: "addr kern"
  v_sg_add :: sg_adder
  v_migrate :: "nat \<Rightarrow> migrate_mode \<Rightarrow> addr \<Rightarrow> int kern"
  v_complete_one :: "addr \<Rightarrow> nat \<Rightarrow> unit kern"
  v_init_chan :: "addr kern"
  v_names :: "string list"

definition x86_driver :: variant where
  "x86_driver = \<lparr>v_issue = issue_one_desc, v_complete = dma_complete_one_mig, v_order = MIGTABLE_PAGE_ORDER,
     v_done = ''device_tx_status == DMA_COMPLETE'', v_alloc_table = alloc_table, v_sg_add = mp_sg_add,
     v_migrate = migrate_pages_ks2, v_complete_one = dma_complete_one, v_init_chan = init_dma_chan,
     v_names = debug_fnames\<rparr>"

lemma x86_driver [simp]:
  "v_issue x86_driver = issue_one_desc" "v_complete x86_driver = dma_complete_one_mig"
  "v_order x86_driver = MIGTABLE_PAGE_ORDER" "v_done x86_driver = ''device_tx_status == DMA_COMPLETE''"
  "v_alloc_table x86_driver = alloc_table" "v_sg_add x86_driver = mp_sg_add" "v_migrate x86_driver = migrate_pages_ks2"
  "v_complete_one x86_driver = dma_complete_one" "v_init_chan x86_driver = init_dma_chan" "v_names x86_driver = debug_fnames"
  by (simp_all add: x86_driver_def)

definition user_flush_by :: "variant \<Rightarrow> addr \<Rightarrow> addr \<Rightarrow> int \<Rightarrow> issue_func \<Rightarrow> int kern" where
  "user_flush_by v r mm parent f = (bindK (getK (flush_fuel r)) (\<lambda>fuel.
    bindK (claim_qreq fuel r) (\<lambda>c.
    if c = COLOR_KER then ret 0
     else (bindK (k_dequeue r Qissued) (\<lambda>d.
       case d of None \<Rightarrow> failK Bug
       | Some desc \<Rightarrow> (seqK (exec ''migrate_prep'' []) (
         bindK (v_issue v f r desc True mm) (\<lambda>t.
         ret 0))))))))"

definition user_flush :: "addr \<Rightarrow> addr \<Rightarrow> int \<Rightarrow> issue_func \<Rightarrow> int kern" where
  "user_flush = user_flush_by x86_driver"

section \<open>The kernel worker\<close>

text \<open>How long to sleep before the first look at the engine, in microseconds.\<close>

definition sleep_range :: "nat \<Rightarrow> int \<times> int" where
  "sleep_range ord = (if ord = 0 then (10, 10) else if ord = 3 then (20, 30) else if ord = 4 then (30, 40)
     else if ord = 5 then (30, 50) else if ord = 6 then (70, 90) else if ord = 7 then (140, 170)
     else (100, 150))"

text \<open>Ten looks; the transfer must be complete by then.\<close>

fun poll_dma :: "string \<Rightarrow> nat \<Rightarrow> nat \<Rightarrow> int \<times> int \<Rightarrow> addr \<Rightarrow> unit kern" where
  "poll_dma q i 0 lh chan = failK Bug"
| "poll_dma q i (Suc k) lh chan = (seqK (exec ''usleep_range'' (if i = 0 then [fst lh, snd lh] else [30, 60])) (
  bindK (callb q [chan]) (\<lambda>ok.
  if ok then ret () else poll_dma q (Suc i) k lh chan)))"

text \<open>The pages of a migrated descriptor, in order.\<close>

definition complete_pages :: "variant \<Rightarrow> addr \<Rightarrow> unit kern" where
  "complete_pages v t = (bindK (get_table t issue_one_desc_func) (\<lambda>f.
    whenK (f = Issue_mig) (bindK (get_table t num_pages) (\<lambda>n.
       forK [0..<nat n] (\<lambda>i. bindK (v_complete v t i) (\<lambda>_. ret ()))))))"

text \<open>One descriptor, from submission to the completion queue.\<close>

definition kernel_do_one :: "variant \<Rightarrow> addr \<Rightarrow> addr \<Rightarrow> addr \<Rightarrow> desc_p \<Rightarrow> unit kern" where
  "kernel_do_one v oldtable r mm desc = (bindK (get_table oldtable issue_one_desc_func) (\<lambda>f.
    seqK (BUG_ON (f = Issue_null)) (
    bindK (v_issue v f r desc False mm) (\<lambda>t.
    bindK (get_desc r desc (\<lambda>d. unat (order d))) (\<lambda>ord.
    bindK (get_info (region_to_mmap_info r) i_chan) (\<lambda>chan.
    seqK (poll_dma (v_done v) 0 10 (sleep_range ord) chan) (
    seqK (complete_pages v t) (
    seqK (free_table_of (v_order v) t) (
    bindK (k_enqueue r Qcomp desc) (\<lambda>c.
    exec ''wake_up_interruptible'' [region_to_mmap_info r]))))))))))"

text \<open>The next descriptor: issued ones first, then requests of a queue that is the kernel's.\<close>

definition kernel_next :: "addr \<Rightarrow> (bool \<times> desc_p option) kern" where
  "kernel_next r = (bindK (k_dequeue r Qissued) (\<lambda>d.
    case d of Some desc \<Rightarrow> ret (False, Some desc)
     | None \<Rightarrow> (bindK (k_color r Qreq) (\<lambda>c.
       if c = COLOR_USR then ret (True, None)
         else bindK (k_dequeue r Qreq) (\<lambda>d. ret (False, d))))))"

fun kernel_loop :: "variant \<Rightarrow> nat \<Rightarrow> addr \<Rightarrow> addr \<Rightarrow> addr \<Rightarrow> unit kern" where
  "kernel_loop v 0 oldtable r mm = failK Spin"
| "kernel_loop v (Suc n) oldtable r mm = (bindK (kernel_next r) (\<lambda>(stop, d).
  if stop then ret ()
     else case d of
       None \<Rightarrow> (bindK (k_set_color r Qreq COLOR_USR) (\<lambda>c.
         if c = -1 then kernel_loop v n oldtable r mm else ret ()))
     | Some desc \<Rightarrow> seqK (kernel_do_one v oldtable r mm desc) (kernel_loop v n oldtable r mm)))"

text \<open>
  The worker frees its table first and goes on reading \<open>issue_one_desc_func\<close> from it.
\<close>

definition kernel_flush_work_by :: "variant \<Rightarrow> addr \<Rightarrow> unit kern" where
  "kernel_flush_work_by v oldtable = (bindK (get_table oldtable t_region) (\<lambda>r.
    bindK (get_table oldtable t_mm) (\<lambda>mm.
    seqK (free_table_of (v_order v) oldtable) (
    bindK (getK (\<lambda>s. unat (ndescs (regs s r)) + 2 * todo s r + 3)) (\<lambda>fuel.
    kernel_loop v fuel oldtable r mm)))))"

definition kernel_flush_work :: "addr \<Rightarrow> unit kern" where
  "kernel_flush_work = kernel_flush_work_by x86_driver"

section \<open>Callbacks of the engine\<close>

definition dma_callback_kthread_by :: "variant \<Rightarrow> addr \<Rightarrow> unit kern" where
  "dma_callback_kthread_by v t = (bindK (get_table t t_region) (\<lambda>r.
    seqK (BUG_ON (r = 0)) (
    bindK (get_table t migdesc) (\<lambda>md.
    seqK (BUG_ON (md = None)) (
    bindK (get_table t issue_one_desc_func) (\<lambda>f.
    seqK (BUG_ON (f = Issue_null)) (
    seqK (complete_pages v t) (
    bindK (k_enqueue r Qcomp (the md)) (\<lambda>c.
    seqK (exec ''wake_up_interruptible'' [region_to_mmap_info r]) (
    seqK (exec ''INIT_WORK kernel_flush_work'' [t]) (
    bindK (get_table t user_cpu) (\<lambda>cpu.
    exec ''schedule_work_on'' [cpu, t]))))))))))))"

definition dma_callback_kthread :: "addr \<Rightarrow> unit kern" where
  "dma_callback_kthread = dma_callback_kthread_by x86_driver"

text \<open>\<^verbatim>\<open>while ((desc = mig_dequeue(qissued)))\<close>: mark it completed and put it on \<^verbatim>\<open>qcomp\<close>.\<close>

fun complete_issued :: "nat \<Rightarrow> addr \<Rightarrow> unit kern" where
  "complete_issued 0 r = failK Spin"
| "complete_issued (Suc n) r = (bindK (k_dequeue r Qissued) (\<lambda>d.
  case d of None \<Rightarrow> ret ()
     | Some desc \<Rightarrow> (seqK (set_desc r desc mark_mig_desc_comp) (
       bindK (k_enqueue r Qcomp desc) (\<lambda>c.
       complete_issued n r)))))"

definition dma_callback_noremap :: "addr \<Rightarrow> unit kern" where
  "dma_callback_noremap t = (bindK (get_table t t_region) (\<lambda>r.
    seqK (BUG_ON (r = 0)) (
    bindK (getK (flush_fuel r)) (\<lambda>fuel.
    seqK (complete_issued fuel r) (
    seqK (exec ''wake_up_interruptible'' [region_to_mmap_info r]) (
    seqK (exec ''INIT_WORK dma_complete_work_noremap'' [t]) (
    exec ''schedule_work'' [t])))))))"

definition dma_callback :: "addr \<Rightarrow> unit kern" where
  "dma_callback t = (seqK (exec ''INIT_WORK dma_complete_work'' [t]) (
    exec ''schedule_work'' [t]))"

section \<open>The flow of requests\<close>

text \<open>
  The requests of a device in the order in which they were submitted: taken by users, on
  \<open>qcomp\<close>, in the driver's hands (\<open>fl\<close>), on \<open>qissued\<close>, on \<open>qreq\<close>.  A piece of driver code
  respects the flow when this sequence only grows, at its end, by what users submit meanwhile.
\<close>

definition pipe :: "addr \<Rightarrow> words2 list \<Rightarrow> kst \<Rightarrow> words2 list" where
  "pipe r fl s = log_reap s r @ on_q s r Qcomp @ fl @ on_q s r Qissued @ on_q s r Qreq"

definition flows :: "addr \<Rightarrow> words2 list \<Rightarrow> kst \<Rightarrow> words2 list \<Rightarrow> kst \<Rightarrow> bool" where
  "flows r fl s fl1 s1 \<longleftrightarrow> (\<exists>us. log_sub s1 r = log_sub s r @ us \<and> pipe r fl1 s1 = pipe r fl s @ us
     \<and> todo s1 r + length us \<le> todo s r)"

definition finished :: "addr \<Rightarrow> kst \<Rightarrow> words2 list" where
  "finished r s = log_reap s r @ on_q s r Qcomp"

lemma pipe_eq: "pipe r fl s = finished r s @ fl @ on_q s r Qissued @ on_q s r Qreq"
  by (simp add: pipe_def finished_def)

lemma flows_refl [simp]: "flows r fl s fl s"
  by (simp add: flows_def)

lemma flows_trans:
  assumes "flows r f0 s0 f1 s1" and "flows r f1 s1 f2 s2"
  shows "flows r f0 s0 f2 s2"
proof -
  obtain us where 1: "log_sub s1 r = log_sub s0 r @ us" "pipe r f1 s1 = pipe r f0 s0 @ us"
    "todo s1 r + length us \<le> todo s0 r" using assms(1) by (auto simp: flows_def)
  obtain vs where 2: "log_sub s2 r = log_sub s1 r @ vs" "pipe r f2 s2 = pipe r f1 s1 @ vs"
    "todo s2 r + length vs \<le> todo s1 r" using assms(2) by (auto simp: flows_def)
  show ?thesis
    unfolding flows_def by (rule exI [of _ "us @ vs"]) (use 1 2 in simp)
qed

lemma users_flow: "users_ran r own s s1 \<Longrightarrow> flows r fl s fl s1"
  by (auto simp: users_ran_def flows_def pipe_def)

lemma users_ranD:
  assumes "users_ran r own s s1"
  shows "dev_ok r own s1" "rest s1 = rest s" "on_q s1 r Qissued = on_q s r Qissued" "clr s1 r = clr s r"
    "x \<in> own \<Longrightarrow> payload (regs s1 r) x = payload (regs s r) x" "todo s1 r \<le> todo s r"
    "length (on_q s1 r Qreq) + todo s1 r \<le> length (on_q s r Qreq) + todo s r"
    "on_q s r Qreq = [] \<Longrightarrow> on_q s1 r Qreq \<noteq> [] \<Longrightarrow> todo s1 r < todo s r"
    "length (on_q s1 r Qreq) + 2 * todo s1 r \<le> length (on_q s r Qreq) + 2 * todo s r"
    "finished r s1 = finished r s"
proof -
  obtain us where us: "on_q s1 r Qreq = on_q s r Qreq @ us" "todo s1 r + length us \<le> todo s r"
    using assms by (auto simp: users_ran_def)
  then show "todo s1 r \<le> todo s r"
    "length (on_q s1 r Qreq) + todo s1 r \<le> length (on_q s r Qreq) + todo s r"
    "length (on_q s1 r Qreq) + 2 * todo s1 r \<le> length (on_q s r Qreq) + 2 * todo s r"
    by simp_all
  show "todo s1 r < todo s r" if "on_q s r Qreq = []" "on_q s1 r Qreq \<noteq> []"
    using us that by (cases us) auto
qed (use assms in \<open>simp_all add: users_ran_def finished_def\<close>)

lemma on_q_bound:
  assumes "dev_ok r own s"
  shows "length (on_q s r Qreq) + length (on_q s r Qissued) < unat (ndescs (regs s r))"
proof -
  let ?R = "regs s r"
  have wf: "wf_region ?R own" using assms by (simp add: dev_ok_def)
  obtain h1 x1 where c1: "chain_of ?R Qreq = h1 # x1" "contents ?R Qreq = map (payload ?R) x1"
    using chain_of_Cons [OF wf qs_live(1)] by metis
  obtain h2 x2 where c2: "chain_of ?R Qissued = h2 # x2" "contents ?R Qissued = map (payload ?R) x2"
    using chain_of_Cons [OF wf qs_live(2)] by metis
  have "length (placed ?R) \<le> unat (ndescs ?R)"
    using wf_regionD(5,7) [OF wf] by (intro length_le_if_distinct_bounded) auto
  then show ?thesis using c1 c2 by (simp add: placed_def on_q_def)
qed

lemma rest_tables: "rest s1 = rest s \<Longrightarrow> tables s1 = tables s \<and> after_free s1 = after_free s
    \<and> answer s1 = answer s \<and> max_nr_sg s1 = max_nr_sg s \<and> infos s1 = infos s \<and> chans s1 = chans s"
  by (simp add: rest_def)

lemma empty_qreq_ok:
  assumes "dev_ok r own s" and "length (on_q s r Qreq) + todo s r < n"
  shows "\<exists>s1. empty_qreq n r s = Inr ((), s1) \<and> dev_ok r own s1 \<and> rest s1 = rest s
    \<and> on_q s1 r Qreq = [] \<and> clr s1 r = clr s r \<and> flows r fl s fl s1 \<and> finished r s1 = finished r s
    \<and> (\<forall>x\<in>own. payload (regs s1 r) x = payload (regs s r) x)"
  using assms
proof (induction n arbitrary: s)
  case (Suc n)
  obtain s1 d s2 where d: "users_ran r own s s1" "k_dequeue r Qreq s = Inr (d, s2)"
    "case d of None \<Rightarrow> on_q s1 r Qreq = [] \<and> s2 = s1
       | Some p \<Rightarrow> p \<notin> own \<and> dev_ok r (insert p own) s2 \<and> env_same r s1 s2
           \<and> on_q s1 r Qreq = payload (regs s2 r) p # on_q s2 r Qreq
           \<and> (\<forall>q'\<in>set live_qs. q' \<noteq> Qreq \<longrightarrow> on_q s2 r q' = on_q s1 r q') \<and> clr s2 r = clr s1 r
           \<and> (\<forall>x\<in>own. payload (regs s2 r) x = payload (regs s1 r) x)"
    using k_dequeue_ok [OF Suc.prems(1) qs_live(1)] by blast
  note U = users_ranD [OF d(1)]
  show ?case
  proof (cases d)
    case None
    then have e: "on_q s1 r Qreq = []" "s2 = s1" using d(3) by simp_all
    have "empty_qreq (Suc n) r s = Inr ((), s1)" using d(2) None e by simp
    then show ?thesis using U(1,2,4,5,10) e users_flow [OF d(1)] by auto
  next
    case (Some p)
    have p: "p \<notin> own" "dev_ok r (insert p own) s2" "env_same r s1 s2"
      "on_q s1 r Qreq = payload (regs s2 r) p # on_q s2 r Qreq"
      "on_q s2 r Qissued = on_q s1 r Qissued" "on_q s2 r Qcomp = on_q s1 r Qcomp" "clr s2 r = clr s1 r"
      "\<forall>x\<in>own. payload (regs s2 r) x = payload (regs s1 r) x"
      using d(3) Some by simp_all
    obtain s3 c s4 where e: "users_ran r (insert p own) s2 s3" "k_enqueue r Qissued p s2 = Inr (c, s4)"
      "dev_ok r (insert p own - {p}) s4" "env_same r s3 s4"
      "on_q s4 r Qissued = on_q s3 r Qissued @ [payload (regs s3 r) p]"
      "\<forall>q'\<in>set live_qs. q' \<noteq> Qissued \<longrightarrow> on_q s4 r q' = on_q s3 r q'" "clr s4 r = clr s3 r"
      "\<forall>x. payload (regs s4 r) x = payload (regs s3 r) x"
      using k_enqueue_ok [OF p(2) qs_live(2) insertI1] by blast
    note V = users_ranD [OF e(1)]
    have o: "insert p own - {p} = own" using p(1) by blast
    have q4: "on_q s4 r Qreq = on_q s3 r Qreq" "on_q s4 r Qcomp = on_q s3 r Qcomp" using e(6) by simp_all
    have todo: "todo s2 r = todo s1 r" "todo s4 r = todo s3 r"
      using p(3) e(4) env_same_todo by metis+
    have "length (on_q s4 r Qreq) + todo s4 r < n"
      using Suc.prems(2) U(7) V(7) p(4) q4(1) todo by simp
    then obtain s5 where s5: "empty_qreq n r s4 = Inr ((), s5)" "dev_ok r own s5" "rest s5 = rest s4"
      "on_q s5 r Qreq = []" "clr s5 r = clr s4 r" "flows r fl s4 fl s5" "finished r s5 = finished r s4"
      "\<forall>x\<in>own. payload (regs s5 r) x = payload (regs s4 r) x"
      using Suc.IH [OF e(3) [unfolded o]] by blast
    have "flows r fl s1 fl s4"
    proof -
      obtain us where us: "log_sub s3 r = log_sub s2 r @ us" "on_q s3 r Qreq = on_q s2 r Qreq @ us"
        "todo s3 r + length us \<le> todo s2 r" "log_reap s3 r @ on_q s3 r Qcomp = log_reap s2 r @ on_q s2 r Qcomp"
        using e(1) by (auto simp: users_ran_def)
      have "payload (regs s3 r) p = payload (regs s2 r) p" using V(5) by simp
      then have "pipe r fl s4 = pipe r fl s1 @ us"
        using us e(4,5) q4 p V(3) by (simp add: pipe_def env_same_def)
      then show ?thesis using us todo p(3) e(4) by (auto simp: flows_def env_same_def)
    qed
    then have "flows r fl s fl s5"
      using users_flow [OF d(1)] s5(6) flows_trans by metis
    moreover have "rest s5 = rest s" using U(2) V(2) p(3) e(4) s5(3) by (simp add: env_same_def)
    moreover have "clr s5 r = clr s r" using U(4) V(4) p(7) e(7) s5(5) by simp
    moreover have "\<forall>x\<in>own. payload (regs s5 r) x = payload (regs s r) x"
      using U(5) V(5) p(8) e(8) s5(8) by simp
    moreover have "finished r s5 = finished r s"
      using U(10) V(10) p(3,6) e(4) q4(2) s5(7) by (simp add: finished_def env_same_def)
    moreover have "empty_qreq (Suc n) r s = Inr ((), s5)"
      using d(2) Some e(2) s5(1) by simp
    ultimately show ?thesis using s5(2,4) by blast
  qed
qed simp

lemma sint_colors [simp]: "0 \<le> sint COLOR_KER" "0 \<le> sint COLOR_USR"
  by (simp_all add: COLOR_KER_def COLOR_USR_def)

lemma claim_qreq_ok:
  assumes "dev_ok r own s" and "todo s r < n"
  shows "\<exists>s1. claim_qreq n r s = Inr (clr s r, s1) \<and> clr s r \<noteq> -1 \<and> dev_ok r own s1 \<and> rest s1 = rest s
    \<and> on_q s1 r Qreq = [] \<and> clr s1 r = COLOR_KER \<and> flows r fl s fl s1 \<and> finished r s1 = finished r s
    \<and> (\<forall>x\<in>own. payload (regs s1 r) x = payload (regs s r) x)"
  using assms
proof (induction n arbitrary: s)
  case (Suc n)
  have "length (on_q s r Qreq) + todo s r < flush_fuel r s"
    using on_q_bound [OF Suc.prems(1)] by (simp add: flush_fuel_def)
  then obtain s1 where s1: "empty_qreq (flush_fuel r s) r s = Inr ((), s1)" "dev_ok r own s1" "rest s1 = rest s"
    "on_q s1 r Qreq = []" "clr s1 r = clr s r" "flows r fl s fl s1" "finished r s1 = finished r s"
    "\<forall>x\<in>own. payload (regs s1 r) x = payload (regs s r) x"
    using empty_qreq_ok [OF Suc.prems(1)] by blast
  obtain s2 c s3 where c: "users_ran r own s1 s2" "k_set_color r Qreq COLOR_KER s1 = Inr (c, s3)"
    "if on_q s2 r Qreq = [] then c = clr s2 r \<and> c \<noteq> -1 \<and> clr s3 r = COLOR_KER else c = -1 \<and> s3 = s2"
    "dev_ok r own s3" "env_same r s2 s3" "\<forall>q\<in>set live_qs. on_q s3 r q = on_q s2 r q"
    "\<forall>x. payload (regs s3 r) x = payload (regs s2 r) x"
    using k_set_color_ok [OF s1(2) sint_colors(1)] by blast
  note U = users_ranD [OF c(1)]
  have "flows r fl s2 fl s3"
    using c(5,6) env_same_todo [OF c(5)] by (simp add: flows_def pipe_def env_same_def)
  then have fl: "flows r fl s fl s3"
    using s1(6) users_flow [OF c(1)] flows_trans by metis
  have re: "rest s3 = rest s" using s1(3) U(2) c(5) by (simp add: env_same_def)
  have pay: "\<forall>x\<in>own. payload (regs s3 r) x = payload (regs s r) x" using s1(8) U(5) c(7) by simp
  have fin: "finished r s3 = finished r s"
    using s1(7) U(10) c(5,6) by (simp add: finished_def env_same_def)
  show ?case
  proof (cases "on_q s2 r Qreq = []")
    case True
    then have e: "c = clr s r" "c \<noteq> -1" "clr s3 r = COLOR_KER" using c(3) U(4) s1(5) by auto
    have "claim_qreq (Suc n) r s = Inr (clr s r, s3)"
      using s1(1) c(2) e(1,2) by simp
    then show ?thesis using e c(4,6) True re fl pay fin by auto
  next
    case False
    then have e: "c = -1" "s3 = s2" using c(3) by simp_all
    have "todo s2 r < todo s1 r" using U(8) s1(4) False by simp
    moreover have "todo s1 r \<le> todo s r" using s1(6) by (auto simp: flows_def)
    ultimately have "todo s3 r < n" using Suc.prems(2) e by simp
    then obtain s4 where s4: "claim_qreq n r s3 = Inr (clr s3 r, s4)" "clr s3 r \<noteq> -1" "dev_ok r own s4"
      "rest s4 = rest s3" "on_q s4 r Qreq = []" "clr s4 r = COLOR_KER" "flows r fl s3 fl s4" "finished r s4 = finished r s3"
      "\<forall>x\<in>own. payload (regs s4 r) x = payload (regs s3 r) x"
      using Suc.IH [OF c(4)] by blast
    have "claim_qreq (Suc n) r s = Inr (clr s3 r, s4)"
      using s1(1) c(2) e(1) s4(1) by simp
    moreover have "clr s3 r = clr s r" using e(2) U(4) s1(5) by simp
    moreover have "flows r fl s fl s4" using fl s4(7) flows_trans by metis
    ultimately show ?thesis using s4 re pay fin by auto
  qed
qed simp


section \<open>What a step keeps\<close>

definition preserves :: "(kst \<Rightarrow> bool) \<Rightarrow> 'a kern \<Rightarrow> bool" where
  "preserves P m \<longleftrightarrow> (\<forall>s x s1. P s \<longrightarrow> m s = Inr (x, s1) \<longrightarrow> P s1)"

lemma preserves_rules [simp]:
  "preserves P m1 \<Longrightarrow> (\<And>x. preserves P (f x)) \<Longrightarrow> preserves P (bindK m1 f)"
  "preserves P m2 \<Longrightarrow> preserves P n2 \<Longrightarrow> preserves P (seqK m2 n2)"
  "(\<And>a b. preserves P (h2 a b)) \<Longrightarrow> preserves P (case p of (a, b) \<Rightarrow> h2 a b)"
proof -
  show "preserves P (bindK m1 f)" if "preserves P m1" "\<And>x. preserves P (f x)"
    using that unfolding preserves_def bindK_eq_Inr by meson
  show "preserves P (seqK m2 n2)" if "preserves P m2" "preserves P n2"
    using that unfolding preserves_def seqK_eq_Inr by meson
qed (simp split: prod.splits)

lemma preserves_foldK [simp]: "(\<And>b x. preserves P (f b x)) \<Longrightarrow> preserves P (foldK f b xs)"
proof (induction xs arbitrary: b)
  case Nil
  then show ?case by (simp add: preserves_def)
qed simp

lemma preserves_keeps: "keeps g m \<Longrightarrow> (\<And>s s1. g s1 = g s \<Longrightarrow> P s \<Longrightarrow> P s1) \<Longrightarrow> preserves P m"
  by (auto simp: preserves_def keeps_def)

definition copy_view :: "kst \<Rightarrow> (addr \<Rightarrow> mig_table) \<times> (addr \<Rightarrow> mig_table \<Rightarrow> mig_table) \<times> nat
    \<times> (kevent list \<Rightarrow> string \<Rightarrow> int list \<Rightarrow> int)" where
  "copy_view s = (tables s, after_free s, max_nr_sg s, answer s)"

lemma keeps_copy_view [simp]:
  "keeps copy_view (call f xs)" "keeps copy_view (callb f xs)" "keeps copy_view (exec f xs)"
  by (auto simp: keeps_def copy_view_def call_runs)

lemma keeps_copy_view_parts [simp]:
  "keeps copy_view alloc_table" "keeps copy_view (alloc_sg n)" "keeps copy_view (check_vma v a)"
  "keeps copy_view (follow_range h fl v a n)" "keeps copy_view (issue_copy_page h n op npg sgl j)"
  by (cases sgl; simp add: alloc_table_def alloc_sg_def check_vma_def follow_range_def
      issue_copy_page_def sg_add_def Let_def)+

section \<open>Completion from the engine's callback\<close>

text \<open>A replicated descriptor: it goes to the end of \<open>qcomp\<close> and the worker is scheduled.\<close>

lemma callback_by_copy_ok:
  assumes ok: "dev_ok r own s" and p: "p \<in> own" and r: "r \<noteq> 0"
    and t: "t_region (tables s t) = r" "migdesc (tables s t) = Some p"
      "issue_one_desc_func (tables s t) = Issue_copy"
  shows "\<exists>s1 v. dma_callback_kthread_by V t s = Inr ((), s1) \<and> dev_ok r (own - {p}) s1
    \<and> flows r [payload (regs s r) p] s [] s1 \<and> clr s1 r = clr s r \<and> copy_view s1 = copy_view s
    \<and> infos s1 = infos s \<and> chans s1 = chans s \<and> last (hist s1) = (''schedule_work_on'', [user_cpu (tables s t), t], v)"
proof -
  obtain s4 c s5 where e: "users_ran r own s s4" "k_enqueue r Qcomp p s = Inr (c, s5)"
    "dev_ok r (own - {p}) s5" "env_same r s4 s5" "on_q s5 r Qcomp = on_q s4 r Qcomp @ [payload (regs s4 r) p]"
    "\<forall>q'\<in>set live_qs. q' \<noteq> Qcomp \<longrightarrow> on_q s5 r q' = on_q s4 r q'" "clr s5 r = clr s4 r"
    using k_enqueue_ok [OF ok qs_live(3) p] by blast
  note U = users_ranD [OF e(1)]
  have tb: "copy_view s5 = copy_view s" "infos s5 = infos s" "chans s5 = chans s"
    using U(2) e(4) rest_tables [of s4 s] rest_tables [of s5 s4] by (simp_all add: env_same_def copy_view_def)
  let ?c = "\<lambda>s f xs. s\<lparr>hist := hist s @ [(f, xs, answer s (hist s) f xs)]\<rparr>"
  let ?s6 = "?c (?c (?c s5 ''wake_up_interruptible'' [region_to_mmap_info r]) ''INIT_WORK kernel_flush_work'' [t])
      ''schedule_work_on'' [user_cpu (tables s t), t]"
  have run: "dma_callback_kthread_by V t s = Inr ((), ?s6)"
    using t r e(2) tb
    by (simp add: copy_view_def dma_callback_kthread_by_def get_table_def bindK_run seqK_run exec_run complete_pages_def whenK_def)
  have q6: "dev_ok r (own - {p}) ?s6" using e(3) by (simp add: dev_ok_def todo_def)
  have q5: "on_q s5 r Qreq = on_q s4 r Qreq" "on_q s5 r Qissued = on_q s4 r Qissued" using e(6) by simp_all
  have pay: "payload (regs s4 r) p = payload (regs s r) p" using U(5) p by simp
  have "flows r [payload (regs s r) p] s4 [] s5"
    using e(4,5) q5 env_same_todo [OF e(4)] pay by (simp add: flows_def pipe_def env_same_def)
  then have "flows r [payload (regs s r) p] s [] s5" by (rule flows_trans [OF users_flow [OF e(1)]])
  moreover have "flows r [] s5 [] ?s6" by (simp add: flows_def pipe_def on_q_def todo_def)
  ultimately have "flows r [payload (regs s r) p] s [] ?s6" by (rule flows_trans)
  moreover have "clr ?s6 r = clr s r" using e(7) U(4) by (simp add: clr_def)
  ultimately show ?thesis using run q6 tb by (intro exI [of _ ?s6] exI) (simp add: o_def copy_view_def)
qed

lemmas dma_callback_kthread_copy_ok = callback_by_copy_ok [where V = x86_driver, folded dma_callback_kthread_def]

text \<open>Marking a descriptor in hand as completed.\<close>

definition comp_words :: "words2 \<Rightarrow> words2" where
  "comp_words = (\<lambda>(a, b). (bf_set 57 7 MIG_DESC_COMPLETED a, b))"

lemma mark_comp_words: "upd_desc p mark_mig_desc_comp R = put_words p comp_words R"
proof -
  have "mark_mig_desc_comp d = (let (a, b) = comp_words (word0 d, word1 d) in d\<lparr>word0 := a, word1 := b\<rparr>)" for d
    by (cases d) (simp add: mark_mig_desc_comp_def set_flag_def comp_words_def)
  then show ?thesis by (simp add: put_words_def upd_desc_def)
qed

lemma set_desc_comp_ok:
  assumes ok: "dev_ok r own s" and p: "p \<in> own"
  shows "\<exists>s1. set_desc r p mark_mig_desc_comp s = Inr ((), s1) \<and> dev_ok r own s1 \<and> env_same r s s1
    \<and> (\<forall>q\<in>set live_qs. on_q s1 r q = on_q s r q) \<and> clr s1 r = clr s r
    \<and> payload (regs s1 r) p = comp_words (payload (regs s r) p)
    \<and> (\<forall>x. x \<noteq> p \<longrightarrow> payload (regs s1 r) x = payload (regs s r) x)"
proof -
  have wf: "wf_region (regs s r) own" using ok by (simp add: dev_ok_def)
  note P = mqa.put_law [OF wf p, of comp_words]
  let ?s1 = "s\<lparr>regs := (regs s)(r := put_words p comp_words (regs s r))\<rparr>"
  have "set_desc r p mark_mig_desc_comp s = Inr ((), ?s1)"
    by (simp add: set_desc_def mark_comp_words)
  then show ?thesis
    using P ok by (intro exI [of _ ?s1]) (auto simp: dev_ok_def todo_def env_same_def rest_def on_q_def clr_def)
qed

text \<open>All issued descriptors, in order, marked, to the end of \<open>qcomp\<close>.\<close>

lemma complete_issued_ok:
  assumes "dev_ok r own s" and "length (on_q s r Qissued) < n"
  shows "\<exists>s1. complete_issued n r s = Inr ((), s1) \<and> dev_ok r own s1 \<and> rest s1 = rest s
    \<and> on_q s1 r Qissued = [] \<and> clr s1 r = clr s r
    \<and> finished r s1 = finished r s @ map comp_words (on_q s r Qissued)
    \<and> (\<exists>us. log_sub s1 r = log_sub s r @ us \<and> on_q s1 r Qreq = on_q s r Qreq @ us)"
  using assms
proof (induction n arbitrary: s)
  case (Suc n)
  obtain s1 d s2 where d: "users_ran r own s s1" "k_dequeue r Qissued s = Inr (d, s2)"
    "case d of None \<Rightarrow> on_q s1 r Qissued = [] \<and> s2 = s1
       | Some p \<Rightarrow> p \<notin> own \<and> dev_ok r (insert p own) s2 \<and> env_same r s1 s2
           \<and> on_q s1 r Qissued = payload (regs s2 r) p # on_q s2 r Qissued
           \<and> (\<forall>q'\<in>set live_qs. q' \<noteq> Qissued \<longrightarrow> on_q s2 r q' = on_q s1 r q') \<and> clr s2 r = clr s1 r
           \<and> (\<forall>x\<in>own. payload (regs s2 r) x = payload (regs s1 r) x)"
    using k_dequeue_ok [OF Suc.prems(1) qs_live(2)] by blast
  note U = users_ranD [OF d(1)]
  have u1: "\<exists>us. log_sub s1 r = log_sub s r @ us \<and> on_q s1 r Qreq = on_q s r Qreq @ us"
    using d(1) by (auto simp: users_ran_def)
  show ?case
  proof (cases d)
    case None
    then have e: "on_q s1 r Qissued = []" "s2 = s1" using d(3) by simp_all
    have "complete_issued (Suc n) r s = Inr ((), s1)" using d(2) None e by simp
    then show ?thesis using U(1,2,3,4,10) e u1 by auto
  next
    case (Some p)
    then have p: "p \<notin> own" "dev_ok r (insert p own) s2" "env_same r s1 s2"
      "on_q s1 r Qissued = payload (regs s2 r) p # on_q s2 r Qissued"
      "on_q s2 r Qreq = on_q s1 r Qreq" "on_q s2 r Qcomp = on_q s1 r Qcomp" "clr s2 r = clr s1 r"
      using d(3) by simp_all
    obtain s3 where m: "set_desc r p mark_mig_desc_comp s2 = Inr ((), s3)" "dev_ok r (insert p own) s3"
      "env_same r s2 s3" "\<forall>q\<in>set live_qs. on_q s3 r q = on_q s2 r q" "clr s3 r = clr s2 r"
      "payload (regs s3 r) p = comp_words (payload (regs s2 r) p)"
      using set_desc_comp_ok [OF p(2) insertI1] by blast
    obtain s4 c s5 where e: "users_ran r (insert p own) s3 s4" "k_enqueue r Qcomp p s3 = Inr (c, s5)"
      "dev_ok r (insert p own - {p}) s5" "env_same r s4 s5" "on_q s5 r Qcomp = on_q s4 r Qcomp @ [payload (regs s4 r) p]"
      "\<forall>q'\<in>set live_qs. q' \<noteq> Qcomp \<longrightarrow> on_q s5 r q' = on_q s4 r q'" "clr s5 r = clr s4 r"
      using k_enqueue_ok [OF m(2) qs_live(3) insertI1] by blast
    note V = users_ranD [OF e(1)]
    have o: "insert p own - {p} = own" using p(1) by blast
    have q: "on_q s3 r Qreq = on_q s2 r Qreq" "on_q s3 r Qcomp = on_q s2 r Qcomp" "on_q s3 r Qissued = on_q s2 r Qissued"
      "on_q s5 r Qreq = on_q s4 r Qreq" "on_q s5 r Qissued = on_q s4 r Qissued"
      using m(4) e(6) by simp_all
    have fin: "finished r s5 = finished r s @ [comp_words (payload (regs s2 r) p)]"
    proof -
      have "finished r s3 = finished r s1" using p(3,6) q(2) m(3) by (simp add: finished_def env_same_def)
      moreover have "finished r s5 = finished r s4 @ [payload (regs s4 r) p]"
        using e(4,5) by (simp add: finished_def env_same_def)
      ultimately show ?thesis using U(10) V(10) V(5) m(6) by simp
    qed
    have iss: "on_q s r Qissued = payload (regs s2 r) p # on_q s5 r Qissued"
      using U(3) p(4) q(3,5) V(3) by simp
    have u5: "\<exists>us. log_sub s5 r = log_sub s r @ us \<and> on_q s5 r Qreq = on_q s r Qreq @ us"
    proof -
      obtain us vs where us: "log_sub s1 r = log_sub s r @ us" "on_q s1 r Qreq = on_q s r Qreq @ us"
        and vs: "log_sub s4 r = log_sub s3 r @ vs" "on_q s4 r Qreq = on_q s3 r Qreq @ vs"
        using u1 e(1) by (auto simp: users_ran_def)
      show ?thesis
        by (rule exI [of _ "us @ vs"]) (use us vs p(3,5) m(3) e(4) q in \<open>simp add: env_same_def\<close>)
    qed
    have "length (on_q s5 r Qissued) < n" using Suc.prems(2) iss by simp
    then obtain s6 where s6: "complete_issued n r s5 = Inr ((), s6)" "dev_ok r own s6" "rest s6 = rest s5"
      "on_q s6 r Qissued = []" "clr s6 r = clr s5 r"
      "finished r s6 = finished r s5 @ map comp_words (on_q s5 r Qissued)"
      "\<exists>us. log_sub s6 r = log_sub s5 r @ us \<and> on_q s6 r Qreq = on_q s5 r Qreq @ us"
      using Suc.IH [OF e(3) [unfolded o]] by blast
    have "rest s6 = rest s" using s6(3) e(4) V(2) m(3) p(3) U(2) by (simp add: env_same_def)
    moreover have "clr s6 r = clr s r" using s6(5) e(7) V(4) m(5) p(7) U(4) by simp
    moreover have "complete_issued (Suc n) r s = Inr ((), s6)" using d(2) Some m(1) e(2) s6(1) by simp
    moreover have "\<exists>us. log_sub s6 r = log_sub s r @ us \<and> on_q s6 r Qreq = on_q s r Qreq @ us"
      using u5 s6(7) by auto
    ultimately show ?thesis using s6(2,4,6) fin iss by auto
  qed
qed simp

lemma dma_callback_noremap_ok:
  assumes ok: "dev_ok r own s" and r: "r \<noteq> 0" and t: "t_region (tables s t) = r"
  shows "\<exists>s1 v. dma_callback_noremap t s = Inr ((), s1) \<and> dev_ok r own s1
    \<and> on_q s1 r Qissued = [] \<and> finished r s1 = finished r s @ map comp_words (on_q s r Qissued)
    \<and> last (hist s1) = (''schedule_work'', [t], v)"
proof -
  have "length (on_q s r Qissued) < flush_fuel r s"
    using on_q_bound [OF ok] by (simp add: flush_fuel_def)
  then obtain s1 where s1: "complete_issued (flush_fuel r s) r s = Inr ((), s1)" "dev_ok r own s1"
    "on_q s1 r Qissued = []" "finished r s1 = finished r s @ map comp_words (on_q s r Qissued)"
    using complete_issued_ok [OF ok] by blast
  let ?c = "\<lambda>s f xs. s\<lparr>hist := hist s @ [(f, xs, answer s (hist s) f xs)]\<rparr>"
  let ?s6 = "?c (?c (?c s1 ''wake_up_interruptible'' [region_to_mmap_info r]) ''INIT_WORK dma_complete_work_noremap'' [t])
      ''schedule_work'' [t]"
  have "dma_callback_noremap t s = Inr ((), ?s6)"
    using t r s1(1) by (simp add: dma_callback_noremap_def get_table_def bindK_run seqK_run exec_run)
  moreover have "dev_ok r own ?s6" using s1(2) by (simp add: dev_ok_def todo_def)
  ultimately show ?thesis using s1(3,4)
    by (intro exI [of _ ?s6] exI) (simp add: finished_def on_q_def)
qed

end
