(* ===== verification/DrvFlush.thy ===== *)
theory DrvFlush
  imports DrvQueue
begin

text \<open>
  Flushing the whole request queue into one transfer: \<^verbatim>\<open>flush_single_qreq\<close> (migration) and
  \<^verbatim>\<open>flush_single_qreq_noremap2\<close> (replication) of \<^verbatim>\<open>migrate-x86/migrate-x86.c\<close>, and the workers
  \<^verbatim>\<open>do_dma_complete\<close> and \<^verbatim>\<open>dma_complete_work_noremap\<close> that run when the engine has finished and
  flush the queue again.

  Both flushes share the head of their loop (\<open>flush_next\<close>): take a request, or change the colour
  of the empty queue, or stop.  \<open>fl_table\<close> is the lazily created table, 0 before the first
  request.
\<close>

section \<open>Taking requests\<close>

datatype flush_step = Take desc_p | Again | Flushed

definition flush_next :: "addr \<Rightarrow> bool \<Rightarrow> nat \<Rightarrow> flush_step kern" where
  "flush_next r user i = (bindK (k_dequeue r Qreq) (\<lambda>d.
    case d of Some desc \<Rightarrow> ret (Take desc)
     | None \<Rightarrow>
         if user \<or> i = 0 then (bindK (k_set_color r Qreq (if user then COLOR_KER else COLOR_USR)) (\<lambda>c.
           if c = -1 then ret Again
           else (seqK (BUG_ON (c \<noteq> (if user then COLOR_USR else COLOR_KER))) (
             if user then ret Flushed
             else (bindK (k_is_empty r Qcomp) (\<lambda>e.
               seqK (whenK (\<not> e) (exec ''wake_up_interruptible'' [region_to_mmap_info r])) (
               ret Flushed)))))))
         else ret Flushed))"

record flush_st =
  fl_table :: addr
  fl_src :: addr
  fl_dst :: addr
  fl_descs :: nat
  fl_npages :: nat
  fl_sg :: "sg_ent list \<times> sg_ent list"

definition flush_init :: flush_st where
  "flush_init = \<lparr>fl_table = 0, fl_src = 0, fl_dst = 0, fl_descs = 0, fl_npages = 0, fl_sg = ([], [])\<rparr>"

fun flush_loop :: "nat \<Rightarrow> (flush_st \<Rightarrow> desc_p \<Rightarrow> flush_st kern) \<Rightarrow> addr \<Rightarrow> bool \<Rightarrow> flush_st \<Rightarrow> flush_st kern" where
  "flush_loop 0 body r user st = failK Spin"
| "flush_loop (Suc n) body r user st = (bindK (flush_next r user (fl_descs st)) (\<lambda>k.
  case k of
       Flushed \<Rightarrow> ret st
     | Again \<Rightarrow> flush_loop n body r user st
     | Take desc \<Rightarrow> (bindK (body st desc) (\<lambda>st1.
       bindK (k_enqueue r Qissued desc) (\<lambda>c.
       flush_loop n body r user (st1\<lparr>fl_descs := fl_descs st1 + 1\<rparr>))))))"

text \<open>\<^verbatim>\<open>atomic_inc_return\<close> on the two counters of transactions.\<close>

definition next_tx :: "bool \<Rightarrow> int kern" where
  "next_tx user = (seqK (modK (\<lambda>s. if user then s\<lparr>usr_nr_tx := usr_nr_tx s + 1\<rparr> else s\<lparr>ker_nr_tx := ker_nr_tx s + 1\<rparr>)) (
    getK (\<lambda>s. sint (if user then usr_nr_tx s else ker_nr_tx s))))"

definition fill_table :: "addr \<Rightarrow> addr \<Rightarrow> addr \<Rightarrow> bool \<Rightarrow> flush_st \<Rightarrow> unit kern" where
  "fill_table t r mm user st = (seqK (upd_table t (\<lambda>T. T\<lparr>t_region := r, t_mm := mm, num_mig_descs := int (fl_descs st),
       num_pages := int (fl_npages st)\<rparr>)) (
    bindK (next_tx user) (\<lambda>tx.
    upd_table t (\<lambda>T. T\<lparr>user_cpu := tx\<rparr>))))"

section \<open>Migration\<close>

text \<open>One page: it is looked up, taken off the LRU and appended to the table.\<close>

definition flush_page :: "addr \<Rightarrow> addr \<Rightarrow> addr \<Rightarrow> desc_p \<Rightarrow> 64 word \<Rightarrow> nat \<Rightarrow> nat \<Rightarrow> nat kern" where
  "flush_page r mm t desc base npages j = (let paddr = uint (base + of_nat j * 4096) in
    bindK (call ''find_vma'' [mm, paddr]) (\<lambda>vma.
    seqK (check_vma vma paddr) (
    bindK (get_desc r desc (\<lambda>d. uint (node d))) (\<lambda>nd.
    seqK (BUG_ON (nd < 0 \<or> 1 < nd)) (
    bindK (call ''follow_page FOLL_GET|FOLL_SPLIT'' [vma, paddr]) (\<lambda>p.
    seqK (BUG_ON (IS_ERR p)) (
    seqK (BUG_ON (p = 0)) (
    bindK (callb ''PageReserved'' [p]) (\<lambda>rsv.
    seqK (BUG_ON rsv) (
    bindK (call ''page_to_nid'' [p]) (\<lambda>nid.
    seqK (BUG_ON (nid = nd)) (
    bindK (call ''page_mapcount'' [p]) (\<lambda>mc.
    seqK (BUG_ON (1 < mc)) (
    bindK (call ''isolate_lru_page'' [p]) (\<lambda>err.
    seqK (BUG_ON (err \<noteq> 0)) (
    seqK (upd_table t (\<lambda>T. T\<lparr>pagelist := pagelist T @ [p]\<rparr>)) (
    bindK (call ''page_is_file_cache'' [p]) (\<lambda>fc.
    seqK (exec ''inc_zone_page_state NR_ISOLATED_ANON'' [p, fc]) (
    seqK (upd_pg t npages (\<lambda>d. d\<lparr>mig := desc\<rparr>)) (
    seqK (exec ''put_page'' [p]) (
    seqK (upd_pg t npages (\<lambda>d. d\<lparr>status := 0\<rparr>)) (
    bindK (getK max_nr_sg) (\<lambda>mx.
    seqK (BUG_ON (npages = mx)) (
    ret (npages + 1)))))))))))))))))))))))))"

definition flush_desc :: "variant \<Rightarrow> addr \<Rightarrow> addr \<Rightarrow> flush_st \<Rightarrow> desc_p \<Rightarrow> flush_st kern" where
  "flush_desc v r mm st desc = (bindK (if fl_table st = 0 then (bindK (v_alloc_table v) (\<lambda>t.
       seqK (upd_table t (\<lambda>T. T\<lparr>pagelist := []\<rparr>)) (
       ret t)))
           else ret (fl_table st)) (\<lambda>t.
    bindK (get_desc r desc (\<lambda>d. base_to_virt (virt_base d))) (\<lambda>base.
    bindK (get_desc r desc page_count_of) (\<lambda>count.
    bindK (foldK (flush_page r mm t desc base) (fl_npages st) [0..<count]) (\<lambda>npages.
    ret (st\<lparr>fl_table := t, fl_npages := npages\<rparr>))))))"

definition flush_single_qreq_by :: "variant \<Rightarrow> nat \<Rightarrow> addr \<Rightarrow> bool \<Rightarrow> addr \<Rightarrow> nat kern" where
  "flush_single_qreq_by v n r user mm = (seqK (assertK (r \<noteq> 0)) (
    seqK (assertK (mm \<noteq> 0)) (
    seqK (exec ''down_read'' [mm]) (
    bindK (getK (\<lambda>s. 2 * flush_fuel r s)) (\<lambda>fuel.
    bindK (flush_loop fuel (flush_desc v r mm) r user flush_init) (\<lambda>st.
    let t = fl_table st in
    if fl_descs st = 0 then (seqK (BUG_ON (t \<noteq> 0)) (
       seqK (exec ''mmput'' [mm]) (
       seqK (exec ''up_read'' [mm]) (
       ret 0))))
     else (bindK (get_table t pagelist) (\<lambda>pl.
       seqK (BUG_ON (pl = [])) (
       seqK (fill_table t r mm user st) (
       bindK (v_migrate v n MIGRATE_SYNC t) (\<lambda>err.
       seqK (BUG_ON (err \<noteq> 0)) (
       seqK (exec ''up_read'' [mm]) (
       ret (fl_descs st))))))))))))))"

definition flush_single_qreq :: "nat \<Rightarrow> addr \<Rightarrow> bool \<Rightarrow> addr \<Rightarrow> nat kern" where
  "flush_single_qreq = flush_single_qreq_by x86_driver"

section \<open>Replication\<close>

definition flush_copy_page ::
  "variant \<Rightarrow> int list \<Rightarrow> int list \<Rightarrow> nat \<times> (sg_ent list \<times> sg_ent list) \<Rightarrow> nat
     \<Rightarrow> (nat \<times> (sg_ent list \<times> sg_ent list)) kern" where
  "flush_copy_page v opage npage = (\<lambda>(npages, sgl) j. (seqK (BUG_ON (IS_ERR (opage ! j))) (
    seqK (BUG_ON (opage ! j = 0)) (
    bindK (call ''page_mapcount'' [opage ! j]) (\<lambda>mo.
    seqK (BUG_ON (1 < mo)) (
    seqK (BUG_ON (IS_ERR (npage ! j))) (
    seqK (BUG_ON (npage ! j = 0)) (
    bindK (call ''page_mapcount'' [npage ! j]) (\<lambda>mn.
    seqK (BUG_ON (1 < mn)) (
    bindK (getK max_nr_sg) (\<lambda>mx.
    seqK (BUG_ON (npages = mx)) (
    bindK (v_sg_add v mx (opage ! j) (npage ! j) sgl) (\<lambda>sgl1.
    ret (npages + 1, sgl1))))))))))))))"

definition flush_desc_copy :: "variant \<Rightarrow> addr \<Rightarrow> addr \<Rightarrow> flush_st \<Rightarrow> desc_p \<Rightarrow> flush_st kern" where
  "flush_desc_copy v r mm st desc = (bindK (if fl_table st = 0 then (bindK (v_alloc_table v) (\<lambda>t.
       bindK (getK max_nr_sg) (\<lambda>mx.
       bindK (call ''kmalloc'' [int mx]) (\<lambda>sg_src.
       bindK (call ''kmalloc'' [int mx]) (\<lambda>sg_dst.
       seqK (assertK (sg_src \<noteq> 0 \<and> sg_dst \<noteq> 0)) (
       seqK (exec ''sg_init_table'' [sg_dst, int mx]) (
       seqK (exec ''sg_init_table'' [sg_src, int mx]) (
       ret (t, sg_src, sg_dst)))))))))
       else ret (fl_table st, fl_src st, fl_dst st)) (\<lambda>(t, sg_src, sg_dst).
    bindK (get_desc r desc page_count_of) (\<lambda>count.
    bindK (get_desc r desc (\<lambda>d. uint (base_to_virt (virt_base d)))) (\<lambda>paddr.
    bindK (get_desc r desc (\<lambda>d. uint (base_to_virt (virt_base_dest d)))) (\<lambda>paddr1.
    bindK (call ''find_vma'' [mm, paddr]) (\<lambda>vma.
    bindK (call ''find_vma'' [mm, paddr1]) (\<lambda>vma1.
    seqK (check_vma vma paddr) (
    seqK (check_vma vma1 paddr1) (
    bindK (call ''kmalloc'' [int count]) (\<lambda>oa.
    bindK (call ''kmalloc'' [int count]) (\<lambda>na.
    seqK (BUG_ON (oa = 0 \<or> na = 0)) (
    bindK (follow_range False '' FOLL_SPLIT'' vma paddr count) (\<lambda>opage.
    bindK (follow_range False '' FOLL_SPLIT'' vma1 paddr1 count) (\<lambda>npage.
    bindK (foldK (flush_copy_page v opage npage) (fl_npages st, fl_sg st) [0..<count]) (\<lambda>(npages, sgl).
    seqK (exec ''kfree'' [oa]) (
    seqK (exec ''kfree'' [na]) (
    ret (st\<lparr>fl_table := t, fl_src := sg_src, fl_dst := sg_dst, fl_npages := npages, fl_sg := sgl\<rparr>))))))))))))))))))"

definition submit_flushed :: "addr \<Rightarrow> flush_st \<Rightarrow> unit kern" where
  "submit_flushed t st = (bindK (getK (\<lambda>s. chans s 0)) (\<lambda>chan.
    seqK (BUG_ON (chan = 0)) (
    seqK (BUG_ON (fst (fl_sg st) = [] \<or> snd (fl_sg st) = [])) (
    seqK (exec ''sg_mark_end'' [fl_src st, int (length (fst (fl_sg st))) - 1]) (
    seqK (exec ''sg_mark_end'' [fl_dst st, int (length (snd (fl_sg st))) - 1]) (
    seqK (upd_pg t (fl_npages st) (\<lambda>d. d\<lparr>page := 0\<rparr>)) (
    bindK (call ''device_prep_dma_sg'' (chan # int (fl_npages st) # int (fl_npages st) # 1
             # sg_args (snd (fl_sg st)) @ sg_args (fst (fl_sg st)))) (\<lambda>tx.
    seqK (BUG_ON (tx = 0)) (
    seqK (exec ''tx->callback = dma_callback_noremap'' [tx, t]) (
    seqK (exec ''dmaengine_submit'' [tx]) (
    exec ''dma_async_issue_pending'' [chan])))))))))))"

definition flush_single_qreq_noremap2_by :: "variant \<Rightarrow> addr \<Rightarrow> bool \<Rightarrow> addr \<Rightarrow> nat kern" where
  "flush_single_qreq_noremap2_by v r user mm = (seqK (assertK (r \<noteq> 0)) (
    seqK (assertK (mm \<noteq> 0)) (
    seqK (exec ''down_read'' [mm]) (
    bindK (getK (\<lambda>s. 2 * flush_fuel r s)) (\<lambda>fuel.
    bindK (flush_loop fuel (flush_desc_copy v r mm) r user flush_init) (\<lambda>st.
    let t = fl_table st in
    seqK (if fl_descs st = 0 then (seqK (BUG_ON (t \<noteq> 0)) (
       exec ''mmput'' [mm]))
     else (seqK (fill_table t r mm user st) (
       submit_flushed t st))) (
    seqK (exec ''up_read'' [mm]) (
    seqK (exec ''kfree'' [fl_dst st]) (
    seqK (exec ''kfree'' [fl_src st]) (
    ret (fl_descs st)))))))))))"

definition flush_single_qreq_noremap2 :: "addr \<Rightarrow> bool \<Rightarrow> addr \<Rightarrow> nat kern" where
  "flush_single_qreq_noremap2 = flush_single_qreq_noremap2_by x86_driver"

section \<open>Completion of a flushed transfer\<close>

text \<open>The entries up to the one whose page is null.\<close>

fun complete_marked :: "variant \<Rightarrow> addr \<Rightarrow> nat list \<Rightarrow> unit kern" where
  "complete_marked v t [] = ret ()"
| "complete_marked v t (i # is) = (bindK (get_pg t i) (\<lambda>d.
  if page d = 0 then ret () else seqK (v_complete_one v t i) (complete_marked v t is)))"

definition finish_issued :: "addr \<Rightarrow> nat \<Rightarrow> unit kern" where
  "finish_issued r k = forK [0..<k] (\<lambda>i. (bindK (k_dequeue r Qissued) (\<lambda>d.
    seqK (BUG_ON (d = None)) (
    seqK (set_desc r (the d) mark_mig_desc_comp) (
    bindK (k_enqueue r Qcomp (the d)) (\<lambda>c.
    ret ()))))))"

definition do_dma_complete_by :: "variant \<Rightarrow> nat \<Rightarrow> addr \<Rightarrow> unit kern" where
  "do_dma_complete_by v n t = (bindK (get_table t t_region) (\<lambda>r.
    bindK (get_table t t_mm) (\<lambda>mm.
    bindK (getK max_nr_sg) (\<lambda>mx.
    seqK (exec ''down_read'' [mm]) (
    seqK (complete_marked v t [0..<mx]) (
    seqK (exec ''up_read'' [mm]) (
    seqK (BUG_ON (r = 0)) (
    bindK (get_table t num_mig_descs) (\<lambda>k.
    seqK (finish_issued r (nat k)) (
    bindK (k_color r Qreq) (\<lambda>c.
    seqK (whenK (c = COLOR_KER) (seqK (assertK (mm \<noteq> 0)) (
       bindK (flush_single_qreq_by v n r False mm) (\<lambda>i.
       ret ())))) (
    free_table_of (v_order v) t))))))))))))"

definition do_dma_complete :: "nat \<Rightarrow> addr \<Rightarrow> unit kern" where
  "do_dma_complete = do_dma_complete_by x86_driver"

definition dma_complete_work :: "nat \<Rightarrow> addr \<Rightarrow> unit kern" where
  "dma_complete_work n t = do_dma_complete n t"

definition dma_complete_work_noremap_by :: "variant \<Rightarrow> addr \<Rightarrow> unit kern" where
  "dma_complete_work_noremap_by v t = (bindK (get_table t t_region) (\<lambda>r.
    seqK (BUG_ON (t = 0)) (
    bindK (k_color r Qreq) (\<lambda>c.
    seqK (whenK (c = COLOR_KER) (bindK (get_table t t_mm) (\<lambda>mm.
       seqK (assertK (mm \<noteq> 0)) (
       bindK (flush_single_qreq_noremap2_by v r False mm) (\<lambda>i.
       ret ()))))) (
    free_table_of (v_order v) t)))))"

definition dma_complete_work_noremap :: "addr \<Rightarrow> unit kern" where
  "dma_complete_work_noremap = dma_complete_work_noremap_by x86_driver"

section \<open>Balances of a replication flush\<close>

lemma quiet_queue_ops [simp]:
  "quiet w (k_dequeue r q)" "quiet w (k_enqueue r q d)" "quiet w (k_set_color r q c)"
  "quiet w (k_color r q)" "quiet w (k_is_empty r q)"
proof -
  have 1: "quiet w (interfere r)"
    unfolding interfere_def by (rule quiet_modK) (simp add: split_beta Let_def)
  have 2: "quiet w (lib_op r f)" for f :: "mig_region \<Rightarrow> fault + 'a \<times> mig_region"
    by (auto simp: shifts_def lib_op_def weight_def split: sum.splits)
  show "quiet w (k_dequeue r q)" "quiet w (k_enqueue r q d)" "quiet w (k_set_color r q c)"
    "quiet w (k_color r q)" "quiet w (k_is_empty r q)"
    by (simp_all add: k_dequeue_def k_enqueue_def k_set_color_def k_color_def k_is_empty_def 1 2)
qed

text \<open>One unit for each \<^verbatim>\<open>mmput\<close> of \<open>mm\<close>.\<close>

definition put_w :: "addr \<Rightarrow> kevent \<Rightarrow> int" where
  "put_w mm = (\<lambda>(f, xs, v). if f = ''mmput'' \<and> xs = [mm] then 1 else 0)"

lemma put_w_simps [simp]:
  "put_w mm (''mmput'', [mm], v) = 1" "f \<noteq> ''mmput'' \<Longrightarrow> put_w mm (f, xs, v) = 0"
  by (simp_all add: put_w_def)

lemma quiet_flush_step [simp]: "quiet w (case k of Take d \<Rightarrow> f d | Again \<Rightarrow> m | Flushed \<Rightarrow> n)"
  if "\<And>d. quiet w (f d)" "quiet w m" "quiet w n" for w
  using that by (cases k) simp_all

lemma quiet_flush_loop:
  assumes "\<And>st d. quiet w (body st d)" and "\<And>xs v. w (''wake_up_interruptible'', xs, v) = 0"
  shows "quiet w (flush_loop n body r user st)"
proof (induction n arbitrary: st)
  case (Suc n)
  have "quiet w (flush_next r user i)" for i
    using assms(2) by (simp add: flush_next_def)
  then show ?case using Suc assms(1) by simp
qed simp

lemma quiet_flush_copy_parts [simp]:
  "quiet (sem_w m) (flush_copy_page x86_driver op np p j)" "quiet (put_w m) (flush_copy_page x86_driver op np p j)"
  "quiet (sem_w m) (submit_flushed t st)" "quiet (put_w m) (submit_flushed t st)"
  "quiet (sem_w m) (fill_table t r mm user st)" "quiet (put_w m) (fill_table t r mm user st)"
  by (cases p; auto simp: flush_copy_page_def mp_sg_add_def submit_flushed_def fill_table_def next_tx_def split_beta Let_def)+

lemma quiet_put_parts [simp]:
  "quiet (put_w m) alloc_table" "quiet (put_w m) (check_vma v a)" "quiet (put_w m) (follow_range h fl v a n)"
  by (simp_all add: alloc_table_def check_vma_def follow_range_def call_array_def)

lemma quiet_flush_desc_copy [simp]:
  "quiet (sem_w m) (flush_desc_copy x86_driver r mm st d)" "quiet (put_w m) (flush_desc_copy x86_driver r mm st d)"
  by (simp_all add: flush_desc_copy_def split_beta)

lemma flush_noremap_sem: "quiet (sem_w mm) (flush_single_qreq_noremap2 r user mm)"
  unfolding flush_single_qreq_noremap2_def flush_single_qreq_noremap2_by_def
  by (simp add: quiet_flush_loop Let_def)

text \<open>The reference to \<open>mm\<close> is dropped exactly when nothing was flushed.\<close>

lemma flush_noremap_put: "shifts (put_w mm) (flush_single_qreq_noremap2 r user mm) (\<lambda>i. if i = 0 then 1 else 0)"
proof -
  have 1: "shifts (put_w mm) (let t = fl_table st in
     seqK (if fl_descs st = 0 then seqK (BUG_ON (t \<noteq> 0)) (exec ''mmput'' [mm])
           else seqK (fill_table t r mm user st) (submit_flushed t st))
       (seqK (exec ''up_read'' [mm]) (seqK (exec ''kfree'' [fl_dst st])
          (seqK (exec ''kfree'' [fl_src st]) (ret (fl_descs st))))))
     (\<lambda>i. if i = 0 then 1 else 0)" for st
  proof (cases "fl_descs st = 0")
    case True
    have m: "shifts (put_w mm) (seqK (BUG_ON (fl_table st \<noteq> 0)) (exec ''mmput'' [mm])) (\<lambda>_. 1)"
      by (simp add: shifts_exec)
    show ?thesis unfolding Let_def using True by (simp, intro shifts_seqK [OF m]) simp
  next
    case False
    then show ?thesis unfolding Let_def by (simp add: shifts_step)
  qed
  show ?thesis
    unfolding flush_single_qreq_noremap2_def flush_single_qreq_noremap2_by_def
    by (intro shifts_step) (simp_all add: quiet_flush_loop 1)
qed

end
