(* ===== verification/DrvIf.thy ===== *)
theory DrvIf
  imports DrvFlush
begin

text \<open>
  The device files of the driver (\<^verbatim>\<open>migrate-x86/migrate-x86.c\<close>): \<^verbatim>\<open>if_open\<close>, \<^verbatim>\<open>if_mmap\<close>,
  \<^verbatim>\<open>if_close\<close>, \<^verbatim>\<open>if_write\<close> with its commands, \<^verbatim>\<open>if_poll\<close>, the operations of the mapping, the two
  queue testers, and module entry and exit.  Tracing (\<^verbatim>\<open>k2_measure\<close>, the log macros) is left out.
\<close>

section \<open>Testers\<close>

definition k_freelist_remove :: "addr \<Rightarrow> desc_p option kern" where
  "k_freelist_remove r = seqK (interfere r) (lib_op r freelist_remove)"

text \<open>One round of the loop: false when no descriptor is free.\<close>

definition fill_one :: "nat \<Rightarrow> addr \<Rightarrow> bool kern" where
  "fill_one cnt r = (bindK (k_freelist_remove r) (\<lambda>d.
    case d of None \<Rightarrow> ret False
     | Some desc \<Rightarrow> (seqK (set_desc r desc (set_virt_base (of_nat cnt))) (
       bindK (k_enqueue r Qreq desc) (\<lambda>c.
       ret True)))))"

text \<open>The loop stops after 7999 descriptors at the latest: \<^verbatim>\<open>cnt\<close> starts at 1 and stops at 8000.\<close>

fun fill_queue :: "nat \<Rightarrow> nat \<Rightarrow> addr \<Rightarrow> nat kern" where
  "fill_queue 0 cnt r = ret cnt"
| "fill_queue (Suc k) cnt r = (bindK (fill_one cnt r) (\<lambda>more.
  if more then fill_queue k (cnt + 1) r else ret cnt))"

definition test_fill_queue :: "addr \<Rightarrow> unit kern" where
  "test_fill_queue r = (seqK (assertK (r \<noteq> 0)) (
    bindK (fill_queue 7999 1 r) (\<lambda>cnt.
    ret ())))"

definition NCPUS :: nat where "NCPUS = 4"

text \<open>\<^verbatim>\<open>int cnt = desc->virt_base\<close> keeps the low 32 bits; \<^verbatim>\<open>desc_put\<close> does nothing.\<close>

fun empty_queue :: "nat \<Rightarrow> int list \<Rightarrow> addr \<Rightarrow> int list kern" where
  "empty_queue 0 cnts r = failK Spin"
| "empty_queue (Suc k) cnts r = (bindK (k_dequeue r Qreq) (\<lambda>d.
  case d of None \<Rightarrow> ret cnts
     | Some desc \<Rightarrow> (bindK (get_desc r desc (\<lambda>d. unat (flag d))) (\<lambda>tid.
       bindK (get_desc r desc (\<lambda>d. sint (ucast (virt_base d) :: 32 word))) (\<lambda>cnt.
       seqK (assertK (tid < NCPUS)) (
       seqK (assertK (cnt = cnts ! tid)) (
       empty_queue k (cnts[tid := cnts ! tid + 1]) r)))))))"

definition test_empty_queue :: "addr \<Rightarrow> unit kern" where
  "test_empty_queue r = (bindK (getK (flush_fuel r)) (\<lambda>fuel.
    bindK (empty_queue fuel (replicate NCPUS 0) r) (\<lambda>cnts.
    ret ())))"

section \<open>Mappings\<close>

definition mmap_open :: "addr \<Rightarrow> unit kern" where
  "mmap_open vma = (bindK (getK (\<lambda>s. vma_priv s vma)) (\<lambda>info.
    upd_info info (\<lambda>i. i\<lparr>reference := reference i + 1\<rparr>)))"

definition mmap_close :: "addr \<Rightarrow> unit kern" where
  "mmap_close vma = (bindK (getK (\<lambda>s. vma_priv s vma)) (\<lambda>info.
    upd_info info (\<lambda>i. i\<lparr>reference := reference i - 1\<rparr>)))"

definition PAGE_SHIFT :: nat where "PAGE_SHIFT = 12"

text \<open>The page handed to the fault is \<^verbatim>\<open>vmf->page\<close>, if it is set.\<close>

definition mmap_fault :: "addr \<Rightarrow> nat \<Rightarrow> (int \<times> addr option) kern" where
  "mmap_fault vma pgoff = (bindK (getK (\<lambda>s. vma_priv s vma)) (\<lambda>info.
    bindK (get_info info i_region) (\<lambda>r.
    if r = 0 then ret (0, None)
     else if NPAGES - 1 < int pgoff then ret (-1, None)
     else (bindK (call ''virt_to_page'' [r + int pgoff * 2 ^ PAGE_SHIFT]) (\<lambda>p.
       if p = 0 then ret (-1, None)
       else (seqK (exec ''get_page'' [p]) (
         ret (0, Some p))))))))"

section \<open>Files\<close>

text \<open>\<^verbatim>\<open>!strncmp(a, b, n)\<close> on strings with their terminating zero.\<close>

definition strn_eq :: "nat \<Rightarrow> string \<Rightarrow> string \<Rightarrow> bool" where
  "strn_eq n a b = (take n (a @ [CHR 0x00]) = take n (b @ [CHR 0x00]))"

fun find_device :: "string \<Rightarrow> int \<Rightarrow> string list \<Rightarrow> int option" where
  "find_device nm i [] = None"
| "find_device nm i (f # fs) = (if strn_eq 7 nm f then Some i else find_device nm (i + 1) fs)"

definition NPAGEORDER :: int where "NPAGEORDER = 2"

definition region_mem :: "kst \<Rightarrow> addr \<Rightarrow> nat \<Rightarrow> mig_desc" where
  "region_mem s p = (\<lambda>i. if i < length (desc_array (regs s p)) then desc_at (regs s p) i else page_mem s p i)"

text \<open>\<^verbatim>\<open>init_migregion(r, sz)\<close> on the pages at \<open>p\<close>; the driver uses all of its pages but the last.\<close>

definition k_init_bytes :: "addr \<Rightarrow> int \<Rightarrow> unit kern" where
  "k_init_bytes p sz = (bindK (getK (\<lambda>s. region_mem s p)) (\<lambda>mem.
    lib_op p (\<lambda>R. map_sum id (Pair ()) (init_migregion mem R (of_int sz)))))"

definition k_init_region :: "addr \<Rightarrow> unit kern" where
  "k_init_region p = k_init_bytes p ((NPAGES - 1) * PAGE_SIZE)"

definition if_open_by :: "variant \<Rightarrow> string \<Rightarrow> addr \<Rightarrow> int kern" where
  "if_open_by v nm filp = (seqK (BUG_ON (find_device nm 0 (v_names v) = None)) (
    let device_id = the (find_device nm 0 (v_names v)) in
    bindK (getK (\<lambda>s. filp_priv s filp)) (\<lambda>pd.
    if pd \<noteq> 0 then ret (-1)
     else (bindK (call ''__get_free_pages'' [NPAGEORDER]) (\<lambda>p.
       seqK (assertK (p \<noteq> 0)) (
       let info = p + PAGE_SIZE * (NPAGES - 1) in
       seqK (upd_info info (\<lambda>i. i\<lparr>i_region := p\<rparr>)) (
       bindK (getK (\<lambda>s. chans s device_id)) (\<lambda>ch.
       seqK (whenK (ch = 0) (bindK (v_init_chan v) (\<lambda>c.
         seqK (modK (\<lambda>s. s\<lparr>chans := (chans s)(device_id := c)\<rparr>)) (
         BUG_ON (c = 0))))) (
       bindK (getK (\<lambda>s. chans s device_id)) (\<lambda>ch1.
       seqK (upd_info info (\<lambda>i. i\<lparr>i_chan := ch1\<rparr>)) (
       seqK (k_init_region p) (
       seqK (exec ''init_waitqueue_head'' [info]) (
       seqK (exec ''sema_init'' [info, 1]) (
       seqK (modK (\<lambda>s. s\<lparr>filp_priv := (filp_priv s)(filp := info)\<rparr>)) (
       ret 0)))))))))))))))"

definition if_open :: "string \<Rightarrow> addr \<Rightarrow> int kern" where
  "if_open = if_open_by x86_driver"

definition if_mmap :: "addr \<Rightarrow> addr \<Rightarrow> int kern" where
  "if_mmap filp vma = (seqK (exec ''vma->vm_ops = &mmap_vm_ops'' [vma]) (
    seqK (exec ''vma->vm_flags |= VM_RESERVED'' [vma]) (
    bindK (getK (\<lambda>s. filp_priv s filp)) (\<lambda>pd.
    seqK (modK (\<lambda>s. s\<lparr>vma_priv := (vma_priv s)(vma := pd)\<rparr>)) (
    seqK (mmap_open vma) (
    ret 0))))))"

definition if_close :: "addr \<Rightarrow> int kern" where
  "if_close filp = (seqK (modK (\<lambda>s. s\<lparr>filp_priv := (filp_priv s)(filp := 0)\<rparr>)) (
    ret 0))"

definition EFAULT :: int where "EFAULT = 14"

text \<open>\<open>n\<close> bounds the walks over the buffers of a page.\<close>

definition do_cmd :: "variant \<Rightarrow> nat \<Rightarrow> addr \<Rightarrow> int \<Rightarrow> unit kern" where
  "do_cmd v n r cmd =
     (if cmd = MIG_INIT_REGION then k_init_region r
      else if cmd = MIG_FILL_QREQ then test_fill_queue r
      else if cmd = MIG_EMPTY_QREQ then test_empty_queue r
      else if cmd = MIG_MOVE_SINGLE then (bindK (call ''get_task_mm(current)'' []) (\<lambda>mm.
        bindK (flush_single_qreq_by v n r True mm) (\<lambda>i.
        ret ())))
      else if cmd = MIG_MOVE_SINGLE_NOREMAP then (bindK (call ''get_task_mm(current)'' []) (\<lambda>mm.
        bindK (user_flush_by v r mm (-1) Issue_copy) (\<lambda>i.
        exec ''mmput'' [mm])))
      else if cmd = MIG_MOVE_SINGLE_MIG then (bindK (call ''get_task_mm(current)'' []) (\<lambda>mm.
        bindK (user_flush_by v r mm (-1) Issue_mig) (\<lambda>i.
        exec ''mmput'' [mm])))
      else ret ())"

text \<open>What \<^verbatim>\<open>copy_from_user\<close> copies when it succeeds is the caller's memory at \<open>u\<close>.\<close>

definition if_write_by :: "variant \<Rightarrow> nat \<Rightarrow> addr \<Rightarrow> addr \<Rightarrow> nat \<Rightarrow> int kern" where
  "if_write_by v n filp u sz = (bindK (getK (\<lambda>s. filp_priv s filp)) (\<lambda>info.
    if sz < 4 then ret (- EFAULT)
     else (bindK (callb ''copy_from_user'' [u, 4]) (\<lambda>bad.
       if bad then ret (- EFAULT)
       else (bindK (getK (\<lambda>s. umem s u)) (\<lambda>cmd.
         bindK (get_info info i_region) (\<lambda>r.
         seqK (do_cmd v n r cmd) (
         ret (int sz)))))))))"

definition if_write :: "nat \<Rightarrow> addr \<Rightarrow> addr \<Rightarrow> nat \<Rightarrow> int kern" where
  "if_write = if_write_by x86_driver"

definition if_ioctl :: "addr \<Rightarrow> int \<Rightarrow> int \<Rightarrow> int kern" where
  "if_ioctl filp cmd arg = ret 0"

definition POLLIN :: "32 word" where "POLLIN = 1"
definition POLLRDNORM :: "32 word" where "POLLRDNORM = 0x40"

definition if_poll :: "addr \<Rightarrow> addr \<Rightarrow> 32 word kern" where
  "if_poll filp wait = (bindK (getK (\<lambda>s. filp_priv s filp)) (\<lambda>info.
    seqK (exec ''down'' [info]) (
    seqK (exec ''poll_wait'' [filp, info, wait]) (
    seqK (exec ''up'' [info]) (
    bindK (get_info info i_region) (\<lambda>r.
    bindK (k_is_empty r Qcomp) (\<lambda>e.
    ret (0 OR (if \<not> e then POLLIN OR POLLRDNORM else 0)))))))))"

section \<open>The module\<close>

definition init_device :: "variant \<Rightarrow> nat \<Rightarrow> unit kern" where
  "init_device v i = (bindK (call ''debugfs_create_file'' [int i]) (\<lambda>f.
    seqK (modK (\<lambda>s. s\<lparr>debugif := (debugif s)(int i := f)\<rparr>)) (
    seqK (BUG_ON (f = 0)) (
    bindK (v_init_chan v) (\<lambda>c.
    modK (\<lambda>s. s\<lparr>chans := (chans s)(int i := c)\<rparr>))))))"

definition migks2_module_init_by :: "variant \<Rightarrow> int kern" where
  "migks2_module_init_by v = (seqK (forK [0..<length (v_names v)] (init_device v)) (
    ret 0))"

definition migks2_module_init :: "int kern" where
  "migks2_module_init = migks2_module_init_by x86_driver"

definition migks2_module_exit_by :: "variant \<Rightarrow> unit kern" where
  "migks2_module_exit_by v = forK [0..<length (v_names v)] (\<lambda>i. (bindK (getK (\<lambda>s. debugif s (int i))) (\<lambda>f.
    seqK (whenK (f \<noteq> 0) (exec ''debugfs_remove'' [f])) (
    bindK (getK (\<lambda>s. chans s (int i))) (\<lambda>c.
    whenK (c \<noteq> 0) (exec ''dma_release_channel'' [c]))))))"

definition migks2_module_exit :: "unit kern" where
  "migks2_module_exit = migks2_module_exit_by x86_driver"

section \<open>Opening a device\<close>

lemma k_init_bytes_ok:
  assumes n: "1 \<le> n" "n \<le> 512"
  shows "\<exists>R. k_init_bytes p (n * 4096) s = Inr ((), s\<lparr>regs := (regs s)(p := R)\<rparr>) \<and> wf_region R {}
    \<and> (\<forall>q\<in>set live_qs. contents R q = []) \<and> color_of R Qreq = COLOR_USR
    \<and> unat (ndescs R) = (nat (n * 4096) - 152) div 32 \<and> nfree R + 3 = unat (ndescs R)"
proof -
  have i: "sint (of_int (n * 4096) :: 32 word) = n * 4096"
    using n by (simp add: signed_of_int del: of_int_mult, intro signed_take_bit_int_eq_self; simp)
  have "\<exists>R. init_migregion (region_mem s p) (regs s p) (of_int (n * 4096)) = Inr R \<and> wf_region R {}
    \<and> (\<forall>q\<in>set live_qs. contents R q = [])
    \<and> color_of R Qreq = COLOR_USR \<and> color_of R Qissued = COLOR_NONE \<and> color_of R Qcomp = COLOR_NONE
    \<and> unat (ndescs R) = (nat (sint (of_int (n * 4096) :: 32 word)) - 152) div 32 \<and> nfree R + 3 = unat (ndescs R)"
    by (rule init_migregion_ok) (use n in \<open>simp_all only: i\<close>, simp_all)
  then show ?thesis unfolding i by (auto simp: k_init_bytes_def bindK_run lib_op_def)
qed

lemma k_init_region_ok:
  "\<exists>R. k_init_region p s = Inr ((), s\<lparr>regs := (regs s)(p := R)\<rparr>) \<and> wf_region R {}
    \<and> (\<forall>q\<in>set live_qs. contents R q = []) \<and> color_of R Qreq = COLOR_USR
    \<and> unat (ndescs R) = 379 \<and> nfree R = 376"
proof -
  have "(3::int) \<le> 512" "(1::int) \<le> 3" by simp_all
  from k_init_bytes_ok [OF this(2,1), of p s] show ?thesis
    by (auto simp: k_init_region_def NPAGES_def PAGE_SIZE_def)
qed

lemma if_open_by_ok:
  assumes d: "find_device nm 0 (v_names v) = Some i" and f: "filp_priv s filp = 0"
    and a: "\<And>h xs. answer s h ''__get_free_pages'' xs \<noteq> 0"
    and v: "v_init_chan v = call req as" and c: "chans s i \<noteq> 0 \<or> (\<forall>h. answer s h req as \<noteq> 0)"
  shows "\<exists>s1 p. if_open_by v nm filp s = Inr (0, s1) \<and> (chans s i \<noteq> 0 \<longrightarrow> chans s1 = chans s) \<and> p \<noteq> 0 \<and> filp_priv s1 filp = region_to_mmap_info p
    \<and> i_region (infos s1 (region_to_mmap_info p)) = p \<and> i_chan (infos s1 (region_to_mmap_info p)) = chans s1 i
    \<and> chans s1 i \<noteq> 0 \<and> wf_region (regs s1 p) {} \<and> (\<forall>q\<in>set live_qs. contents (regs s1 p) q = [])
    \<and> color_of (regs s1 p) Qreq = COLOR_USR \<and> unat (ndescs (regs s1 p)) = 379 \<and> nfree (regs s1 p) = 376"
proof -
  let ?c = "\<lambda>s f xs. s\<lparr>hist := hist s @ [(f, xs, answer s (hist s) f xs)]\<rparr>"
  define p where "p = answer s (hist s) ''__get_free_pages'' [NPAGEORDER]"
  define s0 where "s0 = ?c s ''__get_free_pages'' [NPAGEORDER]"
  define s1 where "s1 = s0\<lparr>infos := (infos s0)(region_to_mmap_info p := (infos s0 (region_to_mmap_info p))\<lparr>i_region := p\<rparr>)\<rparr>"
  have p0: "p \<noteq> 0" using a by (simp add: p_def)
  obtain s2 where s2: "whenK (chans s1 i = 0) (bindK (call req as) (\<lambda>c.
      seqK (modK (\<lambda>s. s\<lparr>chans := (chans s)(i := c)\<rparr>)) (BUG_ON (c = 0)))) s1 = Inr ((), s2)"
    "chans s2 i \<noteq> 0" "chans s i \<noteq> 0 \<longrightarrow> chans s2 = chans s" "infos s2 = infos s1" "answer s2 = answer s" "filp_priv s2 = filp_priv s"
    using c
    by (cases "chans s1 i = 0") (auto simp: whenK_def bindK_run call_run seqK_run s1_def s0_def)
  define s3 where "s3 = s2\<lparr>infos := (infos s2)(region_to_mmap_info p := (infos s2 (region_to_mmap_info p))\<lparr>i_chan := chans s2 i\<rparr>)\<rparr>"
  obtain R where R: "k_init_region p s3 = Inr ((), s3\<lparr>regs := (regs s3)(p := R)\<rparr>)" "wf_region R {}"
    "\<forall>q\<in>set live_qs. contents R q = []" "color_of R Qreq = COLOR_USR" "unat (ndescs R) = 379" "nfree R = 376"
    using k_init_region_ok [of p s3] by blast
  define s4 where "s4 = s3\<lparr>regs := (regs s3)(p := R)\<rparr>"
  let ?s5 = "?c (?c s4 ''init_waitqueue_head'' [region_to_mmap_info p]) ''sema_init'' [region_to_mmap_info p, 1]"
  let ?s6 = "?s5\<lparr>filp_priv := (filp_priv ?s5)(filp := region_to_mmap_info p)\<rparr>"
  have "if_open_by v nm filp s = Inr (0, ?s6)"
    using d f p0 s2(1) R(1)
    by (simp add: if_open_by_def v seqK_run bindK_run call_run exec_run upd_info_def p_def [symmetric]
        region_to_mmap_info_def s0_def s1_def s3_def s4_def Let_def)
  then show ?thesis
    using s2(2-4) R p0
    by (intro exI [of _ ?s6] exI [of _ p]) (simp add: s4_def s3_def s1_def)
qed

lemma if_open_ok:
  assumes d: "find_device nm 0 debug_fnames = Some i" and f: "filp_priv s filp = 0"
    and a: "\<And>h xs. answer s h ''__get_free_pages'' xs \<noteq> 0"
    and c: "\<And>h xs. answer s h ''dma_request_channel DMA_MEMCPY'' xs \<noteq> 0"
  shows "\<exists>s1 p. if_open nm filp s = Inr (0, s1) \<and> filp_priv s1 filp = region_to_mmap_info p
    \<and> i_region (infos s1 (region_to_mmap_info p)) = p \<and> i_chan (infos s1 (region_to_mmap_info p)) = chans s1 i
    \<and> chans s1 i \<noteq> 0 \<and> wf_region (regs s1 p) {} \<and> (\<forall>q\<in>set live_qs. contents (regs s1 p) q = [])
    \<and> color_of (regs s1 p) Qreq = COLOR_USR \<and> unat (ndescs (regs s1 p)) = 379 \<and> nfree (regs s1 p) = 376"
  using if_open_by_ok [of nm x86_driver i s filp, OF _ f a] d c unfolding if_open_def
  by (fastforce simp: init_dma_chan_def)

lemma if_open_twice:
  assumes "find_device nm 0 debug_fnames = Some i" and "filp_priv s filp \<noteq> 0"
  shows "if_open nm filp s = Inr (-1, s)"
  using assms by (simp add: if_open_def if_open_by_def seqK_run bindK_run Let_def)

section \<open>Polling\<close>

lemma wf_is_empty:
  assumes wf: "wf_region R own" and q: "q \<in> set live_qs" and e: "contents R q = []"
  shows "migqueue_is_empty R q"
proof -
  obtain h xs where c: "queue_ok R q (h # xs) (color_of R q)" "contents R q = map (payload R) xs"
    using chain_of_Cons [OF wf q] by metis
  then have "queue_ok R q [h] (color_of R q)" using e by simp
  then have "unat (mp_index (q_tail (queues R q))) = h" "unat (mp_index (q_head (queues R q))) = h"
    by (auto simp: queue_ok_def)
  then show ?thesis by (simp add: migqueue_is_empty_def flip: unat_16_eq_iff)
qed

text \<open>A device is reported readable only when a completion is there.\<close>

lemma if_poll_ok:
  assumes ok: "dev_ok r own s" and r: "i_region (infos s (filp_priv s filp)) = r"
  shows "\<exists>s1. if_poll filp wait s = Inr (if migqueue_is_empty (regs s1 r) Qcomp then 0 else 65, s1) \<and> dev_ok r own s1
    \<and> (on_q s1 r Qcomp = [] \<longrightarrow> migqueue_is_empty (regs s1 r) Qcomp)"
proof -
  let ?c = "\<lambda>s f xs. s\<lparr>hist := hist s @ [(f, xs, answer s (hist s) f xs)]\<rparr>"
  let ?i = "filp_priv s filp"
  define s1 where "s1 = ?c (?c (?c s ''down'' [?i]) ''poll_wait'' [filp, ?i, wait]) ''up'' [?i]"
  have ok1: "dev_ok r own s1" using ok by (simp add: dev_ok_def todo_def s1_def)
  obtain s2 where s2: "interfere r s1 = Inr ((), s2)" "users_ran r own s1 s2"
    using interfere_ok [OF ok1] by blast
  have wf: "wf_region (regs s2 r) own" using s2(2) by (simp add: users_ran_def dev_ok_def)
  have "if_poll filp wait s = Inr (if migqueue_is_empty (regs s2 r) Qcomp then 0 else 65, s2)"
    using r s2(1)
    by (simp add: if_poll_def seqK_run bindK_run exec_run get_info_def k_is_empty_def POLLIN_def POLLRDNORM_def s1_def)
  then show ?thesis using users_ranD(1) [OF s2(2)] wf_is_empty [OF wf qs_live(3)] by (auto simp: on_q_def)
qed

section \<open>Mappings\<close>

lemma mmap_open_close:
  assumes "vma_priv s vma = i"
  shows "\<exists>s1 s2. mmap_open vma s = Inr ((), s1) \<and> mmap_close vma s1 = Inr ((), s2)
    \<and> reference (infos s1 i) = reference (infos s i) + 1 \<and> infos s2 = infos s"
  using assms by (simp add: mmap_open_def mmap_close_def bindK_run upd_info_def)

lemma mmap_fault_cases:
  assumes "i_region (infos s (vma_priv s vma)) = r" and "r \<noteq> 0"
    and "\<And>h xs. answer s h ''virt_to_page'' xs \<noteq> 0"
  shows "\<exists>s1. mmap_fault vma n s =
    (if 3 < n then Inr ((-1, None), s)
     else Inr ((0, Some (answer s (hist s) ''virt_to_page'' [r + 4096 * int n])), s1))"
  using assms by (auto simp: mmap_fault_def bindK_run get_info_def call_run exec_run seqK_run NPAGES_def PAGE_SHIFT_def
      mult.commute)

section \<open>The queue testers\<close>

lemma interfere_none: "sched s r = [] \<Longrightarrow> interfere r s = Inr ((), s)"
  by (simp add: interfere_def next_chunk_def fun_upd_idem)

definition base_words :: "nat \<Rightarrow> words2 \<Rightarrow> words2" where
  "base_words n = (\<lambda>(a, b). (bf_set 0 52 (of_nat n) a, b))"

lemma set_base_words: "upd_desc p (set_virt_base (of_nat n)) R = put_words p (base_words n) R"
proof -
  have "set_virt_base (of_nat n) d = (let (a, b) = base_words n (word0 d, word1 d) in d\<lparr>word0 := a, word1 := b\<rparr>)" for d
    by (cases d) (simp add: set_virt_base_def base_words_def)
  then show ?thesis by (simp add: put_words_def upd_desc_def)
qed

lemma fill_one_ok:
  assumes "wf_region (regs s r) {}" and "sched s r = []"
  shows "nfree (regs s r) = 0 \<Longrightarrow> fill_one n r s = Inr (False, s)"
    and "0 < nfree (regs s r) \<Longrightarrow> \<exists>R v. fill_one n r s = Inr (True, s\<lparr>regs := (regs s)(r := R)\<rparr>) \<and> wf_region R {}
      \<and> contents R Qreq = contents (regs s r) Qreq @ [base_words n v] \<and> nfree (regs s r) = Suc (nfree R)"
proof -
  assume z: "nfree (regs s r) = 0"
  show "fill_one n r s = Inr (False, s)"
    using mqa.alloc_none [OF assms(1) z] interfere_none [OF assms(2)]
    by (simp add: fill_one_def k_freelist_remove_def bindK_run seqK_run lib_op_def)
next
  assume pos: "0 < nfree (regs s r)"
  obtain d R1 R2 where a: "freelist_remove (regs s r) = Inr (Some d, R1)"
    "mig_enqueue (put_words d (base_words n) R1) Qreq d = Inr (color_of (regs s r) Qreq, R2)"
    "wf_region R2 {}" "contents R2 Qreq = contents (regs s r) Qreq @ [base_words n (payload (regs s r) d)]"
    "nfree (regs s r) = Suc (nfree R2)"
    using mqa.submit_law [OF assms(1) qs_live(1) pos, of "base_words n"] by blast
  have "fill_one n r s = Inr (True, s\<lparr>regs := (regs s)(r := R2)\<rparr>)"
    using a(1,2) interfere_none [of s r] interfere_none [of "s\<lparr>regs := (regs s)(r := put_words d (base_words n) R1)\<rparr>" r] assms(2)
    by (simp add: fill_one_def k_freelist_remove_def k_enqueue_def bindK_run seqK_run lib_op_def set_desc_def set_base_words)
  then show "\<exists>R v. fill_one n r s = Inr (True, s\<lparr>regs := (regs s)(r := R)\<rparr>) \<and> wf_region R {}
      \<and> contents R Qreq = contents (regs s r) Qreq @ [base_words n v] \<and> nfree (regs s r) = Suc (nfree R)"
    using a(3-5) by blast
qed

text \<open>With at most \<open>k\<close> rounds: that many free descriptors, numbered, are put on the request queue.\<close>

definition numbers :: "words2 list \<Rightarrow> 64 word list" where
  "numbers vs = map (\<lambda>w. bf_get 0 52 (fst w)) vs"

lemma numbers_Cons: "numbers (base_words n v # vs) = (of_nat n AND mask 52) # numbers vs"
  by (cases v) (simp add: numbers_def base_words_def bf_get_set_same)

lemma fill_queue_ok:
  assumes "wf_region (regs s r) {}" and "sched s r = []" and "m = min k (nfree (regs s r))"
  shows "\<exists>s1 vs. fill_queue k n r s = Inr (n + m, s1) \<and> wf_region (regs s1 r) {}
    \<and> nfree (regs s1 r) = nfree (regs s r) - m \<and> sched s1 r = []
    \<and> contents (regs s1 r) Qreq = contents (regs s r) Qreq @ vs
    \<and> numbers vs = map (\<lambda>i. of_nat i AND mask 52) [n..<n + m] \<and> hist s1 = hist s"
  using assms
proof (induction k arbitrary: n s m)
  case 0
  then show ?case by (intro exI [of _ s]) (simp add: numbers_def)
next
  case (Suc k)
  note one = fill_one_ok [OF Suc.prems(1,2), of n]
  show ?case
  proof (cases "nfree (regs s r) = 0")
    case True
    then show ?thesis using one(1) Suc.prems by (intro exI [of _ s]) (simp add: bindK_run numbers_def)
  next
    case False
    then obtain R v where a: "fill_one n r s = Inr (True, s\<lparr>regs := (regs s)(r := R)\<rparr>)" "wf_region R {}"
      "contents R Qreq = contents (regs s r) Qreq @ [base_words n v]" "nfree (regs s r) = Suc (nfree R)"
      using one(2) by auto
    let ?m = "min k (nfree R)"
    have m: "m = Suc ?m" using Suc.prems(3) a(4) by simp
    obtain s2 vs where s2: "fill_queue k (Suc n) r (s\<lparr>regs := (regs s)(r := R)\<rparr>) = Inr (Suc n + ?m, s2)" "wf_region (regs s2 r) {}"
      "nfree (regs s2 r) = nfree R - ?m" "sched s2 r = []" "contents (regs s2 r) Qreq = contents R Qreq @ vs"
      "numbers vs = map (\<lambda>i. of_nat i AND mask 52) [Suc n..<Suc n + ?m]" "hist s2 = hist s"
      using Suc.IH [of "s\<lparr>regs := (regs s)(r := R)\<rparr>" ?m "Suc n"] a(2) Suc.prems(2) by auto
    have up: "[n..<n + m] = n # [Suc n..<Suc n + ?m]"
      unfolding m by (simp add: upt_conv_Cons del: upt_Suc)
    have "contents (regs s2 r) Qreq = contents (regs s r) Qreq @ base_words n v # vs" using s2(5) a(3) by simp
    moreover have "numbers (base_words n v # vs) = map (\<lambda>i. of_nat i AND mask 52) [n..<n + m]"
      unfolding up using s2(6) by (simp add: numbers_Cons)
    moreover have "fill_queue (Suc k) n r s = Inr (n + m, s2)" using a(1) s2(1) by (simp add: bindK_run m)
    moreover have "nfree (regs s2 r) = nfree (regs s r) - m" using s2(3) a(4) by (simp add: m)
    ultimately show ?thesis using s2(2,4,7) by blast
  qed
qed

text \<open>When no descriptor is free, taking anything off the queue is a \<^verbatim>\<open>BUG\<close>: so is \<^verbatim>\<open>MIG_EMPTY_QREQ\<close>.\<close>

lemma empty_exhausted:
  assumes wf: "wf_region (regs s r) {}" and "sched s r = []" and f: "nfree (regs s r) = 0" and e: "contents (regs s r) Qreq \<noteq> []"
  shows "test_empty_queue r s = Inl Bug"
proof -
  have "k_dequeue r Qreq s = Inl Bug"
    using wf_dequeue_exhausted [OF wf qs_live(1) e f] interfere_none [OF assms(2)]
    by (simp add: k_dequeue_def seqK_run lib_op_def)
  moreover have "flush_fuel r s = Suc (unat (ndescs (regs s r)) + todo s r + 1)" by (simp add: flush_fuel_def)
  ultimately show ?thesis by (simp add: test_empty_queue_def bindK_run)
qed

lemma fill_then_empty:
  assumes "wf_region (regs s r) {}" and "sched s r = []" and "0 < nfree (regs s r)" "nfree (regs s r) \<le> 7999" and "r \<noteq> 0"
  shows "\<exists>s1. test_fill_queue r s = Inr ((), s1) \<and> nfree (regs s1 r) = 0 \<and> test_empty_queue r s1 = Inl Bug"
proof -
  have m: "nfree (regs s r) = min 7999 (nfree (regs s r))" using assms(4) by simp
  obtain s1 vs where f: "fill_queue 7999 1 r s = Inr (1 + nfree (regs s r), s1)" "wf_region (regs s1 r) {}"
    "nfree (regs s1 r) = 0" "sched s1 r = []" "contents (regs s1 r) Qreq = contents (regs s r) Qreq @ vs"
    "numbers vs = map (\<lambda>i. of_nat i AND mask 52) [1..<1 + nfree (regs s r)]"
    using fill_queue_ok [OF assms(1,2) m, of 1] by auto
  have "vs \<noteq> []" using f(6) assms(3) by (auto simp: numbers_def)
  then have "test_empty_queue r s1 = Inl Bug" using empty_exhausted [OF f(2,4,3)] f(5) by simp
  then show ?thesis using f(1,3) assms(5) by (simp add: test_fill_queue_def bindK_run seqK_run)
qed

section \<open>Loading the module\<close>

text \<open>Every device file is created and gets what the kernel gives as its channel, which is not looked at.\<close>

lemma init_device_ok:
  assumes "\<And>h xs. answer s h ''debugfs_create_file'' xs \<noteq> 0" and "v_init_chan v = call req as" and "\<And>h. P (answer s h req as)"
  shows "\<exists>s1 f c. init_device v i s = Inr ((), s1) \<and> answer s1 = answer s \<and> filp_priv s1 = filp_priv s
    \<and> f \<noteq> 0 \<and> debugif s1 = (debugif s)(int i := f) \<and> P c \<and> chans s1 = (chans s)(int i := c)"
  using assms by (simp add: init_device_def bindK_run seqK_run call_run) blast

lemma module_init_loop:
  assumes "\<And>h xs. answer s h ''debugfs_create_file'' xs \<noteq> 0" and v: "v_init_chan v = call req as" and "\<And>h. P (answer s h req as)"
  shows "\<exists>s1. forK is (init_device v) s = Inr ((), s1) \<and> answer s1 = answer s \<and> filp_priv s1 = filp_priv s
    \<and> (\<forall>i. i \<in> set is \<or> debugif s (int i) \<noteq> 0 \<longrightarrow> debugif s1 (int i) \<noteq> 0)
    \<and> (\<forall>i. i \<in> set is \<or> P (chans s (int i)) \<longrightarrow> P (chans s1 (int i)))"
  using assms(1,3)
proof (induction "is" arbitrary: s)
  case (Cons i "is")
  obtain s1 f c where s1: "init_device v i s = Inr ((), s1)" "answer s1 = answer s" "filp_priv s1 = filp_priv s"
    "f \<noteq> 0" "debugif s1 = (debugif s)(int i := f)" "P c" "chans s1 = (chans s)(int i := c)"
    using init_device_ok [where P = P, OF Cons.prems(1) v Cons.prems(2), of i] by blast
  obtain s2 where s2: "forK is (init_device v) s1 = Inr ((), s2)" "answer s2 = answer s1" "filp_priv s2 = filp_priv s1"
    "\<forall>j. j \<in> set is \<or> debugif s1 (int j) \<noteq> 0 \<longrightarrow> debugif s2 (int j) \<noteq> 0"
    "\<forall>j. j \<in> set is \<or> P (chans s1 (int j)) \<longrightarrow> P (chans s2 (int j))"
    using Cons.IH [of s1] Cons.prems unfolding s1(2) by blast
  have "forK (i # is) (init_device v) s = Inr ((), s2)" using s1(1) s2(1) by simp
  then show ?case using s1 s2 by (intro exI [of _ s2]) simp
qed simp

lemma module_init_ok:
  assumes "\<And>h xs. answer s h ''debugfs_create_file'' xs \<noteq> 0" and "v_init_chan v = call req as" and "\<And>h. P (answer s h req as)"
  shows "\<exists>s1. migks2_module_init_by v s = Inr (0, s1) \<and> answer s1 = answer s \<and> filp_priv s1 = filp_priv s
    \<and> (\<forall>i<length (v_names v). debugif s1 (int i) \<noteq> 0 \<and> P (chans s1 (int i)))"
proof -
  let ?is = "[0..<length (v_names v)]"
  obtain s1 where "forK ?is (init_device v) s = Inr ((), s1)" "answer s1 = answer s" "filp_priv s1 = filp_priv s"
    "\<forall>i. i \<in> set ?is \<or> debugif s (int i) \<noteq> 0 \<longrightarrow> debugif s1 (int i) \<noteq> 0"
    "\<forall>i. i \<in> set ?is \<or> P (chans s (int i)) \<longrightarrow> P (chans s1 (int i))"
    using module_init_loop [where P = P, OF assms] by blast
  then show ?thesis by (simp add: migks2_module_init_by_def seqK_run)
qed

text \<open>Each file is opened with the channel that was requested for it when the module was loaded.\<close>

lemma load_then_open:
  assumes "\<And>h xs. answer s h ''debugfs_create_file'' xs \<noteq> 0" and "\<And>h xs. answer s h ''__get_free_pages'' xs \<noteq> 0"
    and v: "v_init_chan v = call req as" and c: "\<And>h. answer s h req as \<noteq> 0"
    and d: "find_device nm 0 (v_names v) = Some (int i)" and i: "i < length (v_names v)" and f: "filp_priv s filp = 0"
  shows "\<exists>s1 s2 p. migks2_module_init_by v s = Inr (0, s1) \<and> (\<forall>j<length (v_names v). chans s1 (int j) \<noteq> 0)
    \<and> if_open_by v nm filp s1 = Inr (0, s2) \<and> p \<noteq> 0 \<and> filp_priv s2 filp = region_to_mmap_info p
    \<and> i_region (infos s2 (region_to_mmap_info p)) = p \<and> i_chan (infos s2 (region_to_mmap_info p)) = chans s1 (int i)
    \<and> chans s2 = chans s1 \<and> wf_region (regs s2 p) {} \<and> (\<forall>q\<in>set live_qs. contents (regs s2 p) q = [])
    \<and> color_of (regs s2 p) Qreq = COLOR_USR \<and> nfree (regs s2 p) = 376"
proof -
  obtain s1 where s1: "migks2_module_init_by v s = Inr (0, s1)" "answer s1 = answer s" "filp_priv s1 = filp_priv s"
    "\<forall>j<length (v_names v). debugif s1 (int j) \<noteq> 0 \<and> chans s1 (int j) \<noteq> 0"
    using module_init_ok [where P = "\<lambda>c. c \<noteq> 0", OF assms(1) v c] by auto
  have "filp_priv s1 filp = 0" "answer s1 h ''__get_free_pages'' xs \<noteq> 0" "chans s1 (int i) \<noteq> 0" for h xs
    using s1(2-4) f assms(2) i by simp_all
  from if_open_by_ok [OF d this(1,2) v disjI1 [OF this(3)]] obtain s2 p where s2: "if_open_by v nm filp s1 = Inr (0, s2)"
    "chans s1 (int i) \<noteq> 0 \<longrightarrow> chans s2 = chans s1" "p \<noteq> 0" "filp_priv s2 filp = region_to_mmap_info p"
    "i_region (infos s2 (region_to_mmap_info p)) = p" "i_chan (infos s2 (region_to_mmap_info p)) = chans s2 (int i)"
    "wf_region (regs s2 p) {}" "\<forall>q\<in>set live_qs. contents (regs s2 p) q = []"
    "color_of (regs s2 p) Qreq = COLOR_USR" "nfree (regs s2 p) = 376"
    by auto
  then show ?thesis using s1 i by (intro exI [of _ s1] exI [of _ s2] exI [of _ p]) simp
qed

text \<open>What loading the module and opening a file leave alone.\<close>

definition boot_view where
  "boot_view s = (answer s, max_nr_sg s, after_free s, sched s, log_reap s, log_sub s, files s)"

lemma keeps_boot_view:
  assumes "v_init_chan v = call req as"
  shows "keeps boot_view (migks2_module_init_by v)" "keeps boot_view (if_open_by v nm filp)"
proof -
  have init: "keeps boot_view (v_init_chan v)" using assms by (simp add: keeps_def boot_view_def call_run)
  have reg: "keeps boot_view (k_init_region q)" for q
    by (auto simp: keeps_def k_init_region_def k_init_bytes_def bindK_run lib_op_def boot_view_def split: sum.splits prod.splits)
  have parts: "keeps boot_view (call f xs)" "keeps boot_view (exec f xs)" "keeps boot_view (upd_info i h)" for f xs i h
    by (simp_all add: keeps_def boot_view_def call_run exec_run upd_info_def)
  show "keeps boot_view (migks2_module_init_by v)"
    by (simp add: migks2_module_init_by_def init_device_def init parts keeps_modK boot_view_def)
  show "keeps boot_view (if_open_by v nm filp)"
    by (simp add: if_open_by_def init parts reg keeps_modK boot_view_def Let_def)
qed

end
