(* ===== verification/DrvWorker.thy ===== *)
theory DrvWorker
  imports DrvQueue
begin

text \<open>
  The system call \<^verbatim>\<open>user_flush\<close> and the worker \<^verbatim>\<open>kernel_flush_work\<close> over the interface they use to hand a
  descriptor to the engine.  The locale \<open>submission\<close> states what they need of it; it is interpreted
  here on the functions of \<^verbatim>\<open>migrate-x86.c\<close> and in \<open>DrvMulti\<close> on those of the 16-channel driver.
\<close>

section \<open>What the worker relies on\<close>

text \<open>
  What the worker relies on besides the queues: the kernel answers as \<open>A\<close>, and the memory of
  freed tables has not been reused for something else, so that the old table still holds the
  function to call.
\<close>

definition copy_env :: "(kevent list \<Rightarrow> string \<Rightarrow> int list \<Rightarrow> int) \<Rightarrow> addr \<Rightarrow> kst \<Rightarrow> bool" where
  "copy_env A old s \<longleftrightarrow> answer s = A \<and> 128 < max_nr_sg s \<and> (\<forall>t T. after_free s t T = T)
     \<and> issue_one_desc_func (tables s old) = Issue_copy"

text \<open>Submitting a replication turns no table away from \<^verbatim>\<open>issue_one_desc_copy\<close>.\<close>

abbreviation calls_copy :: "addr \<Rightarrow> kst \<Rightarrow> bool" where
  "calls_copy old \<equiv> (\<lambda>s. issue_one_desc_func (tables s old) = Issue_copy)"

lemma preserves_calls_copy [simp]: "keeps copy_view m \<Longrightarrow> preserves (calls_copy old) m"
  by (rule preserves_keeps [where g = copy_view]) (simp_all add: copy_view_def)

lemma preserves_calls_copy_store [simp]:
  "(\<And>T. issue_one_desc_func T = Issue_copy \<Longrightarrow> issue_one_desc_func (f T) = Issue_copy)
    \<Longrightarrow> preserves (calls_copy old) (upd_table t f)"
  "preserves (calls_copy old) (upd_pg t i g)"
  by (auto simp: preserves_def upd_table_def upd_pg_def split: if_splits)

lemma keeps_copy_view_collect [simp]: "keeps copy_view (collect_copy r d mm)"
  by (simp add: collect_copy_def)

lemma poll_dma_Suc_ok:
  assumes "\<And>h. answer s h q [chan] \<noteq> 0"
  shows "\<exists>h. poll_dma q i (Suc k) lh chan s = Inr ((), s\<lparr>hist := h\<rparr>)"
  using assms by (auto simp: seqK_run exec_run bindK_run callb_run)

lemmas poll_dma_ok = poll_dma_Suc_ok [of _ _ _ 0 9, simplified]

text \<open>The engine's status, which the worker asks of the device's own channel.\<close>

definition work_env_of :: "string \<Rightarrow> (kevent list \<Rightarrow> string \<Rightarrow> int list \<Rightarrow> int) \<Rightarrow> addr \<Rightarrow> addr \<Rightarrow> kst \<Rightarrow> bool" where
  "work_env_of q A old r s \<longleftrightarrow> copy_env A old s
     \<and> (\<forall>h. A h q [i_chan (infos s (region_to_mmap_info r))] \<noteq> 0)"

abbreviation work_env :: "(kevent list \<Rightarrow> string \<Rightarrow> int list \<Rightarrow> int) \<Rightarrow> addr \<Rightarrow> addr \<Rightarrow> kst \<Rightarrow> bool" where
  "work_env \<equiv> work_env_of ''device_tx_status == DMA_COMPLETE''"

section \<open>The interface\<close>

text \<open>What the submission of a descriptor does not touch besides the queues.\<close>

definition wview :: "kst \<Rightarrow> (addr \<Rightarrow> mig_table \<Rightarrow> mig_table) \<times> (kevent list \<Rightarrow> string \<Rightarrow> int list \<Rightarrow> int)
    \<times> (int \<Rightarrow> addr) \<times> (addr \<Rightarrow> mmap_info)" where
  "wview s = (after_free s, answer s, chans s, infos s)"

lemma keeps_wview [simp]:
  "keeps wview (call f xs)" "keeps wview (callb f xs)" "keeps wview (exec f xs)"
  "keeps wview (upd_table t g)" "keeps wview (upd_pg t i h)"
  by (auto simp: keeps_def wview_def call_runs upd_table_def upd_pg_def split: if_splits)

lemma keeps_wview_parts [simp]:
  "keeps wview alloc_table" "keeps wview (alloc_sg n)" "keeps wview (check_vma v a)"
  "keeps wview (follow_range h fl v a n)" "keeps wview (issue_copy_page h n xs ys sgl j)"
  "keeps wview (submit_sg fn t r d irq mm n s1 s2 sgl)"
  by (cases sgl; simp add: alloc_table_def alloc_sg_def check_vma_def follow_range_def
      issue_copy_page_def sg_add_def submit_sg_def Let_def)+

lemma keeps_wview_collect [simp]: "keeps wview (collect_copy r d mm)"
  by (simp add: collect_copy_def)

text \<open>
  \<open>ready\<close> is what the submission asks of the channels, \<open>registered t s\<close> that the engine will call back
  with the table \<open>t\<close>.
\<close>

locale submission =
  fixes v :: variant and kernel_ok :: "(kevent list \<Rightarrow> string \<Rightarrow> int list \<Rightarrow> int) \<Rightarrow> bool"
    and ready :: "kst \<Rightarrow> bool" and registered :: "addr \<Rightarrow> kst \<Rightarrow> bool"
  assumes ready_chans: "chans s1 = chans s \<Longrightarrow> ready s1 = ready s"
    and issue_runs: "answer s = A \<Longrightarrow> kernel_ok A \<Longrightarrow> 128 < max_nr_sg s \<Longrightarrow> ready s \<Longrightarrow>
      \<exists>t s1. v_issue v Issue_copy r p irq mm s = Inr (t, s1) \<and> issue_one_desc_func (tables s1 t) = Issue_copy
        \<and> migdesc (tables s1 t) = Some p \<and> t_region (tables s1 t) = r \<and> t_mm (tables s1 t) = mm
        \<and> qview s1 = qview s \<and> wview s1 = wview s
        \<and> (\<forall>old. issue_one_desc_func (tables s old) = Issue_copy \<longrightarrow> issue_one_desc_func (tables s1 old) = Issue_copy)
        \<and> (irq \<longrightarrow> registered t s1)"
begin

section \<open>The system call\<close>

text \<open>
  \<^verbatim>\<open>user_flush\<close> on a queue that is not yet the kernel's: the requests go to \<open>qissued\<close> in order, the
  queue becomes the kernel's, and the oldest request is handed to the issue function.
\<close>

lemma user_flush_runs:
  assumes ok: "dev_ok r own s" and c: "clr s r \<noteq> COLOR_KER"
    and ne: "on_q s r Qissued @ on_q s r Qreq \<noteq> []"
  shows "\<exists>p s2. user_flush_by v r mm parent f s = bindK (v_issue v f r p True mm) (\<lambda>_. ret 0) s2
    \<and> p \<notin> own \<and> dev_ok r (insert p own) s2 \<and> clr s2 r = COLOR_KER
    \<and> flows r [] s [payload (regs s2 r) p] s2
    \<and> payload (regs s2 r) p = hd (on_q s r Qissued @ on_q s r Qreq)
    \<and> (\<exists>us vs. on_q s2 r Qissued = tl (on_q s r Qissued @ on_q s r Qreq) @ us \<and> on_q s2 r Qreq = vs
         \<and> log_sub s2 r = log_sub s r @ us @ vs \<and> length us + length vs \<le> todo s r)
    \<and> tables s2 = tables s \<and> answer s2 = answer s \<and> max_nr_sg s2 = max_nr_sg s \<and> infos s2 = infos s
    \<and> after_free s2 = after_free s \<and> chans s2 = chans s"
proof -
  have "todo s r < flush_fuel r s" by (simp add: flush_fuel_def)
  then obtain s1 where s1: "claim_qreq (flush_fuel r s) r s = Inr (clr s r, s1)" "dev_ok r own s1" "rest s1 = rest s"
    "on_q s1 r Qreq = []" "clr s1 r = COLOR_KER" "flows r [] s [] s1" "finished r s1 = finished r s"
    using claim_qreq_ok [OF ok, where fl = "[]"] by blast
  obtain us where us: "pipe r [] s1 = pipe r [] s @ us" "log_sub s1 r = log_sub s r @ us" "todo s1 r + length us \<le> todo s r"
    using s1(6) by (auto simp: flows_def)
  have iss: "on_q s1 r Qissued = on_q s r Qissued @ on_q s r Qreq @ us"
    using us(1) unfolding pipe_eq s1(4,7) by simp
  obtain s2 d s3 where d: "users_ran r own s1 s2" "k_dequeue r Qissued s1 = Inr (d, s3)"
    "case d of None \<Rightarrow> on_q s2 r Qissued = [] \<and> s3 = s2
       | Some p \<Rightarrow> p \<notin> own \<and> dev_ok r (insert p own) s3 \<and> env_same r s2 s3
           \<and> on_q s2 r Qissued = payload (regs s3 r) p # on_q s3 r Qissued
           \<and> (\<forall>q'\<in>set live_qs. q' \<noteq> Qissued \<longrightarrow> on_q s3 r q' = on_q s2 r q') \<and> clr s3 r = clr s2 r
           \<and> (\<forall>x\<in>own. payload (regs s3 r) x = payload (regs s2 r) x)"
    using k_dequeue_ok [OF s1(2) qs_live(2)] by blast
  note U = users_ranD [OF d(1)]
  obtain vs where vs: "on_q s2 r Qreq = vs" "log_sub s2 r = log_sub s1 r @ vs" "todo s2 r + length vs \<le> todo s1 r"
    using d(1) s1(4) by (auto simp: users_ran_def)
  have "d \<noteq> None" using d(3) U(3) iss ne by (auto split: option.splits)
  then obtain p where p: "d = Some p" by blast
  then have e: "p \<notin> own" "dev_ok r (insert p own) s3" "env_same r s2 s3"
    "on_q s2 r Qissued = payload (regs s3 r) p # on_q s3 r Qissued"
    "on_q s3 r Qreq = on_q s2 r Qreq" "on_q s3 r Qcomp = on_q s2 r Qcomp" "clr s3 r = clr s2 r"
    using d(3) by simp_all
  let ?s4 = "s3\<lparr>hist := hist s3 @ [(''migrate_prep'', [], answer s3 (hist s3) ''migrate_prep'' [])]\<rparr>"
  have f1: "user_flush_by v r mm parent f s = bindK (v_issue v f r p True mm) (\<lambda>_. ret 0) ?s4"
    using s1(1) c d(2) p by (simp add: user_flush_by_def seqK_run exec_run bindK_run)
  have f2: "dev_ok r (insert p own) ?s4" using e(2) by (simp add: dev_ok_def todo_def)
  have f3: "flows r [] s [payload (regs ?s4 r) p] ?s4"
  proof -
    have "flows r [] s2 [payload (regs s3 r) p] ?s4"
      using e env_same_todo [OF e(3)] by (simp add: flows_def pipe_def env_same_def on_q_def todo_def)
    then have "flows r [] s2 [payload (regs ?s4 r) p] ?s4" by simp
    then show ?thesis by (rule flows_trans [OF flows_trans [OF s1(6) users_flow [OF d(1)]]])
  qed
  have f4: "payload (regs ?s4 r) p = hd (on_q s r Qissued @ on_q s r Qreq)"
  proof -
    have "hd (on_q s2 r Qissued) = payload (regs s3 r) p" using e(4) by simp
    then have "payload (regs s3 r) p = hd (on_q s r Qissued @ on_q s r Qreq)"
      using U(3) iss ne by (metis append_assoc hd_append2)
    then show ?thesis by simp
  qed
  have left: "on_q s3 r Qissued = tl (on_q s r Qissued @ on_q s r Qreq) @ us"
  proof -
    have "on_q s3 r Qissued = tl (on_q s2 r Qissued)" using e(4) by simp
    also have "\<dots> = tl ((on_q s r Qissued @ on_q s r Qreq) @ us)" unfolding U(3) iss by simp
    finally show ?thesis using ne by (simp only: tl_append2 not_False_eq_True)
  qed
  have "on_q ?s4 r = on_q s3 r" "log_sub ?s4 = log_sub s2" using e(3) by (simp_all add: on_q_def fun_eq_iff env_same_def)
  then have f7: "\<exists>us vs. on_q ?s4 r Qissued = tl (on_q s r Qissued @ on_q s r Qreq) @ us \<and> on_q ?s4 r Qreq = vs
      \<and> log_sub ?s4 r = log_sub s r @ us @ vs \<and> length us + length vs \<le> todo s r"
    using left vs us(2,3) e(5) by (intro exI [of _ us] exI [of _ vs]) simp
  have f5: "clr ?s4 r = COLOR_KER" using e(7) U(4) s1(5) by (simp add: clr_def)
  have "rest s3 = rest s" using s1(3) U(2) e(3) by (simp add: env_same_def)
  then have f6: "tables ?s4 = tables s" "answer ?s4 = answer s" "max_nr_sg ?s4 = max_nr_sg s" "infos ?s4 = infos s"
    "after_free ?s4 = after_free s" "chans ?s4 = chans s"
    using rest_tables [of s3 s] by simp_all
  show ?thesis
    by (rule exI [of _ p], rule exI [of _ ?s4], intro conjI f7) (fact f1 e(1) f2 f5 f3 f4 f6)+
qed

lemma user_flush_ker:
  assumes ok: "dev_ok r own s" and c: "clr s r = COLOR_KER"
  shows "\<exists>s1. user_flush_by v r mm parent f s = Inr (0, s1) \<and> dev_ok r own s1 \<and> clr s1 r = COLOR_KER
    \<and> on_q s1 r Qreq = [] \<and> flows r [] s [] s1 \<and> rest s1 = rest s"
proof -
  have "todo s r < flush_fuel r s" by (simp add: flush_fuel_def)
  then obtain s1 where s1: "claim_qreq (flush_fuel r s) r s = Inr (clr s r, s1)" "dev_ok r own s1" "rest s1 = rest s"
    "on_q s1 r Qreq = []" "clr s1 r = COLOR_KER" "flows r [] s [] s1"
    using claim_qreq_ok [OF ok, where fl = "[]"] by blast
  then have "user_flush_by v r mm parent f s = Inr (0, s1)" using c by (simp add: user_flush_by_def)
  then show ?thesis using s1 by blast
qed

text \<open>With nothing requested the system call runs into \<^verbatim>\<open>BUG_ON(!desc)\<close>.\<close>

lemma user_flush_nothing:
  assumes ok: "dev_ok r own s" and c: "clr s r \<noteq> COLOR_KER"
    and e: "on_q s r Qissued = []" "on_q s r Qreq = []" and t: "todo s r = 0"
  shows "user_flush_by v r mm parent f s = Inl Bug"
proof -
  have "todo s r < flush_fuel r s" by (simp add: flush_fuel_def)
  then obtain s1 where s1: "claim_qreq (flush_fuel r s) r s = Inr (clr s r, s1)" "dev_ok r own s1" "rest s1 = rest s"
    "on_q s1 r Qreq = []" "clr s1 r = COLOR_KER" "flows r [] s [] s1" "finished r s1 = finished r s"
    using claim_qreq_ok [OF ok, where fl = "[]"] by blast
  have "pipe r [] s1 = pipe r [] s" using s1(6) t by (auto simp: flows_def)
  then have iss: "on_q s1 r Qissued = []"
    unfolding pipe_eq s1(4,7) e by simp
  obtain s2 d s3 where d: "users_ran r own s1 s2" "k_dequeue r Qissued s1 = Inr (d, s3)"
    "case d of None \<Rightarrow> on_q s2 r Qissued = [] \<and> s3 = s2
       | Some p \<Rightarrow> p \<notin> own \<and> dev_ok r (insert p own) s3 \<and> env_same r s2 s3
           \<and> on_q s2 r Qissued = payload (regs s3 r) p # on_q s3 r Qissued
           \<and> (\<forall>q'\<in>set live_qs. q' \<noteq> Qissued \<longrightarrow> on_q s3 r q' = on_q s2 r q') \<and> clr s3 r = clr s2 r
           \<and> (\<forall>x\<in>own. payload (regs s3 r) x = payload (regs s2 r) x)"
    using k_dequeue_ok [OF s1(2) qs_live(2)] by blast
  then have "d = None" using iss users_ranD(3) [OF d(1)] by (auto split: option.splits)
  then show ?thesis using s1(1) c d(2) by (simp add: user_flush_by_def)
qed


section \<open>The worker\<close>

text \<open>One round: the descriptor in hand is copied and goes to the end of \<open>qcomp\<close>.\<close>

lemma kernel_do_one_copy_ok:
  assumes ok: "dev_ok r own s" and p: "p \<in> own" and E: "work_env_of (v_done v) A old r s" and rd: "ready s"
    and K: "kernel_ok A"
  shows "\<exists>s1. kernel_do_one v old r mm p s = Inr ((), s1) \<and> dev_ok r (own - {p}) s1
    \<and> work_env_of (v_done v) A old r s1 \<and> ready s1
    \<and> flows r [payload (regs s r) p] s [] s1 \<and> clr s1 r = clr s r \<and> on_q s1 r Qissued = on_q s r Qissued
    \<and> length (on_q s1 r Qreq) + 2 * todo s1 r \<le> length (on_q s r Qreq) + 2 * todo s r"
proof -
  have f: "issue_one_desc_func (tables s old) = Issue_copy" "answer s = A" "128 < max_nr_sg s"
    using E by (simp_all add: work_env_of_def copy_env_def)
  obtain t s1 where i: "v_issue v Issue_copy r p False mm s = Inr (t, s1)"
    "issue_one_desc_func (tables s1 t) = Issue_copy" "qview s1 = qview s" "wview s1 = wview s"
    "issue_one_desc_func (tables s1 old) = Issue_copy"
    using issue_runs [OF f(2) K f(3) rd, of r p False mm] f(1) by blast
  note q1 = i(3)
  have E1: "work_env_of (v_done v) A old r s1" "chans s1 = chans s"
    using E i(3-5) by (simp_all add: work_env_of_def copy_env_def qview_def wview_def)
  have D1: "answer s1 h (v_done v) [i_chan (infos s1 (region_to_mmap_info r))] \<noteq> 0" for h
    using E1(1) by (simp add: work_env_of_def copy_env_def)
  obtain h where po: "poll_dma (v_done v) 0 10 (sleep_range (unat (order (desc_at (regs s1 r) p))))
      (i_chan (infos s1 (region_to_mmap_info r))) s1 = Inr ((), s1\<lparr>hist := h\<rparr>)"
    using poll_dma_ok [OF D1] by blast
  define s2 where "s2 = s1\<lparr>hist := h\<rparr>"
  define s3 where "s3 = s2\<lparr>hist := hist s2 @ [(''free_pages'', [t, v_order v],
      answer s2 (hist s2) ''free_pages'' [t, v_order v])],
      tables := (tables s2)(t := after_free s2 t (tables s2 t))\<rparr>"
  have c: "complete_pages v t s2 = Inr ((), s2)"
    using i(2) by (simp add: complete_pages_def get_table_def whenK_def s2_def)
  have fr: "free_table_of (v_order v) t s2 = Inr ((), s3)"
    by (simp add: free_table_of_def seqK_run exec_run s3_def)
  have E3: "work_env_of (v_done v) A old r s3" "chans s3 = chans s"
    using E1 by (simp_all add: work_env_of_def copy_env_def s3_def s2_def)
  have q3: "regs s3 = regs s" "sched s3 = sched s" "log_sub s3 = log_sub s" "log_reap s3 = log_reap s"
    using q1 by (simp_all add: qview_def s3_def s2_def)
  have v3: "dev_ok r own s3" "on_q s3 r = on_q s r" "clr s3 r = clr s r" "todo s3 r = todo s r"
    "pipe r fl s3 = pipe r fl s" for fl
    using ok q3 by (simp_all add: dev_ok_def on_q_def clr_def todo_def pipe_def fun_eq_iff)
  obtain s4 cl s5 where e: "users_ran r own s3 s4" "k_enqueue r Qcomp p s3 = Inr (cl, s5)"
    "dev_ok r (own - {p}) s5" "env_same r s4 s5" "on_q s5 r Qcomp = on_q s4 r Qcomp @ [payload (regs s4 r) p]"
    "\<forall>q'\<in>set live_qs. q' \<noteq> Qcomp \<longrightarrow> on_q s5 r q' = on_q s4 r q'" "clr s5 r = clr s4 r"
    using k_enqueue_ok [OF v3(1) qs_live(3) p] by blast
  note U = users_ranD [OF e(1)]
  define s6 where "s6 = s5\<lparr>hist := hist s5 @ [(''wake_up_interruptible'', [region_to_mmap_info r],
      answer s5 (hist s5) ''wake_up_interruptible'' [region_to_mmap_info r])]\<rparr>"
  have run: "kernel_do_one v old r mm p s = Inr ((), s6)"
    unfolding kernel_do_one_def get_table_def get_desc_def get_info_def
    using f(1) i(1) po c [unfolded s2_def] fr [unfolded s2_def] e(2)
    by (simp add: bindK_run seqK_run exec_run s6_def)
  have q6: "on_q s6 r = on_q s5 r" "clr s6 r = clr s5 r" "todo s6 r = todo s5 r" "dev_ok r (own - {p}) s6"
    "log_sub s6 = log_sub s5" "log_reap s6 = log_reap s5"
    using e(3) by (simp_all add: s6_def on_q_def clr_def todo_def dev_ok_def fun_eq_iff)
  have todo5: "todo s5 r = todo s4 r" using env_same_todo [OF e(4)] .
  have q5: "on_q s5 r Qreq = on_q s4 r Qreq" "on_q s5 r Qissued = on_q s4 r Qissued" using e(6) by simp_all
  have E6: "work_env_of (v_done v) A old r s6" "chans s6 = chans s"
    using E3 U(2) e(4) rest_tables [of s4 s3] rest_tables [of s5 s4]
    by (simp_all add: work_env_of_def copy_env_def s6_def env_same_def)
  have rd6: "ready s6" using ready_chans [OF E6(2)] rd by simp
  have fl: "flows r [payload (regs s r) p] s [] s6"
  proof -
    obtain us where us: "log_sub s4 r = log_sub s3 r @ us" "on_q s4 r Qreq = on_q s3 r Qreq @ us"
      "todo s4 r + length us \<le> todo s3 r" "log_reap s4 r @ on_q s4 r Qcomp = log_reap s3 r @ on_q s3 r Qcomp"
      using e(1) by (auto simp: users_ran_def)
    have pay: "payload (regs s4 r) p = payload (regs s r) p" using U(5) p q3(1) by simp
    have "pipe r [] s6 = pipe r [payload (regs s r) p] s3 @ us"
      using us e(4,5) q5 q6(1,6) pay U(3) by (simp add: pipe_def env_same_def)
    then show ?thesis
      using us q6 e(4) todo5 v3(4,5) q3(3) by (auto simp: flows_def env_same_def)
  qed
  show ?thesis
    using run q6(4) E6(1) rd6 fl U(3,4,9) q6(1-3) e(7) q5 todo5 v3(2-4) by auto
qed

lemma kernel_next_ok:
  assumes ok: "dev_ok r own s" and c: "clr s r = COLOR_KER"
  shows "\<exists>d s1. kernel_next r s = Inr ((False, d), s1) \<and> clr s1 r = COLOR_KER \<and> rest s1 = rest s
    \<and> (case d of None \<Rightarrow> dev_ok r own s1 \<and> on_q s1 r Qissued = [] \<and> on_q s1 r Qreq = []
         \<and> flows r [] s [] s1 \<and> length (on_q s1 r Qreq) + 2 * todo s1 r \<le> length (on_q s r Qissued @ on_q s r Qreq) + 2 * todo s r
       | Some p \<Rightarrow> p \<notin> own \<and> dev_ok r (insert p own) s1 \<and> flows r [] s [payload (regs s1 r) p] s1
         \<and> length (on_q s1 r Qissued @ on_q s1 r Qreq) + 2 * todo s1 r
             < length (on_q s r Qissued @ on_q s r Qreq) + 2 * todo s r)"
proof -
  obtain s1 d s2 where d: "users_ran r own s s1" "k_dequeue r Qissued s = Inr (d, s2)"
    "case d of None \<Rightarrow> on_q s1 r Qissued = [] \<and> s2 = s1
       | Some p \<Rightarrow> p \<notin> own \<and> dev_ok r (insert p own) s2 \<and> env_same r s1 s2
           \<and> on_q s1 r Qissued = payload (regs s2 r) p # on_q s2 r Qissued
           \<and> (\<forall>q'\<in>set live_qs. q' \<noteq> Qissued \<longrightarrow> on_q s2 r q' = on_q s1 r q') \<and> clr s2 r = clr s1 r
           \<and> (\<forall>x\<in>own. payload (regs s2 r) x = payload (regs s1 r) x)"
    using k_dequeue_ok [OF ok qs_live(2)] by blast
  note U = users_ranD [OF d(1)]
  show ?thesis
  proof (cases d)
    case (Some p)
    then have e: "p \<notin> own" "dev_ok r (insert p own) s2" "env_same r s1 s2"
      "on_q s1 r Qissued = payload (regs s2 r) p # on_q s2 r Qissued"
      "on_q s2 r Qreq = on_q s1 r Qreq" "on_q s2 r Qcomp = on_q s1 r Qcomp" "clr s2 r = clr s1 r"
      using d(3) by simp_all
    have t: "todo s2 r = todo s1 r" using env_same_todo [OF e(3)] .
    have "flows r [] s1 [payload (regs s2 r) p] s2"
      using e t by (simp add: flows_def pipe_def env_same_def)
    then have "flows r [] s [payload (regs s2 r) p] s2" by (rule flows_trans [OF users_flow [OF d(1)]])
    moreover have "kernel_next r s = Inr ((False, Some p), s2)" using d(2) Some by (simp add: kernel_next_def)
    moreover have "length (on_q s2 r Qissued @ on_q s2 r Qreq) + 2 * todo s2 r
             < length (on_q s r Qissued @ on_q s r Qreq) + 2 * todo s r"
    proof -
      have "length (on_q s r Qissued) = Suc (length (on_q s2 r Qissued))"
        using U(3) e(4) by (metis length_Cons)
      then show ?thesis using U(9) e(5) t by simp
    qed
    ultimately show ?thesis using e c U(2,4) by (auto simp: env_same_def)
  next
    case None
    then have n: "on_q s1 r Qissued = []" "s2 = s1" using d(3) by simp_all
    obtain s3 where k: "users_ran r own s1 s3" "k_color r Qreq s1 = Inr (clr s3 r, s3)"
      using k_color_ok [OF U(1)] by blast
    note V = users_ranD [OF k(1)]
    have ck: "clr s3 r = COLOR_KER" "COLOR_KER \<noteq> COLOR_USR" using V(4) U(4) c by (simp_all add: COLOR_KER_def COLOR_USR_def)
    obtain s4 d' s5 where g: "users_ran r own s3 s4" "k_dequeue r Qreq s3 = Inr (d', s5)"
      "case d' of None \<Rightarrow> on_q s4 r Qreq = [] \<and> s5 = s4
       | Some p \<Rightarrow> p \<notin> own \<and> dev_ok r (insert p own) s5 \<and> env_same r s4 s5
           \<and> on_q s4 r Qreq = payload (regs s5 r) p # on_q s5 r Qreq
           \<and> (\<forall>q'\<in>set live_qs. q' \<noteq> Qreq \<longrightarrow> on_q s5 r q' = on_q s4 r q') \<and> clr s5 r = clr s4 r
           \<and> (\<forall>x\<in>own. payload (regs s5 r) x = payload (regs s4 r) x)"
      using k_dequeue_ok [OF V(1) qs_live(1)] by blast
    note W = users_ranD [OF g(1)]
    have run: "kernel_next r s = Inr ((False, d'), s5)"
      using d(2) None n k(2) ck g(2) by (simp add: kernel_next_def)
    have fl: "flows r [] s [] s4"
      by (rule flows_trans [OF flows_trans [OF users_flow [OF d(1)] users_flow [OF k(1)]] users_flow [OF g(1)]])
    have iss: "on_q s r Qissued = []" "on_q s4 r Qissued = []" using n U(3) V(3) W(3) by simp_all
    show ?thesis
    proof (cases d')
      case None
      then have z: "on_q s4 r Qreq = []" "s5 = s4" using g(3) by simp_all
      show ?thesis
        using run None z iss fl W(1,2,4,9) V(2,4,9) U(2,4,9) c by auto
    next
      case (Some p)
      then have e: "p \<notin> own" "dev_ok r (insert p own) s5" "env_same r s4 s5"
        "on_q s4 r Qreq = payload (regs s5 r) p # on_q s5 r Qreq"
        "on_q s5 r Qissued = on_q s4 r Qissued" "on_q s5 r Qcomp = on_q s4 r Qcomp" "clr s5 r = clr s4 r"
        using g(3) by simp_all
      have t: "todo s5 r = todo s4 r" using env_same_todo [OF e(3)] .
      have "flows r [] s4 [payload (regs s5 r) p] s5"
        using e t iss by (simp add: flows_def pipe_def env_same_def)
      then have "flows r [] s [payload (regs s5 r) p] s5" by (rule flows_trans [OF fl])
      moreover have "length (on_q s5 r Qissued @ on_q s5 r Qreq) + 2 * todo s5 r
             < length (on_q s r Qissued @ on_q s r Qreq) + 2 * todo s r"
        using U(9) V(9) W(9) e(4,5) t iss by simp
      ultimately show ?thesis using run Some e c U(2,4) V(2,4) W(2,4) by (auto simp: env_same_def)
    qed
  qed
qed

lemma kernel_loop_ok:
  assumes "dev_ok r own s" and "clr s r = COLOR_KER" and "work_env_of (v_done v) A old r s" and "ready s"
    and K: "kernel_ok A" and "length (on_q s r Qissued @ on_q s r Qreq) + 2 * todo s r < n"
  shows "\<exists>s1. kernel_loop v n old r mm s = Inr ((), s1) \<and> dev_ok r own s1 \<and> clr s1 r = COLOR_USR
    \<and> on_q s1 r Qissued = [] \<and> on_q s1 r Qreq = [] \<and> flows r [] s [] s1"
  using assms(1-4,6)
proof (induction n arbitrary: s)
  case (Suc n)
  obtain d s1 where k: "kernel_next r s = Inr ((False, d), s1)" "clr s1 r = COLOR_KER" "rest s1 = rest s"
    "case d of None \<Rightarrow> dev_ok r own s1 \<and> on_q s1 r Qissued = [] \<and> on_q s1 r Qreq = []
         \<and> flows r [] s [] s1 \<and> length (on_q s1 r Qreq) + 2 * todo s1 r \<le> length (on_q s r Qissued @ on_q s r Qreq) + 2 * todo s r
       | Some p \<Rightarrow> p \<notin> own \<and> dev_ok r (insert p own) s1 \<and> flows r [] s [payload (regs s1 r) p] s1
         \<and> length (on_q s1 r Qissued @ on_q s1 r Qreq) + 2 * todo s1 r
             < length (on_q s r Qissued @ on_q s r Qreq) + 2 * todo s r"
    using kernel_next_ok [OF Suc.prems(1,2)] by blast
  have E1: "work_env_of (v_done v) A old r s1" "ready s1"
    using Suc.prems(3,4) rest_tables [OF k(3)] ready_chans [of s1 s] by (simp_all add: work_env_of_def copy_env_def)
  show ?case
  proof (cases d)
    case (Some p)
    then have p: "p \<notin> own" "dev_ok r (insert p own) s1" "flows r [] s [payload (regs s1 r) p] s1"
      "length (on_q s1 r Qissued @ on_q s1 r Qreq) + 2 * todo s1 r < Suc n"
      "length (on_q s1 r Qissued @ on_q s1 r Qreq) + 2 * todo s1 r < length (on_q s r Qissued @ on_q s r Qreq) + 2 * todo s r"
      using k(4) Suc.prems(5) by auto
    obtain s2 where o: "kernel_do_one v old r mm p s1 = Inr ((), s2)" "dev_ok r (insert p own - {p}) s2"
      "work_env_of (v_done v) A old r s2" "ready s2" "flows r [payload (regs s1 r) p] s1 [] s2" "clr s2 r = clr s1 r"
      "on_q s2 r Qissued = on_q s1 r Qissued"
      "length (on_q s2 r Qreq) + 2 * todo s2 r \<le> length (on_q s1 r Qreq) + 2 * todo s1 r"
      using kernel_do_one_copy_ok [OF p(2) insertI1 E1 K] by blast
    have ow: "insert p own - {p} = own" using p(1) by blast
    have "length (on_q s2 r Qissued @ on_q s2 r Qreq) + 2 * todo s2 r < n"
      using o(7,8) p(5) Suc.prems(5) by simp
    then obtain s3 where s3: "kernel_loop v n old r mm s2 = Inr ((), s3)" "dev_ok r own s3" "clr s3 r = COLOR_USR"
      "on_q s3 r Qissued = []" "on_q s3 r Qreq = []" "flows r [] s2 [] s3"
      using Suc.IH [OF o(2) [unfolded ow] _ o(3,4)] o(6) k(2) by auto
    have "kernel_loop v (Suc n) old r mm s = Inr ((), s3)" using k(1) Some o(1) s3(1) by simp
    moreover have "flows r [] s [] s3" by (rule flows_trans [OF flows_trans [OF p(3) o(5)] s3(6)])
    ultimately show ?thesis using s3 by blast
  next
    case None
    then have z: "dev_ok r own s1" "on_q s1 r Qissued = []" "on_q s1 r Qreq = []" "flows r [] s [] s1"
      "length (on_q s1 r Qreq) + 2 * todo s1 r \<le> length (on_q s r Qissued @ on_q s r Qreq) + 2 * todo s r"
      using k(4) by simp_all
    obtain s2 c s3 where c: "users_ran r own s1 s2" "k_set_color r Qreq COLOR_USR s1 = Inr (c, s3)"
      "if on_q s2 r Qreq = [] then c = clr s2 r \<and> c \<noteq> -1 \<and> clr s3 r = COLOR_USR else c = -1 \<and> s3 = s2"
      "dev_ok r own s3" "env_same r s2 s3" "\<forall>q\<in>set live_qs. on_q s3 r q = on_q s2 r q"
      using k_set_color_ok [OF z(1) sint_colors(2)] by blast
    note U = users_ranD [OF c(1)]
    have "flows r [] s2 [] s3"
      using c(5,6) env_same_todo [OF c(5)] by (simp add: flows_def pipe_def env_same_def)
    then have fl: "flows r [] s [] s3"
      by (rule flows_trans [OF flows_trans [OF z(4) users_flow [OF c(1)]]])
    show ?thesis
    proof (cases "on_q s2 r Qreq = []")
      case True
      then have "kernel_loop v (Suc n) old r mm s = Inr ((), s3)" "clr s3 r = COLOR_USR"
        using k(1) None c(2,3) by auto
      then show ?thesis using c(4,6) fl True U(3) z(2) by auto
    next
      case False
      then have e: "c = -1" "s3 = s2" using c(3) by auto
      have lt: "todo s2 r < todo s1 r" using U(8) z(3) False by simp
      obtain us where us: "on_q s2 r Qreq = on_q s1 r Qreq @ us" "todo s2 r + length us \<le> todo s1 r"
        using c(1) by (auto simp: users_ran_def)
      have "length us + 2 * todo s2 r < 2 * todo s1 r" using us(2) lt by linarith
      then have "length (on_q s3 r Qissued @ on_q s3 r Qreq) + 2 * todo s3 r < n"
        using us(1) e(2) U(3) z Suc.prems(5) by simp
      moreover have "work_env_of (v_done v) A old r s3" "ready s3"
        using E1 U(2) e(2) rest_tables [of s2 s1] ready_chans [of s2 s1] by (simp_all add: work_env_of_def copy_env_def)
      moreover have "clr s3 r = COLOR_KER" using e(2) U(4) k(2) by simp
      ultimately obtain s4 where s4: "kernel_loop v n old r mm s3 = Inr ((), s4)" "dev_ok r own s4" "clr s4 r = COLOR_USR"
        "on_q s4 r Qissued = []" "on_q s4 r Qreq = []" "flows r [] s3 [] s4"
        using Suc.IH [OF c(4)] by blast
      have "kernel_loop v (Suc n) old r mm s = Inr ((), s4)" using k(1) None c(2) e(1) s4(1) by simp
      moreover have "flows r [] s [] s4" by (rule flows_trans [OF fl s4(6)])
      ultimately show ?thesis using s4 by blast
    qed
  qed
qed simp

lemma kernel_flush_work_ok:
  assumes ok: "dev_ok r own s" and c: "clr s r = COLOR_KER" and E: "work_env_of (v_done v) A old r s" and rd: "ready s"
    and t: "t_region (tables s old) = r" and K: "kernel_ok A"
  shows "\<exists>s1. kernel_flush_work_by v old s = Inr ((), s1) \<and> dev_ok r own s1 \<and> clr s1 r = COLOR_USR
    \<and> on_q s1 r Qissued = [] \<and> on_q s1 r Qreq = [] \<and> flows r [] s [] s1"
proof -
  define s1 where "s1 = s\<lparr>hist := hist s @ [(''free_pages'', [old, v_order v],
      answer s (hist s) ''free_pages'' [old, v_order v])],
      tables := (tables s)(old := after_free s old (tables s old))\<rparr>"
  have fr: "free_table_of (v_order v) old s = Inr ((), s1)"
    by (simp add: free_table_of_def seqK_run exec_run s1_def)
  have E1: "work_env_of (v_done v) A old r s1" using E by (simp add: work_env_of_def copy_env_def s1_def)
  have rd1: "ready s1" using ready_chans [of s1 s] rd by (simp add: s1_def)
  have v: "dev_ok r own s1" "clr s1 r = COLOR_KER" "on_q s1 r = on_q s r" "todo s1 r = todo s r"
    "flows r [] s [] s1" "regs s1 = regs s"
    using ok c by (simp_all add: s1_def dev_ok_def clr_def on_q_def todo_def flows_def pipe_def fun_eq_iff)
  have "length (on_q s1 r Qissued @ on_q s1 r Qreq) + 2 * todo s1 r < unat (ndescs (regs s1 r)) + 2 * todo s1 r + 3"
    using on_q_bound [OF v(1)] by simp
  then obtain s2 where s2: "kernel_loop v (unat (ndescs (regs s1 r)) + 2 * todo s1 r + 3) old r (t_mm (tables s old)) s1
      = Inr ((), s2)" "dev_ok r own s2" "clr s2 r = COLOR_USR"
    "on_q s2 r Qissued = []" "on_q s2 r Qreq = []" "flows r [] s1 [] s2"
    using kernel_loop_ok [OF v(1,2) E1 rd1 K] by blast
  have "kernel_flush_work_by v old s = Inr ((), s2)"
    using fr s2(1) t by (simp add: kernel_flush_work_by_def get_table_def bindK_run seqK_run)
  then show ?thesis using s2 flows_trans [OF v(5) s2(6)] by blast
qed

end

section \<open>The submission of the single-channel driver\<close>

lemma keeps_wview_copy [simp]: "keeps wview (issue_one_desc_copy r d irq mm)"
  by (simp add: issue_one_desc_copy_def)

definition called_back :: "addr \<Rightarrow> kst \<Rightarrow> bool" where
  "called_back t s \<longleftrightarrow> (\<exists>tx v. (''tx->callback = dma_callback_kthread'', [tx, t], v) \<in> set (hist s))"

text \<open>A submission that succeeds and keeps to itself is one as the interface wants it.\<close>

lemma submission_runs:
  assumes A: "answer s = A" and m: "succeeds A (regs s) (max_nr_sg s) m (submitted Issue_copy r p irq mm n sgl)"
    and k: "keeps qview m" "keeps wview m" and c: "\<And>old. preserves (calls_copy old) m"
  shows "\<exists>t s1. m s = Inr (t, s1) \<and> issue_one_desc_func (tables s1 t) = Issue_copy
    \<and> migdesc (tables s1 t) = Some p \<and> t_region (tables s1 t) = r \<and> t_mm (tables s1 t) = mm
    \<and> qview s1 = qview s \<and> wview s1 = wview s
    \<and> (\<forall>old. issue_one_desc_func (tables s old) = Issue_copy \<longrightarrow> issue_one_desc_func (tables s1 old) = Issue_copy)
    \<and> (irq \<longrightarrow> called_back t s1)"
proof -
  have e: "env_is A (regs s) (max_nr_sg s) s" using A by (simp add: env_is_def)
  obtain t s1 where i: "m s = Inr (t, s1)" "submitted Issue_copy r p irq mm n sgl t s1"
    by (rule succeedsD [OF m e]) blast
  have "qview s1 = qview s" "wview s1 = wview s"
    using keepsD [OF k(1) i(1)] keepsD [OF k(2) i(1)] by simp_all
  moreover have "issue_one_desc_func (tables s1 old) = Issue_copy" if "issue_one_desc_func (tables s old) = Issue_copy" for old
    using c [of old] that i(1) unfolding preserves_def by blast
  ultimately show ?thesis using i by (auto simp: submitted_def called_back_def)
qed

lemma issue_one_desc_runs:
  assumes A: "answer s = A" and K: "kernel_copies A pt phys" and N: "128 < max_nr_sg s"
  shows "\<exists>t s1. issue_one_desc Issue_copy r p irq mm s = Inr (t, s1) \<and> issue_one_desc_func (tables s1 t) = Issue_copy
    \<and> migdesc (tables s1 t) = Some p \<and> t_region (tables s1 t) = r \<and> t_mm (tables s1 t) = mm
    \<and> qview s1 = qview s \<and> wview s1 = wview s
    \<and> (\<forall>old. issue_one_desc_func (tables s old) = Issue_copy \<longrightarrow> issue_one_desc_func (tables s1 old) = Issue_copy)
    \<and> (irq \<longrightarrow> called_back t s1)"
proof -
  have n: "page_count_of (desc_at (regs s r) p) < max_nr_sg s"
    using N page_count_of_bounds(2) [of "desc_at (regs s r) p"] by simp
  have "preserves (calls_copy old) (issue_one_desc_copy r p irq mm)" for old
    by (simp add: issue_one_desc_copy_def submit_sg_def whenK_def)
  from submission_runs [OF A issue_copy_succeeds [where R = "regs s" and irq = irq and mm = mm, OF K n]
      keeps_qview_copy keeps_wview_copy this] show ?thesis
    by (simp add: issue_one_desc_def)
qed

text \<open>The kernel lets replications through.\<close>

definition can_copy :: "(kevent list \<Rightarrow> string \<Rightarrow> int list \<Rightarrow> int) \<Rightarrow> bool" where
  "can_copy A \<longleftrightarrow> (\<exists>pt phys. kernel_copies A pt phys)"

lemma can_copyI: "kernel_copies A pt phys \<Longrightarrow> can_copy A"
  by (auto simp: can_copy_def)

interpretation x86: submission x86_driver can_copy "\<lambda>_. True" called_back
  by unfold_locales (simp, unfold can_copy_def x86_driver, elim exE, rule issue_one_desc_runs)

text \<open>The facts under the names of that driver's functions.\<close>

lemmas x86_flush_runs = x86.user_flush_runs [folded user_flush_def, unfolded x86_driver]
lemmas x86_flush_ker = x86.user_flush_ker [folded user_flush_def, unfolded x86_driver]
lemmas x86_flush_nothing = x86.user_flush_nothing [folded user_flush_def, unfolded x86_driver]
lemmas x86_work_ok = x86.kernel_flush_work_ok [folded kernel_flush_work_def, unfolded x86_driver, OF _ _ _ TrueI _ can_copyI]

end
