(* ===== verification/Session.thy ===== *)
theory Session
  imports DrvWorker
begin

text \<open>
  A whole replication session of \<^verbatim>\<open>migrate-x86/migrate-x86.c\<close>: the user's system call submits the
  oldest request (\<open>user_flush\<close>), the engine calls back when it is done (\<open>dma_callback_kthread\<close>), and
  the worker that the callback schedules (\<open>kernel_flush_work\<close>) completes everything else.
\<close>

section \<open>What the submission leaves alone\<close>

text \<open>What a session needs of the driver's state besides a sound device.\<close>

definition roomy :: "(kevent list \<Rightarrow> string \<Rightarrow> int list \<Rightarrow> int) \<Rightarrow> kst \<Rightarrow> bool" where
  "roomy A s \<longleftrightarrow> answer s = A \<and> 128 < max_nr_sg s \<and> (\<forall>t T. after_free s t T = T)"

text \<open>The queues' side of the state only depends on \<open>qview\<close>.\<close>

lemma qview_device:
  assumes "qview s1 = qview s"
  shows "dev_ok r own s1 = dev_ok r own s" "clr s1 r = clr s r" "on_q s1 r q = on_q s r q" "flows r fl s fl s1"
    "payload (regs s1 r) p = payload (regs s r) p"
  using assms by (simp_all add: qview_def dev_ok_def clr_def on_q_def flows_def pipe_def todo_def)

section \<open>The session\<close>

text \<open>
  \<open>fire t\<close> is everything that the engine calls back once the transfer of the table \<open>t\<close> is over.  The
  driver's side of it is \<open>dma_callback_kthread\<close>, run once, after steps that leave the device alone.
\<close>

definition device_view :: "kst \<Rightarrow> (addr \<Rightarrow> mig_table) \<times> ((addr \<Rightarrow> mig_region) \<times> (addr \<Rightarrow> uact list list)
    \<times> (addr \<Rightarrow> words2 list) \<times> (addr \<Rightarrow> words2 list) \<times> nat) \<times> ((addr \<Rightarrow> mig_table \<Rightarrow> mig_table)
    \<times> (kevent list \<Rightarrow> string \<Rightarrow> int list \<Rightarrow> int) \<times> (int \<Rightarrow> addr) \<times> (addr \<Rightarrow> mmap_info))" where
  "device_view s = (tables s, qview s, wview s)"

locale session = submission +
  fixes fire :: "addr \<Rightarrow> unit kern"
  assumes fire_runs: "registered t s \<Longrightarrow> \<exists>s1. fire t s = dma_callback_kthread_by v t s1 \<and> device_view s1 = device_view s"
begin

lemma session_copies:
  assumes ok: "dev_ok r {} s" and c: "clr s r \<noteq> COLOR_KER" and ne: "on_q s r Qissued @ on_q s r Qreq \<noteq> []"
    and r: "r \<noteq> 0" and room: "roomy A s" and rd: "ready s" and K: "kernel_ok A"
    and D: "\<And>h. A h (v_done v) [i_chan (infos s (region_to_mmap_info r))] \<noteq> 0"
  shows "\<exists>t s1 s2 s3. user_flush_by v r mm parent Issue_copy s = Inr (0, s1) \<and> registered t s1
    \<and> fire t s1 = Inr ((), s2) \<and> kernel_flush_work_by v t s2 = Inr ((), s3)
    \<and> dev_ok r {} s3 \<and> clr s3 r = COLOR_USR \<and> on_q s3 r Qissued = [] \<and> on_q s3 r Qreq = []
    \<and> flows r [] s [] s3 \<and> issue_one_desc_func (tables s1 t) = Issue_copy"
proof -
  obtain p s2 where u: "user_flush_by v r mm parent Issue_copy s = bindK (v_issue v Issue_copy r p True mm) (\<lambda>_. ret 0) s2"
    "dev_ok r (insert p {}) s2" "clr s2 r = COLOR_KER" "flows r [] s [payload (regs s2 r) p] s2"
    "answer s2 = answer s" "max_nr_sg s2 = max_nr_sg s" "after_free s2 = after_free s" "infos s2 = infos s" "chans s2 = chans s"
    using user_flush_runs [OF ok c ne, of mm parent Issue_copy] by blast
  have rd2: "ready s2" using ready_chans [OF u(9)] rd by simp
  have A2: "answer s2 = A" "128 < max_nr_sg s2" using room u(5,6) by (simp_all add: roomy_def)
  obtain t s3 where i: "v_issue v Issue_copy r p True mm s2 = Inr (t, s3)" "issue_one_desc_func (tables s3 t) = Issue_copy"
    "migdesc (tables s3 t) = Some p" "t_region (tables s3 t) = r" "qview s3 = qview s2" "wview s3 = wview s2" "registered t s3"
    using issue_runs [OF A2(1) K A2(2) rd2, of r p True mm] by blast
  obtain s4 where f: "fire t s3 = dma_callback_kthread_by v t s4" "tables s4 = tables s3" "qview s4 = qview s3" "wview s4 = wview s3"
    using fire_runs [OF i(7)] by (auto simp: device_view_def)
  have q4: "qview s4 = qview s2" using i(5) f(3) by simp
  note Q = qview_device [OF q4]
  have ok4: "dev_ok r {p} s4" "clr s4 r = COLOR_KER" using Q u(2,3) by simp_all
  have f4: "flows r [] s [payload (regs s4 r) p] s4"
    using flows_trans [OF u(4) Q(4)] Q(5) by simp
  obtain s5 where cb: "dma_callback_kthread_by v t s4 = Inr ((), s5)" "dev_ok r ({p} - {p}) s5"
    "flows r [payload (regs s4 r) p] s4 [] s5" "clr s5 r = clr s4 r" "copy_view s5 = copy_view s4"
    "infos s5 = infos s4" "chans s5 = chans s4"
    using callback_by_copy_ok [OF ok4(1) _ r] i(2-4) f(2) by fastforce
  have v5: "tables s5 = tables s3" "answer s5 = A" "128 < max_nr_sg s5" "after_free s5 = after_free s"
    "infos s5 = infos s" "chans s5 = chans s"
    using cb(5-7) f(2-4) i(5,6) A2 u(7-9) by (simp_all add: copy_view_def qview_def wview_def)
  have W: "work_env_of (v_done v) A t r s5"
    using v5 room D i(2) by (simp add: work_env_of_def copy_env_def roomy_def)
  have rd5: "ready s5" using ready_chans [OF v5(6)] rd by simp
  have ok5: "dev_ok r {} s5" "clr s5 r = COLOR_KER" using cb(2,4) ok4(2) by simp_all
  have tr: "t_region (tables s5 t) = r" using v5(1) i(4) by simp
  obtain s6 where w: "kernel_flush_work_by v t s5 = Inr ((), s6)" "dev_ok r {} s6" "clr s6 r = COLOR_USR"
    "on_q s6 r Qissued = []" "on_q s6 r Qreq = []" "flows r [] s5 [] s6"
    using kernel_flush_work_ok [OF ok5 W rd5 tr K] by blast
  have "user_flush_by v r mm parent Issue_copy s = Inr (0, s3)" using u(1) i(1) by simp
  moreover have "flows r [] s [] s6" using flows_trans [OF f4 flows_trans [OF cb(3) w(6)]] .
  ultimately show ?thesis using i(2,7) f(1) cb(1) w by metis
qed

lemma session_ok:
  assumes "dev_ok r {} s" and "clr s r \<noteq> COLOR_KER" and "on_q s r Qissued @ on_q s r Qreq \<noteq> []"
    and "r \<noteq> 0" and "roomy A s" and "ready s" and "kernel_ok A"
    and "\<And>h. A h (v_done v) [i_chan (infos s (region_to_mmap_info r))] \<noteq> 0"
  shows "\<exists>t s1 s2 s3. user_flush_by v r mm parent Issue_copy s = Inr (0, s1) \<and> registered t s1
    \<and> fire t s1 = Inr ((), s2) \<and> kernel_flush_work_by v t s2 = Inr ((), s3)
    \<and> dev_ok r {} s3 \<and> clr s3 r = COLOR_USR \<and> on_q s3 r Qissued = [] \<and> on_q s3 r Qreq = []
    \<and> flows r [] s [] s3"
  using session_copies [OF assms, of mm parent] by blast

end

text \<open>In the single-channel driver the engine calls back once.\<close>

interpretation x86: session x86_driver can_copy "\<lambda>_. True" called_back dma_callback_kthread
  by unfold_locales (auto simp: dma_callback_kthread_def)

lemmas x86_session_ok = x86.session_ok [folded user_flush_def kernel_flush_work_def, unfolded x86_driver, OF _ _ _ _ _ TrueI can_copyI]

end
