(* ===== verification/EndToEnd.thy ===== *)
theory EndToEnd
  imports DrvIf Session
begin

text \<open>
  The library and the driver together: a user thread calls \<^verbatim>\<open>memif_start_replication\<close> of
  \<^verbatim>\<open>libsmm/migusr.c\<close> on a device of \<^verbatim>\<open>migrate-x86.c\<close>.  The library acts on the kernel's state: it writes
  the region through its mapping, and its system call \<^verbatim>\<open>write\<close> runs the driver's \<^verbatim>\<open>if_write\<close>, which reads
  the command that the library has put on its stack.
\<close>

section \<open>The system call\<close>

text \<open>The pages of a region are mapped by both sides.\<close>

definition region_at :: "addr \<Rightarrow> kst \<Rightarrow> mig_region" where
  "region_at r s = regs s r"

definition set_region :: "addr \<Rightarrow> mig_region \<Rightarrow> kst \<Rightarrow> kst" where
  "set_region r R s = s\<lparr>regs := (regs s)(r := R)\<rparr>"

interpretation mapped: shared_pages region_at set_region
  by unfold_locales (simp_all add: region_at_def set_region_def)

text \<open>
  \<^verbatim>\<open>write(fd, &cmd, sizeof(int))\<close> with \<^verbatim>\<open>cmd\<close> at address \<open>u\<close>: the caller's memory holds the command, the
  kernel looks the file up and calls its \<^verbatim>\<open>write\<close> operation with the caller's buffer; if there is no such file,
  the result is -1.
\<close>

definition sys_write_by :: "variant \<Rightarrow> nat \<Rightarrow> addr \<Rightarrow> int \<Rightarrow> int \<Rightarrow> kst \<Rightarrow> fault + int \<times> kst" where
  "sys_write_by v n u fd cmd =
     seqK (modK (\<lambda>s. s\<lparr>umem := (umem s)(u := cmd)\<rparr>))
       (bindK (getK (\<lambda>s. files s fd)) (\<lambda>filp.
        if filp = 0 then ret (-1) else if_write_by v n filp u 4))"

definition sys_write :: "nat \<Rightarrow> addr \<Rightarrow> int \<Rightarrow> int \<Rightarrow> kst \<Rightarrow> fault + int \<times> kst" where
  "sys_write = sys_write_by x86_driver"

text \<open>
  What the caller has: \<open>fd\<close> is a file of the device whose region is at \<open>r\<close>, and its memory at \<open>u\<close> can be read.
\<close>

definition opened :: "kst \<Rightarrow> int \<Rightarrow> addr \<Rightarrow> addr \<Rightarrow> bool" where
  "opened s fd u r \<longleftrightarrow> 0 < fd \<and> files s fd \<noteq> 0 \<and> i_region (infos s (filp_priv s (files s fd))) = r
     \<and> (\<forall>h. answer s h ''copy_from_user'' [u, 4] = 0)"

lemma sys_write_noremap:
  assumes "opened s fd u r"
  shows "\<exists>h mm. sys_write_by v n u fd MIG_MOVE_SINGLE_NOREMAP s = bindK (user_flush_by v r mm (-1) Issue_copy)
      (\<lambda>_. seqK (exec ''mmput'' [mm]) (ret 4)) (s\<lparr>umem := (umem s)(u := MIG_MOVE_SINGLE_NOREMAP), hist := h\<rparr>)"
proof -
  let ?h = "hist s @ [(''copy_from_user'', [u, 4], 0)]"
  define mm where "mm = answer s ?h ''get_task_mm(current)'' []"
  have a: "answer s h ''copy_from_user'' [u, 4] = 0" "files s fd \<noteq> 0" "i_region (infos s (filp_priv s (files s fd))) = r" for h
    using assms by (simp_all add: opened_def)
  have "sys_write_by v n u fd MIG_MOVE_SINGLE_NOREMAP s = bindK (user_flush_by v r mm (-1) Issue_copy) (\<lambda>_. seqK (exec ''mmput'' [mm]) (ret 4))
      (s\<lparr>umem := (umem s)(u := MIG_MOVE_SINGLE_NOREMAP), hist := ?h @ [(''get_task_mm(current)'', [], mm)]\<rparr>)"
    by (simp add: sys_write_by_def if_write_by_def do_cmd_def bindK_run seqK_run call_runs get_info_def a mm_def
      MIG_INIT_REGION_def MIG_FILL_QREQ_def MIG_EMPTY_QREQ_def MIG_MOVE_SINGLE_def MIG_MOVE_SINGLE_NOREMAP_def
      split: sum.split prod.split)
  then show ?thesis by blast
qed

section \<open>Entering the driver\<close>

text \<open>
  On a device whose request queue the users own, the library adds the request \<open>w\<close> and enters the driver, which
  flushes the queue: in the state \<open>s0\<close>, with the request as the last.
\<close>

lemma start_replication_enters:
  assumes ok: "dev_ok r {} s" and free: "Suc (todo s r) < nfree (regs s r)" and c: "clr s r = COLOR_USR"
    and r: "r \<noteq> 0" and op: "opened s fd u r"
  shows "\<exists>d w mm s0. memif_start_replication region_at set_region (sys_write_by v n u) fd r src dst ord s
      = bindK (user_flush_by v r mm (-1) Issue_copy) (\<lambda>_. seqK (exec ''mmput'' [mm]) (ret d)) s0
    \<and> req_src w = take_bit 52 (MIG_BLOCK_ROUND_DOWN src) \<and> req_dst w = take_bit 52 (MIG_BLOCK_ROUND_DOWN dst)
    \<and> req_order w = ucast ord AND mask 3
    \<and> dev_ok r {} s0 \<and> clr s0 r = COLOR_USR \<and> on_q s0 r Qreq = on_q s r Qreq @ [w] \<and> on_q s0 r Qissued = on_q s r Qissued
    \<and> on_q s0 r Qcomp = on_q s r Qcomp \<and> log_reap s0 = log_reap s \<and> todo s0 r = todo s r \<and> infos s0 = infos s
    \<and> chans s0 = chans s \<and> answer s0 = answer s \<and> max_nr_sg s0 = max_nr_sg s \<and> after_free s0 = after_free s"
proof -
  have wf: "wf_region (region_at r s) {}" and nf: "0 < nfree (region_at r s)" and fd: "0 < fd"
    using ok free op by (simp_all add: dev_ok_def region_at_def opened_def)
  obtain d w R where a: "memif_start_replication region_at set_region (sys_write_by v n u) fd r src dst ord s
      = bindE (sys_write_by v n u fd MIG_MOVE_SINGLE_NOREMAP (set_region r R s)) (\<lambda>(ret, s2). Inr (d, s2))"
    "wf_region R {}" "contents R Qreq = contents (regs s r) Qreq @ [w]" "nfree (regs s r) = Suc (nfree R)"
    "req_src w = take_bit 52 (MIG_BLOCK_ROUND_DOWN src)" "req_dst w = take_bit 52 (MIG_BLOCK_ROUND_DOWN dst)"
    "req_order w = ucast ord AND mask 3"
    "\<forall>q\<in>set live_qs. q \<noteq> Qreq \<longrightarrow> contents R q = contents (regs s r) q"
    "\<forall>q\<in>set live_qs. color_of R q = color_of (regs s r) q"
    using mapped.start_replication_ok [OF wf nf fd r, of "sys_write_by v n u" src dst ord] c
    unfolding clr_def region_at_def by (auto split: if_splits)
  have "opened (set_region r R s) fd u r" using op by (simp add: opened_def set_region_def)
  from sys_write_noremap [OF this, of v n] obtain h mm where w: "sys_write_by v n u fd MIG_MOVE_SINGLE_NOREMAP (set_region r R s)
      = bindK (user_flush_by v r mm (-1) Issue_copy) (\<lambda>_. seqK (exec ''mmput'' [mm]) (ret 4))
        ((set_region r R s)\<lparr>umem := (umem (set_region r R s))(u := MIG_MOVE_SINGLE_NOREMAP), hist := h\<rparr>)"
    by blast
  define s0 where "s0 = (set_region r R s)\<lparr>umem := (umem (set_region r R s))(u := MIG_MOVE_SINGLE_NOREMAP), hist := h\<rparr>"
  have "memif_start_replication region_at set_region (sys_write_by v n u) fd r src dst ord s
      = bindK (user_flush_by v r mm (-1) Issue_copy) (\<lambda>_. seqK (exec ''mmput'' [mm]) (ret d)) s0"
    unfolding a(1) w s0_def [symmetric] by (simp add: bindK_run seqK_run exec_run split: sum.split)
  moreover have "on_q s0 r Qreq = on_q s r Qreq @ [w]" "on_q s0 r Qissued = on_q s r Qissued" "on_q s0 r Qcomp = on_q s r Qcomp"
    "clr s0 r = COLOR_USR" "todo s0 r = todo s r"
    using a(3,8,9) c by (simp_all add: s0_def set_region_def on_q_def clr_def todo_def)
  moreover from this have "dev_ok r {} s0" using a(2,4) free by (simp add: dev_ok_def s0_def set_region_def)
  moreover have "log_reap s0 = log_reap s" "infos s0 = infos s" "chans s0 = chans s" "answer s0 = answer s"
    "max_nr_sg s0 = max_nr_sg s" "after_free s0 = after_free s"
    by (simp_all add: s0_def set_region_def)
  ultimately show ?thesis using a(5-7) by metis
qed

section \<open>From the call to the completion queue\<close>

text \<open>The engine calls back after the system call has given up the memory map.\<close>

lemma session_mmput:
  "session x86_driver can_copy (\<lambda>_. True) called_back (\<lambda>t. seqK (exec ''mmput'' [mm]) (dma_callback_kthread t))"
  by unfold_locales (auto simp: dma_callback_kthread_def seqK_run exec_run device_view_def qview_def wview_def)

lemmas mmput_session_ok = session.session_copies [OF session_mmput, folded user_flush_def kernel_flush_work_def,
  unfolded x86_driver, OF _ _ _ _ _ TrueI can_copyI]

text \<open>
  The call returns the descriptor after the driver has started the engine; when the engine calls back and the
  worker has run, the request is among the completed ones, right behind those submitted before it.
\<close>

lemma replication_end_to_end_ok:
  assumes ok: "dev_ok r {} s" and free: "Suc (todo s r) < nfree (regs s r)" and c: "clr s r = COLOR_USR"
    and r: "r \<noteq> 0" and op: "opened s fd u r"
    and room: "roomy A s" and K: "kernel_copies A pt phys"
    and D: "\<And>h. A h ''device_tx_status == DMA_COMPLETE'' [i_chan (infos s (region_to_mmap_info r))] \<noteq> 0"
  shows "\<exists>d w s1 t s2 s3 us. memif_start_replication region_at set_region (sys_write n u) fd r src dst ord s = Inr (d, s1)
    \<and> called_back t s1 \<and> issue_one_desc_func (tables s1 t) = Issue_copy
    \<and> dma_callback_kthread t s1 = Inr ((), s2) \<and> kernel_flush_work t s2 = Inr ((), s3)
    \<and> req_src w = take_bit 52 (MIG_BLOCK_ROUND_DOWN src) \<and> req_dst w = take_bit 52 (MIG_BLOCK_ROUND_DOWN dst)
    \<and> req_order w = ucast ord AND mask 3
    \<and> log_reap s3 r @ on_q s3 r Qcomp = log_reap s r @ on_q s r Qcomp @ on_q s r Qissued @ on_q s r Qreq @ w # us
    \<and> clr s3 r = COLOR_USR \<and> dev_ok r {} s3"
proof -
  obtain d w mm s0 where E: "memif_start_replication region_at set_region (sys_write n u) fd r src dst ord s
      = bindK (user_flush r mm (-1) Issue_copy) (\<lambda>_. seqK (exec ''mmput'' [mm]) (ret d)) s0"
    "req_src w = take_bit 52 (MIG_BLOCK_ROUND_DOWN src)" "req_dst w = take_bit 52 (MIG_BLOCK_ROUND_DOWN dst)"
    "req_order w = ucast ord AND mask 3"
    "dev_ok r {} s0" "clr s0 r = COLOR_USR" "on_q s0 r Qreq = on_q s r Qreq @ [w]" "on_q s0 r Qissued = on_q s r Qissued"
    "on_q s0 r Qcomp = on_q s r Qcomp" "log_reap s0 = log_reap s" "infos s0 = infos s" "roomy A s0"
    using start_replication_enters [OF ok free c r op, of x86_driver n src dst ord] room
    unfolding sys_write_def user_flush_def roomy_def by auto
  have c0: "clr s0 r \<noteq> COLOR_KER" using E(6) by (simp add: COLOR_USR_def COLOR_KER_def)
  have ne: "on_q s0 r Qissued @ on_q s0 r Qreq \<noteq> []" using E(7) by simp
  have D0: "A h ''device_tx_status == DMA_COMPLETE'' [i_chan (infos s0 (region_to_mmap_info r))] \<noteq> 0" for h
    using D E(11) by simp
  obtain t s1 s2 s3 where S: "user_flush r mm (-1) Issue_copy s0 = Inr (0, s1)" "called_back t s1"
    "seqK (exec ''mmput'' [mm]) (dma_callback_kthread t) s1 = Inr ((), s2)" "kernel_flush_work t s2 = Inr ((), s3)"
    "dev_ok r {} s3" "clr s3 r = COLOR_USR" "on_q s3 r Qissued = []" "on_q s3 r Qreq = []" "flows r [] s0 [] s3"
    "issue_one_desc_func (tables s1 t) = Issue_copy"
    using mmput_session_ok [OF E(5) c0 ne r E(12) K D0, of mm "-1" mm] by auto
  define s1' where "s1' = s1\<lparr>hist := hist s1 @ [(''mmput'', [mm], answer s1 (hist s1) ''mmput'' [mm])]\<rparr>"
  have run: "memif_start_replication region_at set_region (sys_write n u) fd r src dst ord s = Inr (d, s1')"
    "dma_callback_kthread t s1' = Inr ((), s2)" "issue_one_desc_func (tables s1' t) = Issue_copy"
    using S(1,3,10) by (simp_all add: E(1) seqK_run exec_run s1'_def)
  have cb: "called_back t s1'" using S(2) by (auto simp: called_back_def s1'_def)
  obtain us where "pipe r [] s3 = pipe r [] s0 @ us" using S(9) by (auto simp: flows_def)
  then have "log_reap s3 r @ on_q s3 r Qcomp = log_reap s r @ on_q s r Qcomp @ on_q s r Qissued @ on_q s r Qreq @ w # us"
    using S(7,8) E(7-10) by (simp add: pipe_def)
  then show ?thesis using run cb S(4-6) E(2-4) by blast
qed

section \<open>From loading the module\<close>

text \<open>Loading, opening, a request through the library, the engine's callback, the worker.\<close>

lemma load_to_completion_ok:
  assumes f: "\<And>h xs. A h ''debugfs_create_file'' xs \<noteq> 0" and d: "\<And>h xs. A h ''dma_request_channel DMA_MEMCPY'' xs \<noteq> 0"
    and room: "roomy A s" and K: "kernel_copies A pt phys"
    and D: "\<And>h xs. A h ''device_tx_status == DMA_COMPLETE'' xs \<noteq> 0"
    and nm: "find_device nm 0 debug_fnames = Some (int i)" "i < length debug_fnames" and filp: "filp_priv s filp = 0"
    and users: "\<And>r. todo s r < 375" and fd: "0 < fd" "files s fd = filp" "filp \<noteq> 0"
    and cmd: "\<And>h. A h ''copy_from_user'' [u, 4] = 0"
  shows "\<exists>s1 s2 r. migks2_module_init s = Inr (0, s1) \<and> if_open nm filp s1 = Inr (0, s2)
    \<and> i_region (infos s2 (filp_priv s2 filp)) = r \<and> i_chan (infos s2 (filp_priv s2 filp)) = chans s1 (int i)
    \<and> (\<exists>d w s3 t s4 s5 us. memif_start_replication region_at set_region (sys_write n u) fd r src dst ord s2 = Inr (d, s3)
      \<and> called_back t s3 \<and> issue_one_desc_func (tables s3 t) = Issue_copy
      \<and> dma_callback_kthread t s3 = Inr ((), s4) \<and> kernel_flush_work t s4 = Inr ((), s5)
      \<and> req_src w = take_bit 52 (MIG_BLOCK_ROUND_DOWN src) \<and> req_dst w = take_bit 52 (MIG_BLOCK_ROUND_DOWN dst)
      \<and> req_order w = ucast ord AND mask 3
      \<and> log_reap s5 r @ on_q s5 r Qcomp = log_reap s r @ w # us \<and> clr s5 r = COLOR_USR \<and> dev_ok r {} s5)"
proof -
  have A: "answer s = A" using room by (simp add: roomy_def)
  have v: "v_init_chan x86_driver = call ''dma_request_channel DMA_MEMCPY'' []" by (simp add: init_dma_chan_def)
  have gfp: "answer s h ''__get_free_pages'' xs \<noteq> 0" for h xs using kernel_copiesD(2) [OF K] A by simp
  obtain s1 s2 r where L: "migks2_module_init_by x86_driver s = Inr (0, s1)" "if_open_by x86_driver nm filp s1 = Inr (0, s2)"
    "r \<noteq> 0" "filp_priv s2 filp = region_to_mmap_info r" "i_region (infos s2 (region_to_mmap_info r)) = r"
    "i_chan (infos s2 (region_to_mmap_info r)) = chans s1 (int i)" "wf_region (regs s2 r) {}"
    "\<forall>q\<in>set live_qs. contents (regs s2 r) q = []" "color_of (regs s2 r) Qreq = COLOR_USR" "nfree (regs s2 r) = 376"
    using load_then_open [of s x86_driver "''dma_request_channel DMA_MEMCPY''" "[]" nm i filp, OF _ gfp v] A f d nm filp by auto
  have b: "boot_view s2 = boot_view s"
    using keepsD [OF keeps_boot_view(1) [OF v] L(1)] keepsD [OF keeps_boot_view(2) [OF v] L(2)] by simp
  then have k: "roomy A s2" "todo s2 r = todo s r" "log_reap s2 r = log_reap s r" "files s2 = files s"
    using room by (simp_all add: boot_view_def roomy_def todo_def)
  have own: "filp_priv s2 filp = region_to_mmap_info r" "i_region (infos s2 (filp_priv s2 filp)) = r"
    "i_chan (infos s2 (filp_priv s2 filp)) = chans s1 (int i)" using L(4-6) by simp_all
  have q: "on_q s2 r Qcomp = []" "on_q s2 r Qissued = []" "on_q s2 r Qreq = []" "clr s2 r = COLOR_USR"
    using L(8,9) by (simp_all add: on_q_def clr_def)
  have ok: "dev_ok r {} s2" "Suc (todo s2 r) < nfree (regs s2 r)"
    using L(7,10) users [of r] k(2) by (simp_all add: dev_ok_def)
  have "opened s2 fd u r"
    using k(1,4) cmd own(2) fd by (simp add: opened_def roomy_def)
  from replication_end_to_end_ok [OF ok q(4) L(3) this k(1) K D, of n src dst ord]
  show ?thesis
    unfolding q(1-3) append_Nil k(3)
    using L(1,2) own(2,3) by (fold migks2_module_init_def if_open_def) blast
qed

end
