(* ===== verification/DrvMulti.thy ===== *)
theory DrvMulti
  imports Session DrvIf
begin

text \<open>
  The 16-channel driver \<^verbatim>\<open>migrate-x86/migrate-x86-multi-chan.c\<close>.  It is \<^verbatim>\<open>migrate-x86.c\<close> with the two
  functions that submit a descriptor and the engine's callback changed: the scatter lists are cut
  into 16 parts of \<open>count / 16\<close> elements, one for each channel, and the callback does its work when
  it is called for the 16th time (\<^verbatim>\<open>MULTI_CHAN_SERIAL\<close> is 0).

  The lemmas: where the parts begin, what each channel transfers, that the parts make up the whole
  range exactly if there are 16 pages or more, what the callbacks count, and the interpretations of
  the driver's interfaces, which give this driver the results about its system call and worker.
\<close>

section \<open>Cutting the scatter lists\<close>

definition NR_CHANS :: nat where "NR_CHANS = 16"

text \<open>A cursor into a list of \<open>count\<close> elements: None is \<^verbatim>\<open>NULL\<close>, from which \<^verbatim>\<open>sg_next\<close> must not go on.\<close>

definition sg_next :: "nat \<Rightarrow> nat option \<Rightarrow> nat option kern" where
  "sg_next count m = (case m of None \<Rightarrow> failK Bad_access
     | Some i \<Rightarrow> ret (if Suc i < count then Some (Suc i) else None))"

definition sg_advance :: "nat \<Rightarrow> nat option \<times> nat option \<Rightarrow> nat \<Rightarrow> (nat option \<times> nat option) kern" where
  "sg_advance count = (\<lambda>(m_sgs, m_sgd) j. (bindK (sg_next count m_sgs) (\<lambda>s1.
    bindK (sg_next count m_sgd) (\<lambda>d1.
    ret (s1, d1)))))"

text \<open>The arrays \<^verbatim>\<open>sg_src_n\<close> and \<^verbatim>\<open>sg_dst_n\<close>, as a list of pairs, and the cursors after the loop.\<close>

definition chan_starts :: "nat \<Rightarrow> nat \<Rightarrow> ((nat option \<times> nat option) list) kern" where
  "chan_starts count each = (bindK (foldK (\<lambda>(l, m) i. (bindK (foldK (sg_advance count) m [0..<each]) (\<lambda>m1.
       ret (l @ [m], m1)))) ([], (Some 0, Some 0)) [0..<NR_CHANS]) (\<lambda>(l, m).
    ret l))"

text \<open>What the engine reads from a cursor.\<close>

definition sg_part :: "sg_ent list \<Rightarrow> nat \<Rightarrow> nat option \<Rightarrow> sg_ent list" where
  "sg_part es each m = (case m of None \<Rightarrow> [] | Some k \<Rightarrow> take each (drop k es))"

section \<open>Submission\<close>

text \<open>One channel; a null \<^verbatim>\<open>chans[i]\<close> is followed.\<close>

definition submit_chan ::
  "addr \<Rightarrow> bool \<Rightarrow> nat \<Rightarrow> sg_ent list \<Rightarrow> sg_ent list \<Rightarrow> (nat option \<times> nat option) list \<Rightarrow> nat \<Rightarrow> unit kern" where
  "submit_chan t do_irq each src dst starts i = (bindK (getK (\<lambda>s. chans s (int i))) (\<lambda>chan.
    seqK (whenK (chan = 0) (failK Bad_access)) (
    bindK (call ''device_prep_dma_sg''
        (chan # int each # int each # of_bool do_irq # sg_args (sg_part dst each (snd (starts ! i)))
           @ sg_args (sg_part src each (fst (starts ! i))))) (\<lambda>tx.
    seqK (BUG_ON (tx = 0)) (
    seqK (whenK do_irq (exec ''tx->callback = dma_callback_kthread'' [tx, t])) (
    seqK (exec ''dmaengine_submit'' [tx]) (
    seqK (exec ''dma_async_issue_pending'' [chan]) (
    bindK (call ''ktime_get'' []) (\<lambda>now.
    modK (\<lambda>s. s\<lparr>start_transfer := (start_transfer s)[i := now]\<rparr>))))))))))"

text \<open>Fill in the table, cut the lists, reset the counter and start all channels.\<close>

definition submit_sg_multi ::
  "issue_func \<Rightarrow> addr \<Rightarrow> addr \<Rightarrow> desc_p \<Rightarrow> bool \<Rightarrow> addr \<Rightarrow> nat \<Rightarrow> addr \<Rightarrow> addr
     \<Rightarrow> sg_ent list \<times> sg_ent list \<Rightarrow> unit kern" where
  "submit_sg_multi func t r desc do_irq mm count sg_src sg_dst = (\<lambda>(src, dst). (seqK (upd_table t (\<lambda>T. T\<lparr>t_region := r, t_mm := mm, num_mig_descs := 1, num_pages := int count,
       migdesc := Some desc, issue_one_desc_func := func\<rparr>)) (
    bindK (call ''smp_processor_id'' []) (\<lambda>cpu.
    seqK (upd_table t (\<lambda>T. T\<lparr>user_cpu := cpu\<rparr>)) (
    seqK (BUG_ON (src = [] \<or> dst = [])) (
    seqK (exec ''sg_mark_end'' [sg_src, int (length src) - 1]) (
    seqK (exec ''sg_mark_end'' [sg_dst, int (length dst) - 1]) (
    seqK (upd_pg t count (\<lambda>d. d\<lparr>page := 0\<rparr>)) (
    let each_chan_page_count = count div NR_CHANS in
    bindK (chan_starts count each_chan_page_count) (\<lambda>starts.
    seqK (modK (\<lambda>s. s\<lparr>my_counter := of_nat NR_CHANS\<rparr>)) (
    seqK (modK (\<lambda>s. s\<lparr>test_flag := 0\<rparr>)) (
    forK [0..<NR_CHANS] (submit_chan t do_irq each_chan_page_count src dst starts)))))))))))))"

definition issue_one_desc_copy_multi :: "addr \<Rightarrow> desc_p \<Rightarrow> bool \<Rightarrow> addr \<Rightarrow> addr kern" where
  "issue_one_desc_copy_multi r desc do_irq mm = (bindK (collect_copy r desc mm) (\<lambda>(t, count, sg_src, sg_dst, sgl).
    seqK (submit_sg_multi Issue_copy t r desc do_irq mm count sg_src sg_dst sgl) (
    seqK (exec ''kfree'' [sg_dst]) (
    seqK (exec ''kfree'' [sg_src]) (
    ret t)))))"

text \<open>The migration frees one of its two scatter tables.\<close>

definition issue_one_desc_mig_multi :: "addr \<Rightarrow> desc_p \<Rightarrow> bool \<Rightarrow> addr \<Rightarrow> addr kern" where
  "issue_one_desc_mig_multi r desc do_irq mm = (bindK (collect_mig r desc mm) (\<lambda>(t, count, sg_src, sg_dst, sgl).
    seqK (submit_sg_multi Issue_mig t r desc do_irq mm count sg_src sg_dst sgl) (
    seqK (exec ''kfree'' [sg_src]) (
    ret t))))"

definition issue_one_desc_multi :: submitter where
  "issue_one_desc_multi f r desc do_irq mm = (case f of
     Issue_copy \<Rightarrow> issue_one_desc_copy_multi r desc do_irq mm
   | Issue_mig \<Rightarrow> issue_one_desc_mig_multi r desc do_irq mm
   | _ \<Rightarrow> failK Bad_access)"

definition debug_fnames16 :: "string list" where
  "debug_fnames16 = [''migif'', ''migif1'', ''migif2'', ''migif3'', ''migif4'', ''migif5'', ''migif6'', ''migif7'',
     ''migif8'', ''migif9'', ''migif10'', ''migif11'', ''migif12'', ''migif13'', ''migif14'', ''migif15'']"

definition multi_driver :: variant where
  "multi_driver = x86_driver\<lparr>v_issue := issue_one_desc_multi, v_names := debug_fnames16\<rparr>"

lemma multi_driver [simp]:
  "v_issue multi_driver = issue_one_desc_multi" "v_names multi_driver = debug_fnames16" "v_init_chan multi_driver = init_dma_chan"
  "v_done multi_driver = ''device_tx_status == DMA_COMPLETE''"
  "dma_callback_kthread_by multi_driver = dma_callback_kthread"
  by (simp_all add: multi_driver_def fun_eq_iff dma_callback_kthread_def dma_callback_kthread_by_def complete_pages_def)

text \<open>The system call and the worker are the text of \<^verbatim>\<open>migrate-x86.c\<close>.\<close>

definition user_flush_multi :: "addr \<Rightarrow> addr \<Rightarrow> int \<Rightarrow> issue_func \<Rightarrow> int kern" where
  "user_flush_multi = user_flush_by multi_driver"

definition kernel_flush_work_multi :: "addr \<Rightarrow> unit kern" where
  "kernel_flush_work_multi = kernel_flush_work_by multi_driver"

text \<open>Flushing the whole queue, as the commands of the device files do.\<close>

definition flush_single_qreq_multi :: "nat \<Rightarrow> addr \<Rightarrow> bool \<Rightarrow> addr \<Rightarrow> nat kern" where
  "flush_single_qreq_multi = flush_single_qreq_by multi_driver"

definition flush_single_qreq_noremap2_multi :: "addr \<Rightarrow> bool \<Rightarrow> addr \<Rightarrow> nat kern" where
  "flush_single_qreq_noremap2_multi = flush_single_qreq_noremap2_by multi_driver"

definition do_dma_complete_multi :: "nat \<Rightarrow> addr \<Rightarrow> unit kern" where
  "do_dma_complete_multi = do_dma_complete_by multi_driver"

definition dma_complete_work_noremap_multi :: "addr \<Rightarrow> unit kern" where
  "dma_complete_work_noremap_multi = dma_complete_work_noremap_by multi_driver"

text \<open>Migrations flushed at once use one channel, as in \<^verbatim>\<open>migrate-x86.c\<close>.\<close>

lemma multi_flushes:
  "flush_single_qreq_multi = flush_single_qreq" "flush_single_qreq_noremap2_multi = flush_single_qreq_noremap2"
  "do_dma_complete_multi = do_dma_complete" "dma_complete_work_noremap_multi = dma_complete_work_noremap"
proof -
  have v: "v_alloc_table multi_driver = v_alloc_table x86_driver" "v_sg_add multi_driver = v_sg_add x86_driver"
    "v_migrate multi_driver = v_migrate x86_driver" "v_complete_one multi_driver = v_complete_one x86_driver"
    "v_order multi_driver = v_order x86_driver"
    by (simp_all add: multi_driver_def)
  have "complete_marked multi_driver t is = complete_marked x86_driver t is" for t "is"
    by (induction "is") (simp_all add: v cong: if_cong)
  then have d: "flush_desc multi_driver = flush_desc x86_driver" "flush_desc_copy multi_driver = flush_desc_copy x86_driver"
    "complete_marked multi_driver = complete_marked x86_driver"
    by (simp_all add: fun_eq_iff flush_desc_def flush_desc_copy_def flush_copy_page_def v cong: if_cong)
  have f: "flush_single_qreq_by multi_driver = flush_single_qreq_by x86_driver"
    "flush_single_qreq_noremap2_by multi_driver = flush_single_qreq_noremap2_by x86_driver"
    by (simp_all add: fun_eq_iff flush_single_qreq_by_def flush_single_qreq_noremap2_by_def d v cong: if_cong)
  then show "flush_single_qreq_multi = flush_single_qreq" "flush_single_qreq_noremap2_multi = flush_single_qreq_noremap2"
    by (simp_all add: flush_single_qreq_multi_def flush_single_qreq_def flush_single_qreq_noremap2_multi_def flush_single_qreq_noremap2_def)
  show "do_dma_complete_multi = do_dma_complete" "dma_complete_work_noremap_multi = dma_complete_work_noremap"
    by (simp_all add: fun_eq_iff do_dma_complete_multi_def do_dma_complete_def do_dma_complete_by_def
        dma_complete_work_noremap_multi_def dma_complete_work_noremap_def dma_complete_work_noremap_by_def d f v cong: if_cong)
qed

text \<open>The device files: 16 of them, each with a channel.\<close>

definition if_open_multi :: "string \<Rightarrow> addr \<Rightarrow> int kern" where
  "if_open_multi = if_open_by multi_driver"

definition if_write_multi :: "nat \<Rightarrow> addr \<Rightarrow> addr \<Rightarrow> nat \<Rightarrow> int kern" where
  "if_write_multi = if_write_by multi_driver"

definition migks2_module_init_multi :: "int kern" where
  "migks2_module_init_multi = migks2_module_init_by multi_driver"

definition migks2_module_exit_multi :: "unit kern" where
  "migks2_module_exit_multi = migks2_module_exit_by multi_driver"

section \<open>The callback\<close>

text \<open>
  \<^verbatim>\<open>cmplet_time[test_flag++] = ktime_get()\<close>, an array of 16 elements; then only the call that brings
  the counter to zero does the work.
\<close>

definition dma_callback_kthread_multi :: "addr \<Rightarrow> unit kern" where
  "dma_callback_kthread_multi t = (bindK (call ''ktime_get'' []) (\<lambda>now.
    bindK (getK test_flag) (\<lambda>k.
    seqK (whenK (NR_CHANS \<le> k) (failK Bad_access)) (
    seqK (modK (\<lambda>s. s\<lparr>cmplet_time := (cmplet_time s)[k := now], test_flag := Suc k\<rparr>)) (
    seqK (modK (\<lambda>s. s\<lparr>my_counter := my_counter s - 1\<rparr>)) (
    bindK (getK my_counter) (\<lambda>c.
    whenK (c = 0) (dma_callback_kthread t))))))))"

section \<open>Where the parts begin\<close>

definition cursor :: "nat \<Rightarrow> nat \<Rightarrow> nat option \<times> nat option" where
  "cursor count k = (let m = (if k < count then Some k else None) in (m, m))"

lemma sg_advance_runs:
  assumes "a + length js \<le> count"
  shows "foldK (sg_advance count) (cursor count a) js s = Inr (cursor count (a + length js), s)"
  using assms
proof (induction js arbitrary: a)
  case (Cons j js)
  then have "sg_advance count (cursor count a) j s = Inr (cursor count (Suc a), s)"
    by (simp add: sg_advance_def cursor_def sg_next_def Let_def)
  then show ?case using Cons by simp
qed simp

lemma chan_starts_runs:
  assumes "0 < count"
  defines "each \<equiv> count div NR_CHANS"
  shows "chan_starts count each s = Inr (map (\<lambda>i. (Some (i * each), Some (i * each))) [0..<NR_CHANS], s)"
proof -
  let ?body = "\<lambda>(l, m) i. bindK (foldK (sg_advance count) m [0..<each]) (\<lambda>m1. ret (l @ [m], m1))"
  let ?pre = "\<lambda>n. map (\<lambda>i. cursor count (i * each)) [0..<n]"
  have b: "NR_CHANS * each \<le> count" unfolding each_def by simp
  have fold: "foldK ?body (?pre a, cursor count (a * each)) [a..<a + n] s
      = Inr ((?pre (a + n), cursor count ((a + n) * each)), s)" if "(a + n) * each \<le> count" for a n
    using that
  proof (induction n arbitrary: a)
    case (Suc n)
    have le: "a * each + length [0..<each] \<le> count"
      using Suc.prems by (simp add: add_mult_distrib)
    have up: "[a..<a + Suc n] = a # [Suc a..<Suc a + n]" by (simp add: upt_conv_Cons)
    have step: "?body (?pre a, cursor count (a * each)) a s = Inr ((?pre (Suc a), cursor count (Suc a * each)), s)"
      using sg_advance_runs [OF le, of s] by (simp add: add.commute bindK_run)
    have "(Suc a + n) * each \<le> count" using Suc.prems by simp
    from Suc.IH [OF this] show ?case
      unfolding up foldK.simps bindK_Inr [where m = "?body (?pre a, cursor count (a * each)) a", OF step]
      by (simp only: add_Suc_right add_Suc)
  qed simp
  have in_range: "i * each < count" if "i < NR_CHANS" for i
  proof (cases "each = 0")
    case False
    then have "i * each < NR_CHANS * each" using that by simp
    then show ?thesis using b by linarith
  qed (use assms(1) in simp)
  have "foldK ?body ([], (Some 0, Some 0)) [0..<NR_CHANS] s = Inr ((?pre NR_CHANS, cursor count (NR_CHANS * each)), s)"
    using fold [of 0 NR_CHANS] b assms(1) by (simp add: cursor_def Let_def)
  moreover have "?pre NR_CHANS = map (\<lambda>i. (Some (i * each), Some (i * each))) [0..<NR_CHANS]"
    using in_range by (simp add: cursor_def Let_def)
  ultimately show ?thesis by (simp add: chan_starts_def)
qed

text \<open>The parts of a list: together they are its longest prefix of 16 equal parts.\<close>

definition chan_part :: "nat \<Rightarrow> sg_ent list \<Rightarrow> nat \<Rightarrow> sg_ent list" where
  "chan_part each es i = take each (drop (i * each) es)"

lemma concat_parts: "concat (map (chan_part n es) [0..<k]) = take (k * n) es"
proof (induction k)
  case (Suc k)
  have "take (Suc k * n) es = take (k * n) es @ take n (drop (k * n) es)"
    using take_add [of "k * n" n es] by (simp add: add.commute)
  then show ?case using Suc by (simp add: chan_part_def)
qed simp

lemma parts_cover:
  assumes "NR_CHANS dvd length es"
  shows "concat (map (chan_part (length es div NR_CHANS) es) [0..<NR_CHANS]) = es"
  using assms by (simp add: concat_parts)

lemma length_chan_part:
  assumes "i < NR_CHANS"
  shows "length (chan_part (length es div NR_CHANS) es i) = length es div NR_CHANS"
proof -
  let ?n = "length es div NR_CHANS"
  have "Suc i * ?n \<le> NR_CHANS * ?n" using assms by (intro mult_le_mono1) simp
  also have "\<dots> \<le> length es" by (rule times_div_less_eq_dividend)
  finally show ?thesis by (simp add: chan_part_def)
qed

lemma chans_divide: "4 \<le> k \<Longrightarrow> NR_CHANS dvd 2 ^ k"
  unfolding NR_CHANS_def using le_imp_power_dvd [of 4 k "2 :: nat"] by simp

lemma chans_small: "k < 4 \<Longrightarrow> 2 ^ k div NR_CHANS = 0"
proof -
  assume "k < 4"
  then have "(2 :: nat) ^ k < 2 ^ 4" by (intro power_strict_increasing) simp_all
  then show ?thesis by (simp add: NR_CHANS_def)
qed

section \<open>What is transferred\<close>

text \<open>The transfers that the engine was asked for, and the tables it is to call back with.\<close>

definition transfers :: "kevent list \<Rightarrow> int list list" where
  "transfers h = map (fst \<circ> snd) (filter (\<lambda>e. fst e = ''device_prep_dma_sg'') h)"

definition callbacks :: "kevent list \<Rightarrow> addr list" where
  "callbacks h = map (\<lambda>e. fst (snd e) ! 1) (filter (\<lambda>e. fst e = ''tx->callback = dma_callback_kthread'') h)"

lemma engine_nil [simp]: "transfers [] = []" "callbacks [] = []"
  by (simp_all add: transfers_def callbacks_def)

text \<open>What starting the channels leaves alone.\<close>

definition chan_view :: "kst \<Rightarrow> ((addr \<Rightarrow> mig_table) \<times> (32 word) \<times> nat) \<times> ((addr \<Rightarrow> mig_region) \<times> (addr \<Rightarrow> uact list list)
    \<times> (addr \<Rightarrow> words2 list) \<times> (addr \<Rightarrow> words2 list) \<times> nat) \<times> ((addr \<Rightarrow> mig_table \<Rightarrow> mig_table)
    \<times> (kevent list \<Rightarrow> string \<Rightarrow> int list \<Rightarrow> int) \<times> (int \<Rightarrow> addr) \<times> (addr \<Rightarrow> mmap_info))" where
  "chan_view s = ((tables s, my_counter s, test_flag s), qview s, wview s)"

definition chans_ready :: "kst \<Rightarrow> bool" where
  "chans_ready s \<longleftrightarrow> (\<forall>i<NR_CHANS. chans s (int i) \<noteq> 0)"

definition chan_args :: "kst \<Rightarrow> bool \<Rightarrow> nat \<Rightarrow> sg_ent list \<Rightarrow> sg_ent list \<Rightarrow> nat \<Rightarrow> int list" where
  "chan_args s do_irq each src dst i = chans s (int i) # int each # int each # of_bool do_irq
     # sg_args (chan_part each dst i) @ sg_args (chan_part each src i)"

text \<open>
  Starting the channels \<open>is\<close>: all are started, and the engine has accepted the transfer of each; or it has refused
  one, and that is a \<^verbatim>\<open>BUG\<close>.
\<close>

definition asked :: "kst \<Rightarrow> bool \<Rightarrow> nat \<Rightarrow> sg_ent list \<Rightarrow> sg_ent list \<Rightarrow> nat \<Rightarrow> (int \<Rightarrow> bool) \<Rightarrow> bool" where
  "asked s irq each src dst i P \<longleftrightarrow> (\<exists>h. P (answer s h ''device_prep_dma_sg'' (chan_args s irq each src dst i)))"

definition started ::
  "kst \<Rightarrow> addr \<Rightarrow> bool \<Rightarrow> nat \<Rightarrow> sg_ent list \<Rightarrow> sg_ent list \<Rightarrow> nat list \<Rightarrow> fault + unit \<times> kst \<Rightarrow> bool" where
  "started s t irq each src dst is res = (case res of
     Inl e \<Rightarrow> e = Bug \<and> (\<exists>i\<in>set is. asked s irq each src dst i (\<lambda>tx. tx = 0))
   | Inr (_, s1) \<Rightarrow> chan_view s1 = chan_view s
       \<and> transfers (hist s1) = transfers (hist s) @ map (chan_args s irq each src dst) is
       \<and> callbacks (hist s1) = callbacks (hist s) @ (if irq then replicate (length is) t else [])
       \<and> (\<forall>i\<in>set is. asked s irq each src dst i (\<lambda>tx. tx \<noteq> 0)))"

lemma submit_chan_started:
  assumes c: "chans s (int i) \<noteq> 0" and st: "starts ! i = (Some (i * each), Some (i * each))"
  shows "started s t irq each src dst [i] (submit_chan t irq each src dst starts i s)"
proof -
  let ?tx = "answer s (hist s) ''device_prep_dma_sg'' (chan_args s irq each src dst i)"
  have "asked s irq each src dst i P" if "P ?tx" for P using that unfolding asked_def by blast
  then show ?thesis
    using c st
    by (cases irq; cases "?tx = 0")
      (simp_all add: started_def submit_chan_def bindK_run seqK_run call_runs whenK_def sg_part_def chan_part_def chan_args_def
        chan_view_def qview_def wview_def transfers_def callbacks_def)
qed

lemma chan_view_args:
  assumes "chan_view s1 = chan_view s"
  shows "chans s1 = chans s" "answer s1 = answer s" "chan_args s1 irq each src dst = chan_args s irq each src dst"
    "asked s1 irq each src dst = asked s irq each src dst"
  using assms by (simp_all add: chan_view_def wview_def chan_args_def asked_def fun_eq_iff)

lemma submit_chans_started:
  assumes "\<forall>i\<in>set is. chans s (int i) \<noteq> 0 \<and> starts ! i = (Some (i * each), Some (i * each))"
  shows "started s t irq each src dst is (forK is (submit_chan t irq each src dst starts) s)"
  using assms
proof (induction "is" arbitrary: s)
  case (Cons i "is")
  have 1: "started s t irq each src dst [i] (submit_chan t irq each src dst starts i s)"
    using Cons.prems by (intro submit_chan_started) simp_all
  show ?case
  proof (cases "submit_chan t irq each src dst starts i s")
    case (Inl e)
    then show ?thesis using 1 by (simp add: started_def seqK_run)
  next
    case (Inr x)
    then obtain s1 where s1: "submit_chan t irq each src dst starts i s = Inr ((), s1)" by (cases x) auto
    have v: "chan_view s1 = chan_view s" using 1 by (simp add: started_def s1)
    note V = chan_view_args [OF v]
    have "started s1 t irq each src dst is (forK is (submit_chan t irq each src dst starts) s1)"
      using Cons.IH [of s1] Cons.prems V(1) by simp
    then show ?thesis
      using 1 s1 v V by (auto simp: started_def seqK_run split: sum.splits)
  qed
qed (simp add: started_def)

lemma submit_chans_run:
  assumes "\<forall>i\<in>set is. chans s (int i) \<noteq> 0 \<and> starts ! i = (Some (i * each), Some (i * each))"
    and "\<forall>i\<in>set is. \<not> asked s irq each src dst i (\<lambda>tx. tx = 0)"
  shows "\<exists>s1. forK is (submit_chan t irq each src dst starts) s = Inr ((), s1) \<and> chan_view s1 = chan_view s
    \<and> transfers (hist s1) = transfers (hist s) @ map (chan_args s irq each src dst) is
    \<and> callbacks (hist s1) = callbacks (hist s) @ (if irq then replicate (length is) t else [])"
  using submit_chans_started [OF assms(1), of t irq src dst] assms(2)
  by (auto simp: started_def split: sum.splits)

text \<open>What a submission does before it starts the channels.\<close>

definition prepared :: "kst \<Rightarrow> issue_func \<Rightarrow> addr \<Rightarrow> addr \<Rightarrow> desc_p \<Rightarrow> addr \<Rightarrow> nat \<Rightarrow> kst \<Rightarrow> bool" where
  "prepared s fn t r d mm count s0 \<longleftrightarrow> issue_one_desc_func (tables s0 t) = fn \<and> num_pages (tables s0 t) = int count
    \<and> migdesc (tables s0 t) = Some d \<and> t_region (tables s0 t) = r \<and> t_mm (tables s0 t) = mm
    \<and> (\<forall>x. x \<noteq> t \<longrightarrow> tables s0 x = tables s x) \<and> qview s0 = qview s \<and> wview s0 = wview s
    \<and> my_counter s0 = 16 \<and> test_flag s0 = 0"

definition equal_starts :: "nat \<Rightarrow> (nat option \<times> nat option) list" where
  "equal_starts each = map (\<lambda>i. (Some (i * each), Some (i * each))) [0..<NR_CHANS]"

lemma equal_starts [simp]: "i < NR_CHANS \<Longrightarrow> equal_starts each ! i = (Some (i * each), Some (i * each))"
  by (simp add: equal_starts_def)

lemma submit_sg_multi_prepares:
  assumes ne: "src \<noteq> []" "dst \<noteq> []" and n: "0 < count" "count < max_nr_sg s"
  shows "\<exists>s0. submit_sg_multi fn t r d irq mm count sa da (src, dst) s
      = forK [0..<NR_CHANS] (submit_chan t irq (count div NR_CHANS) src dst (equal_starts (count div NR_CHANS))) s0
    \<and> prepared s fn t r d mm count s0 \<and> transfers (hist s0) = transfers (hist s) \<and> callbacks (hist s0) = callbacks (hist s)"
proof -
  obtain s0 where "submit_sg_multi fn t r d irq mm count sa da (src, dst) s
      = forK [0..<NR_CHANS] (submit_chan t irq (count div NR_CHANS) src dst (equal_starts (count div NR_CHANS))) s0"
    "prepared s fn t r d mm count s0" "transfers (hist s0) = transfers (hist s)" "callbacks (hist s0) = callbacks (hist s)"
    using ne n chan_starts_runs [OF n(1)]
    by (simp add: submit_sg_multi_def seqK_run bindK_run call_runs upd_table_def upd_pg_def Let_def equal_starts_def
        prepared_def qview_def wview_def transfers_def callbacks_def NR_CHANS_def del: upt_Suc)
  then show ?thesis by blast
qed

lemma prepared_args:
  assumes "prepared s fn t r d mm count s0"
  shows "chans s0 = chans s" "answer s0 = answer s" "chan_args s0 irq each src dst = chan_args s irq each src dst"
    "asked s0 irq each src dst = asked s irq each src dst"
  using assms by (simp_all add: prepared_def wview_def chan_args_def asked_def fun_eq_iff)

lemma prepared_chan_view: "chan_view s1 = chan_view s0 \<Longrightarrow> prepared s fn t r d mm count s1 = prepared s fn t r d mm count s0"
  by (simp add: prepared_def chan_view_def)

lemma submit_sg_multi_started:
  assumes c: "chans_ready s" and ne: "src \<noteq> []" "dst \<noteq> []" and n: "0 < count" "count < max_nr_sg s"
  shows "case submit_sg_multi fn t r d irq mm count sa da (src, dst) s of
      Inl e \<Rightarrow> e = Bug \<and> (\<exists>i<NR_CHANS. asked s irq (count div NR_CHANS) src dst i (\<lambda>tx. tx = 0))
    | Inr (_, s1) \<Rightarrow> prepared s fn t r d mm count s1
        \<and> transfers (hist s1) = transfers (hist s) @ map (chan_args s irq (count div NR_CHANS) src dst) [0..<NR_CHANS]
        \<and> callbacks (hist s1) = callbacks (hist s) @ (if irq then replicate NR_CHANS t else [])
        \<and> (\<forall>i<NR_CHANS. asked s irq (count div NR_CHANS) src dst i (\<lambda>tx. tx \<noteq> 0))"
proof -
  obtain s0 where s0: "submit_sg_multi fn t r d irq mm count sa da (src, dst) s
      = forK [0..<NR_CHANS] (submit_chan t irq (count div NR_CHANS) src dst (equal_starts (count div NR_CHANS))) s0"
    "prepared s fn t r d mm count s0" "transfers (hist s0) = transfers (hist s)" "callbacks (hist s0) = callbacks (hist s)"
    using submit_sg_multi_prepares [OF ne n] by blast
  note P = prepared_args [OF s0(2)]
  have "started s0 t irq (count div NR_CHANS) src dst [0..<NR_CHANS] (submit_sg_multi fn t r d irq mm count sa da (src, dst) s)"
    unfolding s0(1) using c P(1) by (intro submit_chans_started) (simp add: chans_ready_def)
  moreover have "prepared s fn t r d mm count s1" if "chan_view s1 = chan_view s0" for s1
    using prepared_chan_view [OF that] s0(2) by simp
  moreover have n: "length [0..<NR_CHANS] = NR_CHANS" by simp
  ultimately show ?thesis
    unfolding started_def P(3,4) s0(3,4) n
    by (cases "submit_sg_multi fn t r d irq mm count sa da (src, dst) s") (simp_all add: Bex_def Ball_def split: prod.splits split del: if_split)
qed

text \<open>A channel that is not there is followed as if it were, when those before it are started.\<close>

lemma submit_chans_missing:
  assumes c: "k < NR_CHANS" "chans s (int k) = 0" and st: "\<And>i. i < NR_CHANS \<Longrightarrow> starts ! i = (Some (i * each), Some (i * each))"
    and e: "\<forall>i<k. chans s (int i) \<noteq> 0 \<and> \<not> asked s irq each src dst i (\<lambda>tx. tx = 0)"
  shows "forK [0..<NR_CHANS] (submit_chan t irq each src dst starts) s = Inl Bad_access"
proof -
  obtain s1 where s1: "forK [0..<k] (submit_chan t irq each src dst starts) s = Inr ((), s1)" "chan_view s1 = chan_view s"
    using submit_chans_run [of "[0..<k]" s starts each irq src dst t] e st c(1) by auto
  have "chans s1 (int k) = 0" using chan_view_args(1) [OF s1(2)] c(2) by simp
  then have "submit_chan t irq each src dst starts k s1 = Inl Bad_access"
    by (simp add: submit_chan_def bindK_run seqK_run whenK_def)
  moreover have "[0..<NR_CHANS] = [0..<k] @ k # [Suc k..<NR_CHANS]"
    using c(1) upt_add_eq_append [of 0 k "NR_CHANS - k"] by (simp add: upt_conv_Cons)
  ultimately show ?thesis using s1(1) by (simp add: forK_append)
qed

lemma submit_sg_multi_missing:
  assumes c: "k < NR_CHANS" "chans s (int k) = 0" and ne: "src \<noteq> []" "dst \<noteq> []" and n: "0 < count" "count < max_nr_sg s"
    and e: "\<forall>i<k. chans s (int i) \<noteq> 0 \<and> \<not> asked s irq (count div NR_CHANS) src dst i (\<lambda>tx. tx = 0)"
  shows "submit_sg_multi fn t r d irq mm count sa da (src, dst) s = Inl Bad_access"
proof -
  obtain s0 where s0: "submit_sg_multi fn t r d irq mm count sa da (src, dst) s
      = forK [0..<NR_CHANS] (submit_chan t irq (count div NR_CHANS) src dst (equal_starts (count div NR_CHANS))) s0"
    "prepared s fn t r d mm count s0"
    using submit_sg_multi_prepares [OF ne n] by blast
  note P = prepared_args [OF s0(2)]
  show ?thesis
    unfolding s0(1) using c e P by (intro submit_chans_missing [where k = k]) simp_all
qed

text \<open>Collecting the pages asks the engine for nothing.\<close>

definition engine_view :: "kst \<Rightarrow> int list list \<times> addr list" where
  "engine_view s = (transfers (hist s), callbacks (hist s))"

lemma keeps_engine_call [simp]:
  assumes "f \<noteq> ''device_prep_dma_sg''" and "f \<noteq> ''tx->callback = dma_callback_kthread''"
  shows "keeps engine_view (call f xs)" "keeps engine_view (callb f xs)" "keeps engine_view (exec f xs)"
  using assms by (simp_all add: keeps_def engine_view_def transfers_def callbacks_def call_runs)

lemma keeps_engine_collect [simp]: "keeps engine_view (collect_copy r d mm)"
proof -
  have "keeps engine_view alloc_table" "keeps engine_view (alloc_sg n)" "keeps engine_view (check_vma v a)"
    "keeps engine_view (follow_range h '' FOLL_SPLIT'' v a n)" "keeps engine_view (issue_copy_page h n xs ys sgl j)"
    for n v a h xs ys sgl j
    by (cases sgl; simp add: alloc_table_def alloc_sg_def check_vma_def follow_range_def call_array_def
        issue_copy_page_def sg_add_def Let_def)+
  then show ?thesis by (simp add: collect_copy_def)
qed

text \<open>The replication of \<open>D\<close> as the engine sees it.\<close>

definition copy_src :: "(bool \<Rightarrow> int \<Rightarrow> addr) \<Rightarrow> (addr \<Rightarrow> int) \<Rightarrow> mig_desc \<Rightarrow> sg_ent list" where
  "copy_src pt phys D = range_sg pt phys True (huge_page D \<noteq> 0) (uint (base_to_virt (virt_base D))) (page_count_of D)"

definition copy_dst :: "(bool \<Rightarrow> int \<Rightarrow> addr) \<Rightarrow> (addr \<Rightarrow> int) \<Rightarrow> mig_desc \<Rightarrow> sg_ent list" where
  "copy_dst pt phys D = range_sg pt phys False (huge_page D \<noteq> 0) (uint (base_to_virt (virt_base_dest D))) (page_count_of D)"

lemma copy_lists_length [simp]:
  "length (copy_src pt phys D) = page_count_of D" "length (copy_dst pt phys D) = page_count_of D"
  by (simp_all add: copy_src_def copy_dst_def range_sg_def)

lemma collect_copy_runs:
  fixes r :: addr and p :: desc_p
  assumes A: "answer s = A" and K: "kernel_collects A pt phys" and N: "128 < max_nr_sg s"
  defines "D \<equiv> desc_at (regs s r) p"
  obtains t sa da s0 where "collect_copy r p mm s
      = Inr ((t, page_count_of D, sa, da, (copy_src pt phys D, copy_dst pt phys D)), s0)"
    "qview s0 = qview s" "wview s0 = wview s" "engine_view s0 = engine_view s"
    "\<And>old. issue_one_desc_func (tables s old) = Issue_copy \<Longrightarrow> issue_one_desc_func (tables s0 old) = Issue_copy"
    "copy_src pt phys D \<noteq> []" "copy_dst pt phys D \<noteq> []" "page_count_of D < max_nr_sg s0"
proof -
  have n: "page_count_of (desc_at (regs s r) p) < max_nr_sg s"
    using N page_count_of_bounds(2) [of "desc_at (regs s r) p"] by simp
  have e: "env_is A (regs s) (max_nr_sg s) s" using A by (simp add: env_is_def)
  obtain t sa da s0 where s0: "collect_copy r p mm s
      = Inr ((t, page_count_of D, sa, da, (copy_src pt phys D, copy_dst pt phys D)), s0)"
    by (rule succeedsD [OF succeeds_collect_copy [where R = "regs s" and mm = mm, OF K n] e])
      (auto simp: D_def copy_src_def copy_dst_def)
  have k: "qview s0 = qview s" "wview s0 = wview s" "engine_view s0 = engine_view s"
    using keepsD [OF keeps_qview_collect(1) s0] keepsD [OF keeps_wview_collect s0] keepsD [OF keeps_engine_collect s0]
    by simp_all
  have cc: "issue_one_desc_func (tables s0 old) = Issue_copy" if "issue_one_desc_func (tables s old) = Issue_copy" for old
  proof -
    have "preserves (calls_copy old) (collect_copy r p mm)" by simp
    then show ?thesis using that s0 unfolding preserves_def by blast
  qed
  have ne: "copy_src pt phys D \<noteq> []" "copy_dst pt phys D \<noteq> []"
    using page_count_of_bounds(1) [of D] copy_lists_length [of pt phys D] by (metis list.size(3) nat_neq_iff)+
  have "max_nr_sg s0 = max_nr_sg s" using k by (simp add: wview_def qview_def)
  then have "page_count_of D < max_nr_sg s0" using n by (simp add: D_def)
  then show thesis using that s0 k cc ne by blast
qed

text \<open>
  The replication of 16 channels that are there: all transfers are accepted, and it returns; or one is refused,
  and that is a \<^verbatim>\<open>BUG\<close>.
\<close>

lemma issue_copy_multi_cases:
  fixes r :: addr and p :: desc_p
  assumes A: "answer s = A" and K: "kernel_collects A pt phys" and N: "128 < max_nr_sg s" and c: "chans_ready s"
  defines "D \<equiv> desc_at (regs s r) p"
  defines "n \<equiv> page_count_of D div NR_CHANS" and "src \<equiv> copy_src pt phys D" and "dst \<equiv> copy_dst pt phys D"
  shows "case issue_one_desc_copy_multi r p irq mm s of
      Inl e \<Rightarrow> e = Bug \<and> (\<exists>i<NR_CHANS. asked s irq n src dst i (\<lambda>tx. tx = 0))
    | Inr (t, s1) \<Rightarrow> issue_one_desc_func (tables s1 t) = Issue_copy
        \<and> num_pages (tables s1 t) = int (page_count_of D)
        \<and> migdesc (tables s1 t) = Some p \<and> t_region (tables s1 t) = r \<and> t_mm (tables s1 t) = mm
        \<and> qview s1 = qview s \<and> wview s1 = wview s
        \<and> (\<forall>old. issue_one_desc_func (tables s old) = Issue_copy \<longrightarrow> issue_one_desc_func (tables s1 old) = Issue_copy)
        \<and> my_counter s1 = 16 \<and> test_flag s1 = 0
        \<and> transfers (hist s1) = transfers (hist s) @ map (chan_args s irq n src dst) [0..<NR_CHANS]
        \<and> callbacks (hist s1) = callbacks (hist s) @ (if irq then replicate NR_CHANS t else [])
        \<and> (\<forall>i<NR_CHANS. asked s irq n src dst i (\<lambda>tx. tx \<noteq> 0))"
proof -
  obtain t sa da s0 where s0: "collect_copy r p mm s = Inr ((t, page_count_of D, sa, da, (src, dst)), s0)"
    and k: "qview s0 = qview s" "wview s0 = wview s" "engine_view s0 = engine_view s"
    and cc: "\<And>old. issue_one_desc_func (tables s old) = Issue_copy \<Longrightarrow> issue_one_desc_func (tables s0 old) = Issue_copy"
    and ne: "src \<noteq> []" "dst \<noteq> []" and n0: "page_count_of D < max_nr_sg s0"
    by (rule collect_copy_runs [OF A K N, of r p mm, folded D_def, folded src_def dst_def]) (rule that)
  have 0: "answer s0 = answer s" "chans s0 = chans s" using k A by (simp_all add: wview_def)
  have c0: "chans_ready s0" using c 0(2) by (simp add: chans_ready_def)
  have args: "chan_args s0 = chan_args s" using 0(2) by (simp add: chan_args_def fun_eq_iff)
  then have asked: "asked s0 = asked s" using 0(1) by (simp add: asked_def fun_eq_iff)
  note S = submit_sg_multi_started [OF c0 ne page_count_of_bounds(1) n0, where fn = Issue_copy and t = t and r = r and d = p and irq = irq and mm = mm and sa = sa and da = da, folded n_def]
  show ?thesis
  proof (cases "submit_sg_multi Issue_copy t r p irq mm (page_count_of D) sa da (src, dst) s0")
    case (Inl e)
    then have "issue_one_desc_copy_multi r p irq mm s = Inl e" using s0 by (simp add: issue_one_desc_copy_multi_def seqK_run)
    then show ?thesis using S unfolding Inl asked by simp
  next
    case (Inr x)
    then obtain s1 where s1: "submit_sg_multi Issue_copy t r p irq mm (page_count_of D) sa da (src, dst) s0 = Inr ((), s1)"
      by (cases x) auto
    note S1 = S [unfolded s1, simplified]
    let ?c = "\<lambda>s f xs. s\<lparr>hist := hist s @ [(f, xs, answer s (hist s) f xs)]\<rparr>"
    let ?s2 = "?c (?c s1 ''kfree'' [da]) ''kfree'' [sa]"
    have "issue_one_desc_copy_multi r p irq mm s = Inr (t, ?s2)"
      using s0 s1 by (simp add: issue_one_desc_copy_multi_def seqK_run exec_run)
    moreover have "issue_one_desc_func (tables s1 old) = Issue_copy" if "issue_one_desc_func (tables s old) = Issue_copy" for old
      using cc [OF that] S1 by (cases "old = t") (simp_all add: prepared_def)
    ultimately show ?thesis
      using S1 k args asked by (simp add: prepared_def engine_view_def qview_def wview_def transfers_def callbacks_def)
  qed
qed

lemma issue_copy_multi_runs:
  fixes r :: addr and p :: desc_p
  assumes A: "answer s = A" and K: "kernel_copies A pt phys" and N: "128 < max_nr_sg s" and c: "chans_ready s"
  defines "D \<equiv> desc_at (regs s r) p"
  shows "\<exists>t s1. issue_one_desc_copy_multi r p irq mm s = Inr (t, s1) \<and> issue_one_desc_func (tables s1 t) = Issue_copy
    \<and> num_pages (tables s1 t) = int (page_count_of D)
    \<and> migdesc (tables s1 t) = Some p \<and> t_region (tables s1 t) = r \<and> t_mm (tables s1 t) = mm
    \<and> qview s1 = qview s \<and> wview s1 = wview s
    \<and> (\<forall>old. issue_one_desc_func (tables s old) = Issue_copy \<longrightarrow> issue_one_desc_func (tables s1 old) = Issue_copy)
    \<and> my_counter s1 = 16 \<and> test_flag s1 = 0
    \<and> transfers (hist s1) = transfers (hist s)
        @ map (chan_args s irq (page_count_of D div NR_CHANS) (copy_src pt phys D) (copy_dst pt phys D)) [0..<NR_CHANS]
    \<and> callbacks (hist s1) = callbacks (hist s) @ (if irq then replicate NR_CHANS t else [])"
proof -
  have "\<not> asked s irq n src dst i (\<lambda>tx. tx = 0)" for n src dst i
    using kernel_copiesD(3) [OF K] A by (simp add: asked_def)
  then show ?thesis
    using issue_copy_multi_cases [OF A kernel_copiesD(1) [OF K] N c, where r = r and p = p and irq = irq and mm = mm] unfolding D_def
    by (cases "issue_one_desc_copy_multi r p irq mm s") (simp_all split: prod.splits split del: if_split)
qed

text \<open>An engine that takes every transfer that is not empty.\<close>

definition takes_transfers :: "(kevent list \<Rightarrow> string \<Rightarrow> int list \<Rightarrow> int) \<Rightarrow> bool" where
  "takes_transfers A \<longleftrightarrow> (\<forall>h chan n xs. 0 < n \<longrightarrow> A h ''device_prep_dma_sg'' (chan # n # xs) \<noteq> 0)"

lemma issue_copy_multi_missing:
  fixes r :: addr and p :: desc_p
  assumes A: "answer s = A" and K: "kernel_collects A pt phys" and E: "takes_transfers A" and N: "128 < max_nr_sg s"
    and c: "k < NR_CHANS" "chans s (int k) = 0" "\<forall>i<k. chans s (int i) \<noteq> 0"
    and o: "4 \<le> unat (order (desc_at (regs s r) p))"
  shows "issue_one_desc_copy_multi r p irq mm s = Inl Bad_access"
proof -
  let ?D = "desc_at (regs s r) p"
  have n: "0 < page_count_of ?D div NR_CHANS"
    using chans_divide [OF o] page_count_of_bounds(1) [of ?D] unfolding page_count_of_def by (auto simp: dvd_def NR_CHANS_def intro!: gr0I)
  obtain t sa da s0 where s0: "collect_copy r p mm s
      = Inr ((t, page_count_of ?D, sa, da, (copy_src pt phys ?D, copy_dst pt phys ?D)), s0)" and k: "wview s0 = wview s"
    and ne: "copy_src pt phys ?D \<noteq> []" "copy_dst pt phys ?D \<noteq> []" and n0: "page_count_of ?D < max_nr_sg s0"
    by (rule collect_copy_runs [OF A K N, of r p mm]) (rule that)
  have 0: "chans s0 = chans s" "answer s0 = A" using k A by (simp_all add: wview_def)
  have "\<not> asked s0 irq (page_count_of ?D div NR_CHANS) src dst i (\<lambda>tx. tx = 0)" for src dst i
    using E n by (simp add: asked_def chan_args_def 0(2) takes_transfers_def)
  then have "submit_sg_multi Issue_copy t r p irq mm (page_count_of ?D) sa da (copy_src pt phys ?D, copy_dst pt phys ?D) s0
      = Inl Bad_access"
    using c ne n0 page_count_of_bounds(1) 0(1) by (intro submit_sg_multi_missing [where k = k]) auto
  then show ?thesis
    using s0 by (simp add: issue_one_desc_copy_multi_def)
qed

section \<open>The callbacks of one submission\<close>

text \<open>\<open>fire_all t\<close>: the 16 channels call back, one after the other.\<close>

definition fire_all :: "addr \<Rightarrow> unit kern" where
  "fire_all t = forK [0..<NR_CHANS] (\<lambda>i. dma_callback_kthread_multi t)"

definition called_back_multi :: "addr \<Rightarrow> kst \<Rightarrow> bool" where
  "called_back_multi t s \<longleftrightarrow> my_counter s = 16 \<and> test_flag s = 0 \<and> (\<exists>ts. callbacks (hist s) = ts @ replicate NR_CHANS t)"

lemma callback_counts:
  assumes "my_counter s = of_nat (Suc (Suc m))" and "m < 15" and "test_flag s < NR_CHANS"
  shows "\<exists>s1. dma_callback_kthread_multi t s = Inr ((), s1) \<and> my_counter s1 = of_nat (Suc m)
    \<and> test_flag s1 = Suc (test_flag s) \<and> device_view s1 = device_view s"
proof -
  have ne: "(of_nat (Suc m) :: 32 word) \<noteq> 0"
    using assms(2) by (subst word_of_nat_eq_0_iff) (auto dest: dvd_imp_le)
  have "(of_nat (Suc (Suc m)) :: 32 word) - 1 = of_nat (Suc m)" by simp
  then show ?thesis
    using assms(1,3) ne
    by (simp add: dma_callback_kthread_multi_def bindK_run seqK_run call_runs whenK_def device_view_def qview_def wview_def
        del: of_nat_Suc)
qed

lemma callbacks_count:
  assumes "my_counter s = of_nat (Suc (length ts))" and "length ts \<le> 15" and "test_flag s + length ts \<le> NR_CHANS"
  shows "\<exists>s1. forK ts dma_callback_kthread_multi s = Inr ((), s1) \<and> my_counter s1 = 1
    \<and> test_flag s1 = test_flag s + length ts \<and> device_view s1 = device_view s"
  using assms
proof (induction ts arbitrary: s)
  case (Cons t ts)
  obtain s1 where 1: "dma_callback_kthread_multi t s = Inr ((), s1)" "my_counter s1 = of_nat (Suc (length ts))"
    "test_flag s1 = Suc (test_flag s)" "device_view s1 = device_view s"
    using callback_counts [of s "length ts" t] Cons.prems by auto
  obtain s2 where "forK ts dma_callback_kthread_multi s1 = Inr ((), s2)" "my_counter s2 = 1"
    "test_flag s2 = test_flag s1 + length ts" "device_view s2 = device_view s1"
    using Cons.IH [OF 1(2)] 1(3) Cons.prems by auto
  then show ?case using 1 by simp
qed simp

lemma last_callback:
  assumes "my_counter s = 1" and "test_flag s < NR_CHANS"
  shows "\<exists>s1. dma_callback_kthread_multi t s = dma_callback_kthread t s1 \<and> device_view s1 = device_view s
    \<and> test_flag s1 = Suc (test_flag s)"
proof -
  let ?now = "answer s (hist s) ''ktime_get'' []"
  let ?s1 = "s\<lparr>hist := hist s @ [(''ktime_get'', [], ?now)], cmplet_time := (cmplet_time s)[test_flag s := ?now],
    test_flag := Suc (test_flag s), my_counter := 0\<rparr>"
  have "dma_callback_kthread_multi t s = dma_callback_kthread t ?s1"
    using assms by (simp add: dma_callback_kthread_multi_def bindK_run seqK_run call_runs whenK_def)
  then show ?thesis by (intro exI [of _ ?s1]) (simp add: device_view_def qview_def wview_def)
qed

lemma sixteen_callbacks:
  assumes "my_counter s = 16" and "test_flag s = 0" and "length ts = 15"
  shows "\<exists>s1. forK (ts @ [t]) dma_callback_kthread_multi s = dma_callback_kthread t s1
    \<and> device_view s1 = device_view s \<and> test_flag s1 = 16"
proof -
  obtain s0 where s0: "forK ts dma_callback_kthread_multi s = Inr ((), s0)" "my_counter s0 = 1"
    "test_flag s0 = 15" "device_view s0 = device_view s"
    using callbacks_count [of s ts] assms by (auto simp: NR_CHANS_def)
  obtain s1 where "dma_callback_kthread_multi t s0 = dma_callback_kthread t s1" "device_view s1 = device_view s0"
    "test_flag s1 = 16"
    using last_callback [of s0 t] s0(2,3) by (auto simp: NR_CHANS_def)
  then show ?thesis using s0 by (auto simp: forK_append)
qed

lemma forK_const: "forK xs (\<lambda>_. f t) = forK (replicate (length xs) t) f"
  by (induction xs) simp_all

text \<open>The completion of a replication leaves the index of the times where it is.\<close>

lemma keeps_test_flag_enqueue [simp]: "keeps test_flag (k_enqueue r q d)"
  by (auto simp: k_enqueue_def interfere_def lib_op_def keeps_def seqK_eq_Inr split: prod.splits sum.splits)

lemma keeps_test_flag_call [simp]: "keeps test_flag (exec f xs)"
  by (simp add: keeps_def exec_run)

lemma callback_copy_test_flag:
  assumes "dma_callback_kthread t s = Inr ((), s1)" and "issue_one_desc_func (tables s t) = Issue_copy"
  shows "test_flag s1 = test_flag s"
proof -
  define tail where "tail r md = bindK (k_enqueue r Qcomp (the md)) (\<lambda>c. seqK (exec ''wake_up_interruptible'' [region_to_mmap_info r])
    (seqK (exec ''INIT_WORK kernel_flush_work'' [t]) (bindK (get_table t user_cpu) (\<lambda>cpu. exec ''schedule_work_on'' [cpu, t]))))" for r md
  have k: "keeps test_flag (tail r md)" for r md by (simp add: tail_def)
  have "tail (t_region (tables s t)) (migdesc (tables s t)) s = Inr ((), s1)"
    using assms
    by (simp add: dma_callback_kthread_def dma_callback_kthread_by_def get_table_def complete_pages_def whenK_def bindK_run seqK_run tail_def split: if_splits)
  from keepsD [OF k this] show ?thesis .
qed

lemma seventeenth_callback: "test_flag s = 16 \<Longrightarrow> dma_callback_kthread_multi t s = Inl Bad_access"
  by (simp add: dma_callback_kthread_multi_def bindK_run seqK_run call_runs whenK_def NR_CHANS_def)

section \<open>Loading the module\<close>

text \<open>\<^verbatim>\<open>strncmp\<close> of 7 characters tells the 16 names apart.\<close>

lemma length_fnames16 [simp]: "length debug_fnames16 = NR_CHANS"
  by (simp add: debug_fnames16_def NR_CHANS_def)

lemma find_device16:
  assumes "i < NR_CHANS"
  shows "find_device (debug_fnames16 ! i) 0 debug_fnames16 = Some (int i)"
proof -
  have "map (\<lambda>n. find_device n 0 debug_fnames16) debug_fnames16 = map (\<lambda>i. Some (int i)) [0..<16]"
    by (simp add: debug_fnames16_def strn_eq_def upt_rec)
  then have "map (\<lambda>n. find_device n 0 debug_fnames16) debug_fnames16 ! i = map (\<lambda>i. Some (int i)) [0..<16] ! i" by simp
  then show ?thesis using assms by (simp add: NR_CHANS_def)
qed

lemma load_multi_ready:
  assumes "\<And>h xs. answer s h ''debugfs_create_file'' xs \<noteq> 0" and "\<And>h xs. answer s h ''dma_request_channel DMA_MEMCPY'' xs \<noteq> 0"
  shows "\<exists>s1. migks2_module_init_multi s = Inr (0, s1) \<and> chans_ready s1 \<and> answer s1 = answer s"
  using module_init_ok [of s multi_driver "''dma_request_channel DMA_MEMCPY''" "[]" "\<lambda>c. c \<noteq> 0"] assms
  by (auto simp: migks2_module_init_multi_def chans_ready_def init_dma_chan_def)

section \<open>The interfaces\<close>

interpretation multi: session multi_driver can_copy chans_ready called_back_multi fire_all
proof
  fix s A r p irq mm
  assume a: "answer s = A" "can_copy A" "128 < max_nr_sg s" "chans_ready s"
  then obtain pt phys where K: "kernel_copies A pt phys" by (auto simp: can_copy_def)
  show "\<exists>t s1. v_issue multi_driver Issue_copy r p irq mm s = Inr (t, s1) \<and> issue_one_desc_func (tables s1 t) = Issue_copy
    \<and> migdesc (tables s1 t) = Some p \<and> t_region (tables s1 t) = r \<and> t_mm (tables s1 t) = mm
    \<and> qview s1 = qview s \<and> wview s1 = wview s
    \<and> (\<forall>old. issue_one_desc_func (tables s old) = Issue_copy \<longrightarrow> issue_one_desc_func (tables s1 old) = Issue_copy)
    \<and> (irq \<longrightarrow> called_back_multi t s1)"
    using issue_copy_multi_runs [OF a(1) K a(3,4), of r p irq mm] by (auto simp: issue_one_desc_multi_def called_back_multi_def)
next
  fix t s assume "called_back_multi t s"
  then show "\<exists>s1. fire_all t s = dma_callback_kthread_by multi_driver t s1 \<and> device_view s1 = device_view s"
    using sixteen_callbacks [of s "replicate 15 t" t] forK_const [of "[0..<NR_CHANS]" dma_callback_kthread_multi t]
    by (auto simp: called_back_multi_def fire_all_def NR_CHANS_def numeral_eq_Suc)
qed (simp add: chans_ready_def)

end
