(* ===== verification/MultiLoad.thy ===== *)
theory MultiLoad
  imports EndToEnd DrvMulti
begin

text \<open>
  The 16-channel driver (\<^verbatim>\<open>migrate-x86/migrate-x86-multi-chan.c\<close>) on a kernel that has fewer than 16 DMA
  channels to give: loading the module does not look at what it is given, opening a device only at the channel of
  that device, and a replication uses all 16.
\<close>

section \<open>Loading the module\<close>

text \<open>How often a channel has been requested.\<close>

definition requests :: "kevent list \<Rightarrow> nat" where
  "requests h = length (filter (\<lambda>e. fst e = ''dma_request_channel DMA_MEMCPY'') h)"

lemma requests_simps [simp]:
  "requests [] = 0" "requests (h @ h') = requests h + requests h'"
  "requests ((f, xs, y) # h) = of_bool (f = ''dma_request_channel DMA_MEMCPY'') + requests h"
  by (simp_all add: requests_def)

text \<open>A kernel with \<open>k\<close> channels.\<close>

definition gives_channels :: "nat \<Rightarrow> (kevent list \<Rightarrow> string \<Rightarrow> int list \<Rightarrow> int) \<Rightarrow> bool" where
  "gives_channels k A \<longleftrightarrow> (\<forall>h xs. (A h ''dma_request_channel DMA_MEMCPY'' xs \<noteq> 0) = (requests h < k))"

lemma init_device_counts:
  assumes "\<And>h xs. answer s h ''debugfs_create_file'' xs \<noteq> 0" and "gives_channels k (answer s)"
    and v: "v_init_chan v = init_dma_chan"
  shows "\<exists>c s1. init_device v i s = Inr ((), s1) \<and> answer s1 = answer s \<and> filp_priv s1 = filp_priv s
    \<and> requests (hist s1) = Suc (requests (hist s)) \<and> chans s1 = (chans s)(int i := c) \<and> (c \<noteq> 0) = (requests (hist s) < k)"
proof -
  let ?s = "s\<lparr>hist := hist s @ [(''debugfs_create_file'', [int i], answer s (hist s) ''debugfs_create_file'' [int i])]\<rparr>"
  show ?thesis
    using assms(1,2)
    by (intro exI [of _ "answer s (hist ?s) ''dma_request_channel DMA_MEMCPY'' []"] exI)
      (auto simp: init_device_def v init_dma_chan_def bindK_run seqK_run call_run gives_channels_def)
qed

lemma load_counts:
  assumes "\<And>h xs. answer s h ''debugfs_create_file'' xs \<noteq> 0" and "gives_channels k (answer s)"
    and v: "v_init_chan v = init_dma_chan" and "requests (hist s) = m"
  shows "\<exists>s1. forK [m..<m + n] (init_device v) s = Inr ((), s1) \<and> answer s1 = answer s \<and> filp_priv s1 = filp_priv s
    \<and> (\<forall>j<m. chans s1 (int j) = chans s (int j)) \<and> (\<forall>j\<in>{m..<m + n}. (chans s1 (int j) \<noteq> 0) = (j < k))"
  using assms(1,2,4)
proof (induction n arbitrary: s m)
  case (Suc n)
  obtain s1 c where s1: "init_device v m s = Inr ((), s1)" "answer s1 = answer s" "filp_priv s1 = filp_priv s"
    "requests (hist s1) = Suc m" "chans s1 = (chans s)(int m := c)" "(c \<noteq> 0) = (m < k)"
    using init_device_counts [OF Suc.prems(1,2) v, of m] Suc.prems(3) by auto
  obtain s2 where s2: "forK [Suc m..<Suc m + n] (init_device v) s1 = Inr ((), s2)" "answer s2 = answer s1" "filp_priv s2 = filp_priv s1"
    "\<forall>j<Suc m. chans s2 (int j) = chans s1 (int j)" "\<forall>j\<in>{Suc m..<Suc m + n}. (chans s2 (int j) \<noteq> 0) = (j < k)"
    using Suc.IH [of s1 "Suc m"] Suc.prems s1(2,4) by auto
  have up: "[m..<m + Suc n] = m # [Suc m..<Suc m + n]" by (simp add: upt_conv_Cons del: upt_Suc)
  have "forK [m..<m + Suc n] (init_device v) s = Inr ((), s2)" unfolding up using s1(1) s2(1) by simp
  moreover have "(chans s2 (int j) \<noteq> 0) = (j < k)" if "j \<in> {m..<m + Suc n}" for j
  proof (cases "j = m")
    case True
    then show ?thesis using s2(4) s1(5,6) by simp
  next
    case False
    then show ?thesis using that s2(5) by simp
  qed
  ultimately show ?case using s1 s2 by (intro exI [of _ s2]) simp
qed simp

lemma load_some_channels:
  assumes "\<And>h xs. answer s h ''debugfs_create_file'' xs \<noteq> 0" and "gives_channels k (answer s)" and "requests (hist s) = 0"
  shows "\<exists>s1. migks2_module_init_multi s = Inr (0, s1) \<and> answer s1 = answer s \<and> filp_priv s1 = filp_priv s
    \<and> (\<forall>j<NR_CHANS. (chans s1 (int j) \<noteq> 0) = (j < k))"
  using load_counts [OF assms(1,2) _ assms(3), of multi_driver NR_CHANS]
  by (auto simp: migks2_module_init_multi_def migks2_module_init_by_def seqK_run)

section \<open>The first replication\<close>

text \<open>
  The channel of the device that is opened is there.  The first replication of 16 pages or more starts the channels
  that are there, and follows the null pointer of the next.
\<close>

lemma few_channels_replication:
  assumes f: "\<And>h xs. A h ''debugfs_create_file'' xs \<noteq> 0" and g: "gives_channels k A" "requests (hist s) = 0" "k < NR_CHANS"
    and room: "roomy A s" and K: "kernel_collects A pt phys" and E: "takes_transfers A"
    and nm: "find_device nm 0 debug_fnames16 = Some (int i)" "i < k" and filp: "filp_priv s filp = 0"
    and users: "\<And>r. todo s r < 375" and fd: "0 < fd" "files s fd = filp" "filp \<noteq> 0"
    and cmd: "\<And>h. A h ''copy_from_user'' [u, 4] = 0" and o: "4 \<le> unat (ucast ord AND mask 3 :: 64 word)"
  shows "\<exists>s1 s2 r. migks2_module_init_multi s = Inr (0, s1) \<and> (\<forall>j<NR_CHANS. (chans s1 (int j) \<noteq> 0) = (j < k))
    \<and> if_open_multi nm filp s1 = Inr (0, s2) \<and> i_region (infos s2 (filp_priv s2 filp)) = r
    \<and> memif_start_replication region_at set_region (sys_write_by multi_driver n u) fd r src dst ord s2 = Inl Bad_access"
proof -
  have A: "answer s = A" using room by (simp add: roomy_def)
  obtain s1 where s1: "migks2_module_init_multi s = Inr (0, s1)" "answer s1 = A" "filp_priv s1 = filp_priv s"
    "\<forall>j<NR_CHANS. (chans s1 (int j) \<noteq> 0) = (j < k)"
    using load_some_channels [of s k] f g A by auto
  have v: "v_init_chan multi_driver = call ''dma_request_channel DMA_MEMCPY'' []" by (simp add: init_dma_chan_def)
  have o1: "find_device nm 0 (v_names multi_driver) = Some (int i)" "filp_priv s1 filp = 0"
    "answer s1 h ''__get_free_pages'' xs \<noteq> 0" "chans s1 (int i) \<noteq> 0" for h xs
    using nm filp s1(2-4) kernel_collectsD [OF K] g(3) by simp_all
  obtain s2 r where s2: "if_open_multi nm filp s1 = Inr (0, s2)" "chans s2 = chans s1" "r \<noteq> 0"
    "filp_priv s2 filp = region_to_mmap_info r" "i_region (infos s2 (region_to_mmap_info r)) = r"
    "wf_region (regs s2 r) {}" "\<forall>q\<in>set live_qs. contents (regs s2 r) q = []"
    "color_of (regs s2 r) Qreq = COLOR_USR" "nfree (regs s2 r) = 376"
    using if_open_by_ok [OF o1(1-3) v disjI1 [OF o1(4)]] o1(4) unfolding if_open_multi_def by blast
  have b: "boot_view s2 = boot_view s"
    using keepsD [OF keeps_boot_view(1) [OF v] s1(1) [unfolded migks2_module_init_multi_def]]
      keepsD [OF keeps_boot_view(2) [OF v] s2(1) [unfolded if_open_multi_def]] by simp
  then have k: "roomy A s2" "todo s2 r = todo s r" "files s2 = files s"
    using room by (simp_all add: boot_view_def roomy_def todo_def)
  have ok: "dev_ok r {} s2" "Suc (todo s2 r) < nfree (regs s2 r)" "clr s2 r = COLOR_USR" "opened s2 fd u r"
    using s2(4-9) users [of r] k cmd fd by (simp_all add: dev_ok_def clr_def opened_def roomy_def)
  have q: "on_q s2 r Qissued = []" "on_q s2 r Qreq = []" using s2(7) by (simp_all add: on_q_def)
  obtain d w mm s3 where e: "memif_start_replication region_at set_region (sys_write_by multi_driver n u) fd r src dst ord s2
      = bindK (user_flush_by multi_driver r mm (-1) Issue_copy) (\<lambda>_. seqK (exec ''mmput'' [mm]) (ret d)) s3"
    "req_order w = ucast ord AND mask 3" "dev_ok r {} s3" "clr s3 r = COLOR_USR" "on_q s3 r Qreq = [w]" "on_q s3 r Qissued = []"
    "chans s3 = chans s2" "answer s3 = answer s2" "max_nr_sg s3 = max_nr_sg s2"
    using start_replication_enters [OF ok(1,2,3) s2(3) ok(4), of multi_driver n src dst ord] q by auto
  have c: "clr s3 r \<noteq> COLOR_KER" "on_q s3 r Qissued @ on_q s3 r Qreq \<noteq> []"
    using e(4,5) by (simp_all add: COLOR_USR_def COLOR_KER_def)
  obtain p s4 where u: "user_flush_by multi_driver r mm (-1) Issue_copy s3
      = bindK (v_issue multi_driver Issue_copy r p True mm) (\<lambda>_. ret 0) s4"
    "payload (regs s4 r) p = w" "answer s4 = answer s3" "max_nr_sg s4 = max_nr_sg s3" "chans s4 = chans s3"
    using multi.user_flush_runs [OF e(3) c, of mm "-1" Issue_copy] e(5,6) by auto
  have "order (desc_at (regs s4 r) p) = req_order w"
    using u(2) by (auto simp: order_def req_order_def payload_def)
  then have o4: "4 \<le> unat (order (desc_at (regs s4 r) p))" using e(2) o by simp
  have s4: "answer s4 = A" "128 < max_nr_sg s4" "chans s4 = chans s1"
    using u(3-5) e(7-9) k(1) s2(2) by (simp_all add: roomy_def)
  have "chans s1 (int k) = 0" using s1(4) g(3) by blast
  moreover have "\<forall>j<k. chans s1 (int j) \<noteq> 0" using s1(4) g(3) by simp
  ultimately have "issue_one_desc_copy_multi r p True mm s4 = Inl Bad_access"
    by (intro issue_copy_multi_missing [OF s4(1) K E s4(2) g(3) _ _ o4]) (simp_all only: s4(3) simp_thms)
  then have "memif_start_replication region_at set_region (sys_write_by multi_driver n u) fd r src dst ord s2 = Inl Bad_access"
    using e(1) u(1) by (simp add: issue_one_desc_multi_def)
  then show ?thesis using s1(1,4) s2(1,4,5) by metis
qed

end
