(* ===== verification/DrvArmMove.thy ===== *)
theory DrvArmMove
  imports DrvMove
begin

text \<open>
  Moving a page in the ARM original of the driver, \<^verbatim>\<open>migrate-ks2.c\<close>: what it does not share with
  \<^verbatim>\<open>migrate-x86.c\<close> between \<^verbatim>\<open>migrate_page_move_mapping\<close> and \<^verbatim>\<open>dma_complete_one\<close>.  Its
  kernel is older: the identity of a page is not copied with its mapping, and \<^verbatim>\<open>__unmap_and_move_ks2\<close>
  charges the new page to a memory cgroup.  \<^verbatim>\<open>copy_huge_page\<close> is a function of that kernel.

  The lemmas: the balance of the page locks, by the lemmas of the x86 driver, and the balance of the
  charges.  The charge of a pending page is opened but its pointer is dropped: the completion ends the
  one that the table entry happens to hold.
\<close>

section \<open>The engine\<close>

definition init_dma_chan_ks2 :: "addr kern" where
  "init_dma_chan_ks2 = call ''dma_request_channel DMA_MEMCPY|DMA_SG'' [16]"

definition MIGTABLE_PAGE_ORDER_ks2 :: int where "MIGTABLE_PAGE_ORDER_ks2 = 2"

definition alloc_table_ks2 :: "addr kern" where
  "alloc_table_ks2 = (bindK (call ''sizeof(struct mig_table)'' []) (\<lambda>sz.
    seqK (BUG_ON (2 ^ nat MIGTABLE_PAGE_ORDER_ks2 * PAGE_SIZE \<le> sz)) (
    bindK (call ''__get_free_pages'' [MIGTABLE_PAGE_ORDER_ks2]) (\<lambda>t.
    seqK (assertK (t \<noteq> 0)) (
    ret t)))))"

text \<open>\<^verbatim>\<open>sg_set_page\<close> sets \<^verbatim>\<open>length\<close>; the engine's address is set apart, its length is not.\<close>

definition sg_add_ks2 ::
  "nat \<Rightarrow> addr \<Rightarrow> addr \<Rightarrow> sg_ent list \<times> sg_ent list \<Rightarrow> (sg_ent list \<times> sg_ent list) kern" where
  "sg_add_ks2 count op np = (\<lambda>(src, dst). (seqK (BUG_ON (count \<le> length src \<or> count \<le> length dst)) (
    bindK (call ''page_to_phys'' [op]) (\<lambda>sp.
    bindK (call ''phys40_to_dma32'' [sp]) (\<lambda>sa.
    bindK (call ''page_to_phys'' [np]) (\<lambda>dp.
    bindK (call ''phys40_to_dma32'' [dp]) (\<lambda>da.
    ret (src @ [\<lparr>sg_page = op, sg_len = PAGE_SIZE, dma_address = sa, dma_length = 0\<rparr>],
          dst @ [\<lparr>sg_page = np, sg_len = PAGE_SIZE, dma_address = da, dma_length = 0\<rparr>]))))))))"

section \<open>Replacing the page in its mapping\<close>

definition migrate_page_move_mapping_arm ::
  "nat \<Rightarrow> addr \<Rightarrow> addr \<Rightarrow> addr \<Rightarrow> addr \<Rightarrow> migrate_mode \<Rightarrow> rc kern" where
  "migrate_page_move_mapping_arm nbuf mapping np p head mode =
     (if mapping = 0 then (bindK (call ''page_count'' [p]) (\<lambda>c.
       ret (if c \<noteq> 1 then EAGAIN else SUCCESS)))
      else (bindK (freeze_slot nbuf mapping p head mode 1) (\<lambda>slot.
        case slot of None \<Rightarrow> ret EAGAIN
        | Some (pslot, expected) \<Rightarrow> (seqK (take_cache_ref np p) (
          seqK (exec ''radix_tree_replace_slot'' [pslot, np]) (
          seqK (exec ''page_unfreeze_refs'' [p, expected - 1]) (
          seqK (exec ''__dec_zone_page_state NR_FILE_PAGES'' [p]) (
          seqK (exec ''__inc_zone_page_state NR_FILE_PAGES'' [np]) (
          bindK (callb ''PageSwapCache'' [p]) (\<lambda>sc.
          bindK (if sc then ret False else callb ''PageSwapBacked'' [p]) (\<lambda>sb.
          seqK (whenK (\<not> sc \<and> sb) (seqK (exec ''__dec_zone_page_state NR_SHMEM'' [p]) (
              exec ''__inc_zone_page_state NR_SHMEM'' [np]))) (
          seqK (exec ''spin_unlock_irq'' [mapping]) (
          ret SUCCESS)))))))))))))"

section \<open>Copying\<close>

definition copy_page_dma_sync_arm :: "nat \<Rightarrow> addr \<Rightarrow> addr \<Rightarrow> unit kern" where
  "copy_page_dma_sync_arm = copy_page_dma_sync_by init_dma_chan_ks2"

definition migrate_page_copy_arm :: "nat \<Rightarrow> addr \<Rightarrow> addr \<Rightarrow> int \<Rightarrow> rc kern" where
  "migrate_page_copy_arm n = migrate_page_copy_by (\<lambda>np p. exec ''copy_huge_page'' [np, p]) (copy_page_dma_sync_arm n)"

definition migrate_page_arm :: "nat \<Rightarrow> page_migrator" where
  "migrate_page_arm n mapping np p mode = (bindK (callb ''PageWriteback'' [p]) (\<lambda>wb.
    seqK (BUG_ON wb) (
    bindK (migrate_page_move_mapping_arm n mapping np p 0 mode) (\<lambda>rc.
    if rc \<noteq> SUCCESS then ret rc else migrate_page_copy_arm n np p 2))))"

definition fallback_migrate_page_arm :: "nat \<Rightarrow> page_migrator" where
  "fallback_migrate_page_arm n = fallback_migrate_page_by (migrate_page_arm n)"

definition move_to_new_page_arm :: "nat \<Rightarrow> addr \<Rightarrow> addr \<Rightarrow> bool \<Rightarrow> migrate_mode \<Rightarrow> rc kern" where
  "move_to_new_page_arm n = move_to_new_page_by (migrate_page_arm n)"

section \<open>One page\<close>

text \<open>The label \<^verbatim>\<open>uncharge\<close>; \<open>mem\<close> is the local variable that \<^verbatim>\<open>mem_cgroup_prepare_migration\<close> has set.\<close>

definition uncharge_arm :: "addr \<Rightarrow> addr \<Rightarrow> addr \<Rightarrow> rc \<Rightarrow> rc kern" where
  "uncharge_arm cg p np rc = (seqK (exec ''mem_cgroup_end_migration'' [cg, p, np, of_bool (rc = SUCCESS \<or> rc = BALLOON_SUCCESS)]) (
    seqK (exec ''unlock_page'' [p]) (
    ret rc)))"

definition unmap_locked_arm ::
  "nat \<Rightarrow> addr \<Rightarrow> addr \<Rightarrow> bool \<Rightarrow> migrate_mode \<Rightarrow> addr \<Rightarrow> nat \<Rightarrow> rc kern" where
  "unmap_locked_arm n p np force mode t i = (bindK (call ''mem_cgroup_prepare_migration'' [p, np]) (\<lambda>cg.
    unmap_locked (migrate_page_arm n) (uncharge_arm cg p np) p np force mode t i))"

definition do_unmap_and_move_arm ::
  "nat \<Rightarrow> addr \<Rightarrow> addr \<Rightarrow> bool \<Rightarrow> migrate_mode \<Rightarrow> addr \<Rightarrow> nat \<Rightarrow> rc kern" where
  "do_unmap_and_move_arm n p np force mode t i =
     do_unmap_and_move_by (unmap_locked_arm n p np force mode t i) p force mode"

definition unmap_and_move_arm :: "nat \<Rightarrow> addr \<Rightarrow> bool \<Rightarrow> migrate_mode \<Rightarrow> addr \<Rightarrow> nat \<Rightarrow> rc kern" where
  "unmap_and_move_arm = unmap_and_move_by do_unmap_and_move_arm"

section \<open>All pages of a table, and their completion\<close>

definition migrate_pages_arm :: "nat \<Rightarrow> migrate_mode \<Rightarrow> addr \<Rightarrow> int kern" where
  "migrate_pages_arm = migrate_pages_by do_unmap_and_move_arm sg_add_ks2"

definition dma_complete_one_arm :: "addr \<Rightarrow> nat \<Rightarrow> unit kern" where
  "dma_complete_one_arm = dma_complete_one_by
     (\<lambda>d. exec ''mem_cgroup_end_migration'' [pg_mem d, page d, newpage d, 1])"

section \<open>Locks\<close>

lemma quiet_arm_migrate [simp]: "page_weight w \<Longrightarrow> quiet w (migrate_page_arm n mapping np p mode)"
  by (simp add: migrate_page_arm_def migrate_page_move_mapping_arm_def migrate_page_copy_arm_def
      copy_page_dma_sync_arm_def init_dma_chan_ks2_def page_weightD page_calls_def)

lemma keeps_tables_arm [simp]: "keeps tables (migrate_page_arm n mapping np p mode)"
  by (simp add: migrate_page_arm_def migrate_page_move_mapping_arm_def freeze_slot_def take_cache_ref_def
      buffer_migrate_lock_buffers_def migrate_page_copy_arm_def migrate_page_copy_by_def copy_page_dma_sync_arm_def
      copy_page_dma_sync_by_def init_dma_chan_ks2_def keeps_modK Let_def)

lemma releases_uncharge_arm [simp]: "releases (uncharge_arm cg p np) q p"
  by (simp add: releases_def uncharge_arm_def)

lemma lock_do_unmap_and_move_arm:
  "shifts (lock_w q) (do_unmap_and_move_arm n p np force mode t i) (pending_locks q p np)"
  unfolding do_unmap_and_move_arm_def unmap_locked_arm_def
  by (intro lock_do_unmap_and_move_by shifts_step(1) lock_unmap_locked) simp_all

lemma ends_do_unmap_and_move_arm: "ends (do_unmap_and_move_arm n p np force mode t i) (entry_is t i p np)"
proof -
  have "ends (uncharge_arm cg p np rc) (\<lambda>x _. x = rc)" for cg rc by (simp add: uncharge_arm_def)
  then show ?thesis
    unfolding do_unmap_and_move_arm_def unmap_locked_arm_def
    by (intro ends_do_unmap_and_move_by ends_rules(1) ends_unmap_locked) simp_all
qed

section \<open>Charges\<close>

text \<open>The balance of the charge \<open>m\<close>: opened by the call that answers it, ended by the call it is given to.\<close>

definition charge_w :: "addr \<Rightarrow> kevent \<Rightarrow> int" where
  "charge_w m = (\<lambda>(f, xs, v). if f = ''mem_cgroup_prepare_migration'' then of_bool (v = m)
     else if f = ''mem_cgroup_end_migration'' then - of_bool (hd xs = m) else 0)"

lemma charge_w_simps [simp]:
  "charge_w m (''mem_cgroup_prepare_migration'', xs, v) = of_bool (v = m)"
  "charge_w m (''mem_cgroup_end_migration'', x # xs, v) = - of_bool (x = m)"
  "f \<noteq> ''mem_cgroup_prepare_migration'' \<Longrightarrow> f \<noteq> ''mem_cgroup_end_migration'' \<Longrightarrow> charge_w m (f, xs, v) = 0"
  by (simp_all add: charge_w_def)

lemma page_weight_charge [simp]: "page_weight (charge_w m)"
  by (simp add: page_weight_def page_calls_def)

lemma quiet_charge_move [simp]:
  assumes "\<And>mapping np p mode. quiet (charge_w m) (mv mapping np p mode)"
  shows "quiet (charge_w m) (move_to_new_page_by mv np p remap mode)"
  using assms by (simp add: move_to_new_page_by_def fallback_migrate_page_by_def writeout_def call_rc_def)

lemma charge_unmap_locked:
  assumes mv: "\<And>mapping np p mode. quiet (charge_w m) (mv mapping np p mode)"
    and fin: "\<And>rc. rc \<noteq> PENDING \<Longrightarrow> shifts (charge_w m) (fin rc) E" and E: "E PENDING = 0"
  shows "shifts (charge_w m) (unmap_locked mv fin p np force mode t i) E"
proof -
  have "kernel_rc v \<noteq> PENDING" for v by (simp add: kernel_rc_def)
  then have b: "shifts (charge_w m) (bindK (call_rc ''balloon_page_migrate'' [np, p, a]) fin) E" for a
    by (intro shifts_call_rc_bind) (simp_all add: fin)
  have "shifts (charge_w m) (move_unmapped mv fin p np mode t i av remap) E" for av remap
    unfolding move_unmapped_def
    by (intro shifts_step(1) shifts_if) (simp_all add: mv fin E)
  then show ?thesis
    unfolding unmap_locked_def by (simp add: fin b)
qed

text \<open>What the table entry holds as its charge is not touched by a move.\<close>

definition entry_charge :: "addr \<Rightarrow> nat \<Rightarrow> kst \<Rightarrow> addr" where
  "entry_charge t i s = pg_mem (pg_desc (tables s t) i)"

lemma keeps_entry_charge:
  "keeps tables m1 \<Longrightarrow> keeps (entry_charge t i) m1"
  "(\<And>d. pg_mem (f d) = pg_mem d) \<Longrightarrow> keeps (entry_charge t i) (upd_pg t1 j f)"
  by (auto simp: keeps_def entry_charge_def upd_pg_def upd_table_def)

lemma keeps_entry_charge_unmap: "keeps (entry_charge t i) (unmap_locked_arm n p np force mode t1 j)"
proof -
  have fin: "keeps tables (uncharge_arm cg p np rc)" for cg rc by (simp add: uncharge_arm_def)
  have "keeps (entry_charge t i) (move_unmapped (migrate_page_arm n) (uncharge_arm cg p np) p np mode t1 j av remap)" for cg av remap
    by (simp add: move_unmapped_def keeps_entry_charge fin)
  then show ?thesis
    by (simp add: unmap_locked_arm_def unmap_locked_def call_rc_def pin_anon_vma_def keeps_entry_charge fin)
qed

text \<open>A pending move: it has opened one charge, and the entry still holds what it held before.\<close>

lemma do_unmap_pending:
  assumes "do_unmap_and_move_by locked p force mode s = Inr (PENDING, s1)"
  shows "\<exists>s0. locked s0 = Inr (PENDING, s1) \<and> tables s0 = tables s \<and> (\<forall>m. weight (charge_w m) s0 = weight (charge_w m) s)"
  using assms unfolding do_unmap_and_move_by_def
  by (auto simp: bindK_eq_Inr seqK_eq_Inr callb_run exec_run weight_def split: if_splits)

lemma pending_opens_charge:
  assumes "do_unmap_and_move_arm n p np force mode t i s = Inr (PENDING, s1)"
  shows "\<exists>cg. \<forall>m. weight (charge_w m) s1 = weight (charge_w m) s + of_bool (cg = m)"
    and "entry_charge t i s1 = entry_charge t i s"
proof -
  obtain s0 where s0: "unmap_locked_arm n p np force mode t i s0 = Inr (PENDING, s1)" "tables s0 = tables s"
    "\<And>m. weight (charge_w m) s0 = weight (charge_w m) s"
    using do_unmap_pending assms unfolding do_unmap_and_move_arm_def by blast
  show "entry_charge t i s1 = entry_charge t i s"
    using keepsD [OF keeps_entry_charge_unmap s0(1), of t i] s0(2) by (simp add: entry_charge_def)
  obtain cg s2 where s2: "call ''mem_cgroup_prepare_migration'' [p, np] s0 = Inr (cg, s2)"
    "unmap_locked (migrate_page_arm n) (uncharge_arm cg p np) p np force mode t i s2 = Inr (PENDING, s1)"
    using s0(1) unfolding unmap_locked_arm_def bindK_eq_Inr by blast
  have "weight (charge_w m) s1 = weight (charge_w m) s2" for m
  proof -
    have "shifts (charge_w m) (unmap_locked (migrate_page_arm n) (uncharge_arm cg p np) p np force mode t i)
        (\<lambda>rc. if rc = PENDING then 0 else - of_bool (cg = m))"
    proof (rule charge_unmap_locked)
      fix rc :: rc assume "rc \<noteq> PENDING"
      then show "shifts (charge_w m) (uncharge_arm cg p np rc) (\<lambda>rc. if rc = PENDING then 0 else - of_bool (cg = m))"
        by (simp add: uncharge_arm_def)
    qed simp_all
    from shiftsD [OF this s2(2)] show ?thesis by simp
  qed
  moreover have "weight (charge_w m) s2 = weight (charge_w m) s0 + of_bool (cg = m)" for m
    using s2(1) by (auto simp: call_run weight_def)
  ultimately show "\<exists>cg. \<forall>m. weight (charge_w m) s1 = weight (charge_w m) s + of_bool (cg = m)"
    using s0(3) by auto
qed

lemma completion_ends_charge:
  assumes "dma_complete_one_arm t i s = Inr (x, s1)"
  shows "weight (charge_w m) s1 = weight (charge_w m) s - of_bool (entry_charge t i s = m)"
proof -
  let ?d = "pg_desc (tables s t) i"
  let ?rest = "\<lambda>d. let p = page d in let np = newpage d in
     seqK (copy_page_state np p) (seqK (whenK (remap_swapcache d \<noteq> 0) (remove_migration_ptes p np))
      (seqK (upd_page p (\<lambda>P. P\<lparr>pg_mapping := 0\<rparr>)) (seqK (exec ''unlock_page'' [np])
      (seqK (whenK (anon_vma d \<noteq> 0) (exec ''put_anon_vma'' [anon_vma d]))
      (seqK (exec ''mem_cgroup_end_migration'' [pg_mem d, page d, newpage d, 1]) (seqK (exec ''unlock_page'' [p])
      (seqK (list_del p) (bindK (call ''page_is_file_cache'' [p]) (\<lambda>fc.
       seqK (exec ''dec_zone_page_state NR_ISOLATED_ANON'' [p, fc])
      (seqK (exec ''putback_lru_page'' [p]) (exec ''putback_lru_page'' [np])))))))))))"
  have "?rest ?d s = Inr (x, s1)"
    using assms unfolding dma_complete_one_arm_def dma_complete_one_by_def
    by (auto simp: bindK_eq_Inr get_pg_def split: if_splits)
  moreover have "shifts (charge_w m) (?rest ?d) (\<lambda>_. - of_bool (pg_mem ?d = m))"
    by (simp add: Let_def)
  ultimately show ?thesis
    using shiftsD unfolding entry_charge_def by force
qed

lemma lock_dma_complete_one_arm:
  assumes "dma_complete_one_arm t i s = Inr (x, s1)"
  shows "weight (lock_w q) s1 = weight (lock_w q) s - entry_locks q (pg_desc (tables s t) i)"
  using assms unfolding dma_complete_one_arm_def by (rule lock_dma_complete_one_by) simp

end
