(* ===== verification/DrvArm.thy ===== *)
theory DrvArm
  imports Session DrvIf DrvArmMove
begin

text \<open>
  The ARM original of the driver, \<^verbatim>\<open>migrate-ks2.c\<close> (KeyStone II; the file is in the repository twice,
  byte for byte, under \<^verbatim>\<open>migrate-x86\<close> and \<^verbatim>\<open>libsmm/kernel\<close>).  It knows ordinary pages only, tells the
  engine 32-bit addresses (\<^verbatim>\<open>phys40_to_dma32\<close>, a function of that kernel), keeps its tables in four
  pages, and charges a migrated page to its memory cgroup from the submission to the completion.
  What it has in common with \<^verbatim>\<open>migrate-x86.c\<close> is modelled by the same definitions; this theory holds
  what differs and the values of \<open>variant\<close>.

  The lemmas: what the engine is asked for, compared with \<^verbatim>\<open>migrate-x86.c\<close>; the interpretation of the
  driver's interfaces; and the balance of the charges.
\<close>

section \<open>Replication\<close>

definition issue_copy_page_ks2 ::
  "nat \<Rightarrow> int list \<Rightarrow> int list \<Rightarrow> sg_ent list \<times> sg_ent list \<Rightarrow> nat \<Rightarrow> (sg_ent list \<times> sg_ent list) kern" where
  "issue_copy_page_ks2 count opage npage sgl j = (seqK (BUG_ON (IS_ERR (opage ! j))) (
    seqK (BUG_ON (opage ! j = 0)) (
    bindK (call ''page_mapcount'' [opage ! j]) (\<lambda>mo.
    seqK (BUG_ON (1 < mo)) (
    seqK (BUG_ON (IS_ERR (npage ! j))) (
    seqK (BUG_ON (npage ! j = 0)) (
    bindK (call ''page_mapcount'' [npage ! j]) (\<lambda>mn.
    seqK (BUG_ON (1 < mn)) (
    sg_add_ks2 count (opage ! j) (npage ! j) sgl)))))))))"

definition collect_copy_ks2 :: "addr \<Rightarrow> desc_p \<Rightarrow> addr \<Rightarrow> (addr \<times> nat \<times> addr \<times> addr \<times> sg_ent list \<times> sg_ent list) kern" where
  "collect_copy_ks2 r desc mm = (bindK alloc_table_ks2 (\<lambda>t.
    bindK (get_desc r desc page_count_of) (\<lambda>count.
    bindK (alloc_sg count) (\<lambda>(sg_src, sg_dst).
    bindK (get_desc r desc (\<lambda>d. uint (base_to_virt (virt_base d)))) (\<lambda>paddr.
    bindK (get_desc r desc (\<lambda>d. uint (base_to_virt (virt_base_dest d)))) (\<lambda>paddr1.
    seqK (exec ''down_read'' [mm]) (
    bindK (call ''find_vma'' [mm, paddr]) (\<lambda>vma.
    bindK (call ''find_vma'' [mm, paddr1]) (\<lambda>vma1.
    seqK (check_vma vma paddr) (
    seqK (check_vma vma1 paddr1) (
    bindK (call ''kmalloc'' [int count]) (\<lambda>oa.
    bindK (call ''kmalloc'' [int count]) (\<lambda>na.
    seqK (BUG_ON (oa = 0 \<or> na = 0)) (
    bindK (follow_range False '' FOLL_SPLIT'' vma paddr count) (\<lambda>opage.
    bindK (follow_range False '' FOLL_SPLIT'' vma1 paddr1 count) (\<lambda>npage.
    seqK (exec ''up_read'' [mm]) (
    bindK (foldK (issue_copy_page_ks2 count opage npage) ([], []) [0..<count]) (\<lambda>sgl.
    seqK (exec ''kfree'' [oa]) (
    seqK (exec ''kfree'' [na]) (
    ret (t, count, sg_src, sg_dst, sgl)))))))))))))))))))))"

text \<open>Filling in the table and submitting are the same lines as in \<^verbatim>\<open>migrate-x86.c\<close>.\<close>

definition issue_one_desc_copy_ks2 :: "addr \<Rightarrow> desc_p \<Rightarrow> bool \<Rightarrow> addr \<Rightarrow> addr kern" where
  "issue_one_desc_copy_ks2 r desc do_irq mm = (bindK (collect_copy_ks2 r desc mm) (\<lambda>(t, count, sg_src, sg_dst, sgl).
    submit_sg Issue_copy t r desc do_irq mm count sg_src sg_dst sgl))"

section \<open>Replacing the pte\<close>

definition locate_new_pte_ks2 :: "addr \<Rightarrow> addr \<Rightarrow> int \<Rightarrow> (addr \<times> addr) option kern" where
  "locate_new_pte_ks2 new mm address = (bindK (callb ''PageHuge'' [new]) (\<lambda>huge.
    if huge then (bindK (call ''huge_pte_offset'' [mm, address]) (\<lambda>ptep.
       if ptep = 0 then ret None
       else (bindK (call ''&mm->page_table_lock'' [mm]) (\<lambda>ptl.
         ret (Some (ptep, ptl))))))
     else (bindK (call ''mm_find_pmd'' [mm, address]) (\<lambda>pmd.
       if pmd = 0 then ret None
       else (bindK (callb ''pmd_trans_huge'' [pmd]) (\<lambda>th.
         if th then ret None
         else (bindK (call ''pte_offset_map'' [pmd, address]) (\<lambda>ptep.
           bindK (call ''pte_lockptr'' [mm, pmd]) (\<lambda>ptl.
           ret (Some (ptep, ptl)))))))))))"

definition install_new_pte_ks2 :: "addr \<Rightarrow> nat \<Rightarrow> addr \<Rightarrow> addr \<Rightarrow> int \<Rightarrow> int kern" where
  "install_new_pte_ks2 t i new vma address = (bindK (call ''vma->vm_mm'' [vma]) (\<lambda>mm.
    bindK (get_pg t i) (\<lambda>d.
    let old = page d in
    bindK (locate_new_pte_ks2 new mm address) (\<lambda>loc.
    case loc of None \<Rightarrow> ret SWAP_AGAIN
     | Some (pp, ptl) \<Rightarrow> (seqK (exec ''spin_lock'' [ptl]) (
       bindK (call ''*ptep'' [pp]) (\<lambda>oldpte.
       seqK (exec ''get_page'' [new]) (
       bindK (call ''vma->vm_page_prot'' [vma]) (\<lambda>prot.
       bindK (call ''mk_pte'' [new, prot]) (\<lambda>v0.
       bindK (call ''pte_mkyoung'' [v0]) (\<lambda>v1.
       bindK (callb ''pte_write'' [oldpte]) (\<lambda>w.
       bindK (if w then call ''pte_mkwrite'' [v1] else ret v1) (\<lambda>v2.
       seqK (exec ''flush_dcache_page'' [new]) (
       seqK (exec ''set_pte_at'' [mm, address, pp, v2]) (
       seqK (upd_pg t i (\<lambda>d. d\<lparr>ptep := pp\<rparr>)) (
       bindK (call ''*ptep'' [pp]) (\<lambda>now.
       seqK (upd_pg t i (\<lambda>d. d\<lparr>pte := now\<rparr>)) (
       seqK (add_rmap new vma address) (
       seqK (exec ''update_mmu_cache'' [vma, address, pp]) (
       seqK (exec ''page_remove_rmap'' [old]) (
       seqK (exec ''put_page'' [old]) (
       seqK (exec ''pte_unmap_unlock'' [pp, ptl]) (
       ret SWAP_AGAIN)))))))))))))))))))))))"

section \<open>Migration\<close>

text \<open>
  As \<open>mig_switch\<close>, but the new page is charged to the old one's memory cgroup as soon as the old
  page is locked, and write-back is ruled out twice.
\<close>

definition mig_switch_ks2 :: "addr \<Rightarrow> nat \<Rightarrow> addr \<Rightarrow> addr \<Rightarrow> unit kern" where
  "mig_switch_ks2 t j p np = (bindK (callb ''trylock_page'' [p]) (\<lambda>l.
    seqK (BUG_ON (\<not> l)) (
    bindK (call ''mem_cgroup_prepare_migration'' [p, np]) (\<lambda>mem.
    seqK (upd_pg t j (\<lambda>d. d\<lparr>pg_mem := mem\<rparr>)) (
    bindK (callb ''PageWriteback'' [p]) (\<lambda>wb0.
    seqK (BUG_ON wb0) (
    bindK (callb ''PageAnon'' [p]) (\<lambda>an.
    bindK (if an then callb ''PageKsm'' [p] else ret False) (\<lambda>ksm.
    bindK (if an \<and> \<not> ksm then (bindK (call ''page_get_anon_vma'' [p]) (\<lambda>av.
       seqK (BUG_ON (av = 0)) (
       ret av)))
            else ret 0) (\<lambda>av.
    bindK (callb ''balloon_page_movable'' [p]) (\<lambda>bl.
    seqK (BUG_ON bl) (
    bindK (get_page p pg_mapping) (\<lambda>mapping.
    seqK (BUG_ON (mapping = 0)) (
    bindK (callb ''trylock_page'' [np]) (\<lambda>ln.
    seqK (BUG_ON (\<not> ln)) (
    bindK (get_page p pg_index) (\<lambda>idx.
    seqK (upd_page np (\<lambda>P. P\<lparr>pg_index := idx, pg_mapping := mapping\<rparr>)) (
    bindK (callb ''PageSwapBacked'' [p]) (\<lambda>sb.
    seqK (whenK sb (exec ''SetPageSwapBacked'' [np])) (
    bindK (callb ''PageWriteback'' [p]) (\<lambda>wb.
    seqK (BUG_ON wb) (
    seqK (upd_pg t j (\<lambda>d. d\<lparr>page := p\<rparr>)) (
    seqK (upd_pg t j (\<lambda>d. d\<lparr>newpage := np\<rparr>)) (
    seqK (rmap_walk np (install_new_pte_ks2 t j np)) (
    seqK (whenK (av \<noteq> 0) (exec ''put_anon_vma'' [av])) (
    upd_pg t j (\<lambda>d. d\<lparr>status := 0\<rparr>)))))))))))))))))))))))))))"

text \<open>Isolating the old page and allocating the new one: the branches for ordinary pages.\<close>

definition issue_mig_page_ks2 ::
  "addr \<Rightarrow> addr \<Rightarrow> desc_p \<Rightarrow> nat \<Rightarrow> int list \<Rightarrow> sg_ent list \<times> sg_ent list \<Rightarrow> nat
     \<Rightarrow> (sg_ent list \<times> sg_ent list) kern" where
  "issue_mig_page_ks2 t r desc count opage sgl j = (seqK (mig_isolate t False (opage ! j)) (
    bindK (mig_new_page r desc False (opage ! j)) (\<lambda>np.
    seqK (mig_switch_ks2 t j (opage ! j) np) (
    sg_add_ks2 count (opage ! j) np sgl))))"

definition collect_mig_ks2 :: "addr \<Rightarrow> desc_p \<Rightarrow> addr \<Rightarrow> (addr \<times> nat \<times> addr \<times> addr \<times> sg_ent list \<times> sg_ent list) kern" where
  "collect_mig_ks2 r desc mm = (bindK alloc_table_ks2 (\<lambda>t.
    seqK (upd_table t (\<lambda>T. T\<lparr>pagelist := []\<rparr>)) (
    bindK (get_desc r desc page_count_of) (\<lambda>count.
    bindK (alloc_sg count) (\<lambda>(sg_src, sg_dst).
    bindK (get_desc r desc (\<lambda>d. uint (base_to_virt (virt_base d)))) (\<lambda>paddr.
    seqK (exec ''down_read'' [mm]) (
    bindK (call ''find_vma'' [mm, paddr]) (\<lambda>vma.
    seqK (check_vma vma paddr) (
    bindK (call ''kmalloc'' [int count]) (\<lambda>oa.
    seqK (BUG_ON (oa = 0)) (
    bindK (follow_range False '' FOLL_SPLIT|FOLL_GET'' vma paddr count) (\<lambda>opage.
    bindK (foldK (issue_mig_page_ks2 t r desc count opage) ([], []) [0..<count]) (\<lambda>sgl.
    seqK (exec ''up_read'' [mm]) (
    seqK (exec ''kfree'' [oa]) (
    ret (t, count, sg_src, sg_dst, sgl))))))))))))))))"

definition issue_one_desc_mig_ks2 :: "addr \<Rightarrow> desc_p \<Rightarrow> bool \<Rightarrow> addr \<Rightarrow> addr kern" where
  "issue_one_desc_mig_ks2 r desc do_irq mm = (bindK (collect_mig_ks2 r desc mm) (\<lambda>(t, count, sg_src, sg_dst, sgl).
    submit_sg Issue_mig t r desc do_irq mm count sg_src sg_dst sgl))"

definition issue_one_desc_ks2 :: submitter where
  "issue_one_desc_ks2 f r desc do_irq mm = (case f of
     Issue_copy \<Rightarrow> issue_one_desc_copy_ks2 r desc do_irq mm
   | Issue_mig \<Rightarrow> issue_one_desc_mig_ks2 r desc do_irq mm
   | _ \<Rightarrow> failK Bad_access)"

section \<open>Completion\<close>

text \<open>The result is false when the race is detected; then the charge stays, as the locks do.\<close>

definition dma_complete_one_mig_ks2 :: "addr \<Rightarrow> nat \<Rightarrow> bool kern" where
  "dma_complete_one_mig_ks2 t i = (bindK (get_pg t i) (\<lambda>d.
    let p = page d in
    let np = newpage d in
    let mem = pg_mem d in
    bindK (call ''pte_mkold'' [pte d]) (\<lambda>old.
    bindK (callb ''__sync_bool_compare_and_swap'' [ptep d, pte d, old]) (\<lambda>ok.
    if \<not> ok then ret False
     else (seqK (copy_page_state np p) (
       seqK (upd_page p (\<lambda>P. P\<lparr>pg_mapping := 0\<rparr>)) (
       seqK (exec ''unlock_page'' [np]) (
       seqK (exec ''mem_cgroup_end_migration'' [mem, p, np, 1]) (
       seqK (exec ''unlock_page'' [p]) (
       seqK (list_del p) (
       bindK (call ''page_is_file_cache'' [p]) (\<lambda>fc.
       seqK (exec ''dec_zone_page_state NR_ISOLATED_ANON'' [p, fc]) (
       seqK (exec ''putback_lru_page'' [p]) (
       seqK (exec ''putback_lru_page'' [np]) (
       ret True)))))))))))))))"

section \<open>The shared code\<close>

definition ks2_driver :: variant where
  "ks2_driver = \<lparr>v_issue = issue_one_desc_ks2, v_complete = dma_complete_one_mig_ks2,
     v_order = MIGTABLE_PAGE_ORDER_ks2, v_done = ''device_tx_status == DMA_SUCCESS'',
     v_alloc_table = alloc_table_ks2, v_sg_add = sg_add_ks2, v_migrate = migrate_pages_arm,
     v_complete_one = dma_complete_one_arm, v_init_chan = init_dma_chan_ks2, v_names = debug_fnames\<rparr>"

lemma ks2_driver [simp]:
  "v_issue ks2_driver = issue_one_desc_ks2" "v_complete ks2_driver = dma_complete_one_mig_ks2"
  "v_order ks2_driver = MIGTABLE_PAGE_ORDER_ks2" "v_done ks2_driver = ''device_tx_status == DMA_SUCCESS''"
  "v_alloc_table ks2_driver = alloc_table_ks2" "v_sg_add ks2_driver = sg_add_ks2" "v_migrate ks2_driver = migrate_pages_arm"
  "v_complete_one ks2_driver = dma_complete_one_arm" "v_init_chan ks2_driver = init_dma_chan_ks2"
  "v_names ks2_driver = debug_fnames"
  by (simp_all add: ks2_driver_def)

definition user_flush_ks2 :: "addr \<Rightarrow> addr \<Rightarrow> int \<Rightarrow> issue_func \<Rightarrow> int kern" where
  "user_flush_ks2 = user_flush_by ks2_driver"

definition kernel_flush_work_ks2 :: "addr \<Rightarrow> unit kern" where
  "kernel_flush_work_ks2 = kernel_flush_work_by ks2_driver"

definition dma_callback_kthread_ks2 :: "addr \<Rightarrow> unit kern" where
  "dma_callback_kthread_ks2 = dma_callback_kthread_by ks2_driver"

text \<open>Flushing the whole queue, its workers, and the device files.\<close>

definition flush_single_qreq_ks2 :: "nat \<Rightarrow> addr \<Rightarrow> bool \<Rightarrow> addr \<Rightarrow> nat kern" where
  "flush_single_qreq_ks2 = flush_single_qreq_by ks2_driver"

definition flush_single_qreq_noremap2_ks2 :: "addr \<Rightarrow> bool \<Rightarrow> addr \<Rightarrow> nat kern" where
  "flush_single_qreq_noremap2_ks2 = flush_single_qreq_noremap2_by ks2_driver"

definition do_dma_complete_ks2 :: "nat \<Rightarrow> addr \<Rightarrow> unit kern" where
  "do_dma_complete_ks2 = do_dma_complete_by ks2_driver"

definition dma_complete_work_noremap_ks2 :: "addr \<Rightarrow> unit kern" where
  "dma_complete_work_noremap_ks2 = dma_complete_work_noremap_by ks2_driver"

definition if_open_ks2 :: "string \<Rightarrow> addr \<Rightarrow> int kern" where
  "if_open_ks2 = if_open_by ks2_driver"

definition if_write_ks2 :: "nat \<Rightarrow> addr \<Rightarrow> addr \<Rightarrow> nat \<Rightarrow> int kern" where
  "if_write_ks2 = if_write_by ks2_driver"

definition migks2_module_init_ks2 :: "int kern" where
  "migks2_module_init_ks2 = migks2_module_init_by ks2_driver"

definition migks2_module_exit_ks2 :: "unit kern" where
  "migks2_module_exit_ks2 = migks2_module_exit_by ks2_driver"

section \<open>What is transferred\<close>

text \<open>The ARM kernel: as the x86 one, with a table that fits into four pages and the address translation.\<close>

definition kernel_copies_ks2 ::
  "(kevent list \<Rightarrow> string \<Rightarrow> int list \<Rightarrow> int) \<Rightarrow> (bool \<Rightarrow> int \<Rightarrow> addr) \<Rightarrow> (addr \<Rightarrow> int) \<Rightarrow> (int \<Rightarrow> int) \<Rightarrow> bool" where
  "kernel_copies_ks2 A pt phys dma32 \<longleftrightarrow> kernel_copies A pt phys
     \<and> (\<forall>h. A h ''sizeof(struct mig_table)'' [] < 16384) \<and> (\<forall>h p. A h ''phys40_to_dma32'' [p] = dma32 p)"

text \<open>An element of the x86 driver's lists as the ARM driver builds it.\<close>

definition to_ks2 :: "(int \<Rightarrow> int) \<Rightarrow> sg_ent \<Rightarrow> sg_ent" where
  "to_ks2 dma32 e = e\<lparr>dma_address := dma32 (dma_address e), dma_length := 0\<rparr>"

abbreviation range_ks2 :: "(bool \<Rightarrow> int \<Rightarrow> addr) \<Rightarrow> (addr \<Rightarrow> int) \<Rightarrow> (int \<Rightarrow> int) \<Rightarrow> bool \<Rightarrow> int \<Rightarrow> nat \<Rightarrow> sg_ent list" where
  "range_ks2 pt phys dma32 src a n \<equiv> map (to_ks2 dma32) (range_sg pt phys src False a n)"

lemma succeeds_copy_pages_ks2:
  assumes K: "kernel_copies_ks2 A pt phys dma32"
  shows "succeeds A R N
    (foldK (issue_copy_page_ks2 n (map (\<lambda>j. pt False (a + int j * page_bytes False)) [0..<n])
       (map (\<lambda>j. pt False (b + int j * page_bytes False)) [0..<n])) ([], []) [0..<n])
    (\<lambda>sgl _. sgl = (range_ks2 pt phys dma32 True a n, range_ks2 pt phys dma32 False b n))"
proof -
  let ?o = "map (\<lambda>j. pt False (a + int j * page_bytes False)) [0..<n]"
  let ?n = "map (\<lambda>j. pt False (b + int j * page_bytes False)) [0..<n]"
  let ?P = "\<lambda>ys sgl. ys = [0..<length ys]
    \<longrightarrow> sgl = (range_ks2 pt phys dma32 True a (length ys), range_ks2 pt phys dma32 False b (length ys))"
  have C: "kernel_collects A pt phys" and P: "A h ''phys40_to_dma32'' [p] = dma32 p" for h p
    using K by (simp_all add: kernel_copies_ks2_def kernel_copies_def)
  have 1: "succeeds A R N (issue_copy_page_ks2 n ?o ?n sgl j) (\<lambda>s' _. ?P (ys @ [j]) s')"
    if p: "?P ys sgl" and pre: "prefix (ys @ [j]) [0..<n]" for ys sgl j
  proof -
    have ys: "ys = [0..<length ys]" "j = length ys" "length ys < n" using prefix_upt [OF pre] by simp_all
    then have sgl: "sgl = (range_ks2 pt phys dma32 True a (length ys), range_ks2 pt phys dma32 False b (length ys))"
      using p by simp
    show ?thesis
      using ys unfolding issue_copy_page_ks2_def sgl sg_add_ks2_def prod.case
      by (intro succeeds_rules)
         (auto simp: kernel_collectsD [OF C] P range_sg_def page_bytes_def Let_def to_ks2_def)
  qed
  have "succeeds A R N (foldK (issue_copy_page_ks2 n ?o ?n) ([], []) [0..<n]) (\<lambda>s' _. ?P [0..<n] s')"
    by (rule succeeds_foldK) (simp add: range_sg_def, rule 1)
  then show ?thesis by simp
qed

lemma succeeds_alloc_ks2:
  assumes "kernel_copies_ks2 A pt phys dma32"
  shows "succeeds A R N alloc_table_ks2 (\<lambda>_ _. True)"
proof -
  have C: "kernel_collects A pt phys" and z: "\<not> 16384 \<le> A h ''sizeof(struct mig_table)'' []" for h
    using assms by (auto simp: kernel_copies_ks2_def kernel_copies_def not_le)
  show ?thesis
    unfolding alloc_table_ks2_def MIGTABLE_PAGE_ORDER_ks2_def PAGE_SIZE_def
    by (auto simp: kernel_collectsD [OF C] z intro!: succeeds_rules succeeds_leaf)
qed

lemma succeeds_collect_copy_ks2:
  assumes K: "kernel_copies_ks2 A pt phys dma32" and n: "page_count_of (desc_at (R r) d) < N"
  defines "D \<equiv> desc_at (R r) d"
  shows "succeeds A R N (collect_copy_ks2 r d mm)
    (\<lambda>(t, count, sa, da, sgl) _. count = page_count_of D
      \<and> sgl = (range_ks2 pt phys dma32 True (uint (base_to_virt (virt_base D))) (page_count_of D),
         range_ks2 pt phys dma32 False (uint (base_to_virt (virt_base_dest D))) (page_count_of D)))"
proof -
  have C: "kernel_collects A pt phys" using K by (simp add: kernel_copies_ks2_def kernel_copies_def)
  have kp: "\<And>h xs. A h ''kmalloc'' xs \<noteq> 0" using C by (auto simp: kernel_collects_def)
  show ?thesis
    unfolding collect_copy_ks2_def
    apply (rule succeeds_bindK [OF succeeds_alloc_ks2 [OF K]])
    apply (rule succeeds_get_desc_bind)
    apply (rule succeeds_bindK [OF succeeds_alloc(2) [OF C]])
    using n apply simp
    apply (clarsimp simp only: prod.case split_paired_all)
    apply (rule succeeds_get_desc_bind)+
    apply (rule succeeds_exec_seq)
    apply (rule succeeds_call_bind)+
    apply (rule succeeds_seqK [OF succeeds_check_vma [OF C]])+
    apply (rule succeeds_call_bind)+
    apply (rule succeeds_BUG_ON_seq)
    using kp apply simp
    apply (rule succeeds_bindK [OF succeeds_follow [OF C]])+
    apply (simp only: D_def [symmetric])
    apply (rule succeeds_exec_seq)
    apply (rule succeeds_bindK [OF succeeds_copy_pages_ks2 [OF K]])
    apply (simp only:)
    apply (rule succeeds_exec_seq)+
    apply (simp add: succeeds_ret)
    done
qed

lemma issue_copy_ks2_succeeds:
  assumes K: "kernel_copies_ks2 A pt phys dma32" and n: "page_count_of (desc_at (R r) d) < N"
  defines "D \<equiv> desc_at (R r) d"
  shows "succeeds A R N (issue_one_desc_copy_ks2 r d irq mm) (submitted Issue_copy r d irq mm (page_count_of D)
    (range_ks2 pt phys dma32 True (uint (base_to_virt (virt_base D))) (page_count_of D),
     range_ks2 pt phys dma32 False (uint (base_to_virt (virt_base_dest D))) (page_count_of D)))"
  unfolding issue_one_desc_copy_ks2_def
  apply (rule succeeds_bindK [OF succeeds_collect_copy_ks2 [where R = R, OF K n]])
  apply (clarsimp simp only: prod.case split_paired_all D_def [symmetric])
  apply (rule succeeds_submit)
  using K n by (simp_all add: kernel_copies_ks2_def kernel_copies_def D_def)

section \<open>The interfaces\<close>

lemma collect_copy_ks2_views [simp]:
  "keeps qview (collect_copy_ks2 r d mm)" "keeps wview (collect_copy_ks2 r d mm)" "keeps copy_view (collect_copy_ks2 r d mm)"
proof -
  have "keeps qview alloc_table_ks2" "keeps qview (issue_copy_page_ks2 n xs ys sgl j)"
    "keeps wview alloc_table_ks2" "keeps wview (issue_copy_page_ks2 n xs ys sgl j)"
    "keeps copy_view alloc_table_ks2" "keeps copy_view (issue_copy_page_ks2 n xs ys sgl j)" for n xs ys sgl j
    by (cases sgl; simp add: alloc_table_ks2_def issue_copy_page_ks2_def sg_add_ks2_def)+
  then show "keeps qview (collect_copy_ks2 r d mm)" "keeps wview (collect_copy_ks2 r d mm)"
    "keeps copy_view (collect_copy_ks2 r d mm)"
    by (simp_all add: collect_copy_ks2_def)
qed

lemma issue_copy_ks2_views [simp]:
  "keeps qview (issue_one_desc_copy_ks2 r d irq mm)" "keeps wview (issue_one_desc_copy_ks2 r d irq mm)"
  by (simp_all add: issue_one_desc_copy_ks2_def)

definition can_copy_ks2 :: "(kevent list \<Rightarrow> string \<Rightarrow> int list \<Rightarrow> int) \<Rightarrow> bool" where
  "can_copy_ks2 A \<longleftrightarrow> (\<exists>pt phys dma32. kernel_copies_ks2 A pt phys dma32)"

lemma can_copy_ks2I: "kernel_copies_ks2 A pt phys dma32 \<Longrightarrow> can_copy_ks2 A"
  by (auto simp: can_copy_ks2_def)

interpretation ks2: session ks2_driver can_copy_ks2 "\<lambda>_. True" called_back dma_callback_kthread_ks2
proof
  fix s :: kst and A r p irq mm
  assume A: "answer s = A" and C: "can_copy_ks2 A" and N: "128 < max_nr_sg s"
  obtain pt phys dma32 where K: "kernel_copies_ks2 A pt phys dma32" using C by (auto simp: can_copy_ks2_def)
  have n: "page_count_of (desc_at (regs s r) p) < max_nr_sg s"
    using N page_count_of_bounds(2) [of "desc_at (regs s r) p"] by simp
  have "preserves (calls_copy old) (issue_one_desc_copy_ks2 r p irq mm)" for old
    by (simp add: issue_one_desc_copy_ks2_def submit_sg_def whenK_def)
  from submission_runs [OF A issue_copy_ks2_succeeds [where R = "regs s" and irq = irq and mm = mm, OF K n]
      issue_copy_ks2_views(1) issue_copy_ks2_views(2) this]
  show "\<exists>t s1. v_issue ks2_driver Issue_copy r p irq mm s = Inr (t, s1) \<and> issue_one_desc_func (tables s1 t) = Issue_copy
    \<and> migdesc (tables s1 t) = Some p \<and> t_region (tables s1 t) = r \<and> t_mm (tables s1 t) = mm
    \<and> qview s1 = qview s \<and> wview s1 = wview s
    \<and> (\<forall>old. issue_one_desc_func (tables s old) = Issue_copy \<longrightarrow> issue_one_desc_func (tables s1 old) = Issue_copy)
    \<and> (irq \<longrightarrow> called_back t s1)"
    by (simp add: issue_one_desc_ks2_def)
qed (auto simp: dma_callback_kthread_ks2_def)

lemmas ks2_session_ok = ks2.session_ok [folded user_flush_ks2_def kernel_flush_work_ks2_def, unfolded ks2_driver,
  OF _ _ _ _ _ TrueI can_copy_ks2I]

section \<open>Locks and charges of a migration\<close>

text \<open>
  What a migration holds, over all pages: page locks, charges to a memory cgroup, and how often the
  race was detected.  A page that loses the race keeps its two locks and its charge, so in the sum
  \<open>owed\<close> every completion, lost or not, settles what the set-up of its page took.
\<close>

definition locks_w :: "kevent \<Rightarrow> int" where
  "locks_w = (\<lambda>(f, xs, v). if f = ''trylock_page'' then of_bool (v \<noteq> 0) else if f = ''unlock_page'' then -1 else 0)"

definition charges_w :: "kevent \<Rightarrow> int" where
  "charges_w = (\<lambda>(f, xs, v). if f = ''mem_cgroup_prepare_migration'' then 1
     else if f = ''mem_cgroup_end_migration'' then -1 else 0)"

definition races_w :: "kevent \<Rightarrow> int" where
  "races_w = (\<lambda>(f, xs, v). of_bool (f = ''__sync_bool_compare_and_swap'' \<and> v = 0))"

definition owed_w :: "int \<Rightarrow> int \<Rightarrow> kevent \<Rightarrow> int" where
  "owed_w a b e = a * charges_w e + b * locks_w e - (a + 2 * b) * races_w e"

lemma weight_owed: "weight (owed_w a b) s = a * weight charges_w s + b * weight locks_w s - (a + 2 * b) * weight races_w s"
proof -
  have "sum_list (map (owed_w a b) h) = a * sum_list (map charges_w h) + b * sum_list (map locks_w h)
      - (a + 2 * b) * sum_list (map races_w h)" for h
    by (induction h) (simp_all add: owed_w_def algebra_simps)
  then show ?thesis by (simp add: weight_def)
qed

lemma owed_w_simps [simp]:
  "owed_w a b (''trylock_page'', xs, v) = b * of_bool (v \<noteq> 0)" "owed_w a b (''unlock_page'', xs, v) = - b"
  "owed_w a b (''mem_cgroup_prepare_migration'', xs, v) = a" "owed_w a b (''mem_cgroup_end_migration'', xs, v) = - a"
  "owed_w a b (''__sync_bool_compare_and_swap'', xs, v) = - (a + 2 * b) * of_bool (v = 0)"
  "f \<noteq> ''trylock_page'' \<Longrightarrow> f \<noteq> ''unlock_page'' \<Longrightarrow> f \<noteq> ''mem_cgroup_prepare_migration''
    \<Longrightarrow> f \<noteq> ''mem_cgroup_end_migration'' \<Longrightarrow> f \<noteq> ''__sync_bool_compare_and_swap'' \<Longrightarrow> owed_w a b (f, xs, v) = 0"
  by (simp_all add: owed_w_def locks_w_def charges_w_def races_w_def)

lemma quiet_owed_parts [simp]:
  "quiet (owed_w a b) alloc_table_ks2" "quiet (owed_w a b) (alloc_sg n)" "quiet (owed_w a b) (check_vma v c)"
  "quiet (owed_w a b) (sg_add_ks2 n p q sgl)" "quiet (owed_w a b) (submit_sg fn t r d irq mm n s1 s2 sgl)"
  "quiet (owed_w a b) (follow_range False '' FOLL_SPLIT|FOLL_GET'' v c n)"
  "quiet (owed_w a b) (mig_isolate t h p)" "quiet (owed_w a b) (mig_new_page r d h p)"
  by (cases sgl; simp add: alloc_table_ks2_def alloc_sg_def check_vma_def sg_add_ks2_def submit_sg_def
      follow_range_def call_array_def mig_isolate_def mig_new_page_def)+

lemma quiet_owed_install [simp]: "quiet (owed_w a b) (install_new_pte_ks2 t i np v c)"
proof -
  have "quiet (owed_w a b) (locate_new_pte_ks2 np mm c)" "quiet (owed_w a b) (add_rmap np v c)" for mm
    by (simp_all add: locate_new_pte_ks2_def add_rmap_def)
  then show ?thesis by (simp add: install_new_pte_ks2_def Let_def)
qed

lemma quiet_owed_walk [simp]: "quiet (owed_w a b) (rmap_walk np (install_new_pte_ks2 t j np))"
  by (rule quiet_rmap_walk) simp_all

lemma quiet_owed_state [simp]: "quiet (owed_w a b) (copy_page_state np p)"
  by (simp add: copy_page_state_def move_flag_def)

lemma owed_mig_switch: "shifts (owed_w a b) (mig_switch_ks2 t j p np) (\<lambda>_. a + 2 * b)"
  unfolding mig_switch_ks2_def
  apply (rule shifts_callb_bind, rule shifts_BUG_ON)
  apply (rule shifts_call_bind)
  apply (rule shifts_step(2), simp)
  apply (rule shifts_step(1), simp)
  apply (rule shifts_step(2), simp)
  apply (rule shifts_step(1), simp)+
  apply (rule shifts_step(2), simp)
  apply (rule shifts_step(1), simp)
  apply (rule shifts_step(2), simp)
  apply (rule shifts_callb_bind, rule shifts_BUG_ON)
  apply simp
  done

lemma owed_mig_page: "shifts (owed_w a b) (issue_mig_page_ks2 t r d n opage sgl j) (\<lambda>_. a + 2 * b)"
proof -
  have "shifts (owed_w a b) (seqK (mig_switch_ks2 t j p np) (sg_add_ks2 n p np sgl)) (\<lambda>_. a + 2 * b)" for p np
    by (rule shifts_seqK [OF owed_mig_switch]) simp
  then show ?thesis by (simp add: issue_mig_page_ks2_def)
qed

lemma owed_collect_mig:
  "shifts (owed_w a b) (collect_mig_ks2 r d mm) (\<lambda>(t, n, rest). (a + 2 * b) * int n)"
proof -
  have "shifts (owed_w a b) (bindK (foldK (issue_mig_page_ks2 t r d n opage) ([], []) [0..<n])
      (\<lambda>sgl. seqK (exec ''up_read'' [mm]) (seqK (exec ''kfree'' [oa]) (ret (t, n, s1, s2, sgl)))))
      (\<lambda>(t, n, rest). (a + 2 * b) * int n)" for t n opage oa s1 s2
    by (rule shifts_bindK [OF shifts_foldK_const [OF owed_mig_page]]) simp
  note pages = this
  show ?thesis
    unfolding collect_mig_ks2_def
    apply (rule shifts_step(1), simp)
    apply (rule shifts_step(2), simp)
    apply (rule shifts_step(1), simp)+
    apply (rule shifts_prod)
    apply (rule shifts_step(1), simp)
    apply (rule shifts_step(2), simp)
    apply (rule shifts_step(1), simp)
    apply (rule shifts_step(2), simp)
    apply (rule shifts_step(1), simp)
    apply (rule shifts_step(2), simp)
    apply (rule shifts_step(1), simp)
    apply (rule pages)
    done
qed

lemma submit_sg_returns:
  assumes "submit_sg fn t r d irq mm n sa da sgl s = Inr (t1, s1)"
  shows "t1 = t" "issue_one_desc_func (tables s1 t) = fn" "num_pages (tables s1 t) = int n"
proof -
  obtain src dst where sgl: "sgl = (src, dst)" by (cases sgl)
  have "t1 = t \<and> issue_one_desc_func (tables s1 t) = fn \<and> num_pages (tables s1 t) = int n"
    using assms unfolding sgl
    by (auto simp: submit_sg_def seqK_run bindK_run call_runs upd_table_def upd_pg_def get_info_def whenK_def Let_def
        split: if_splits)
  then show "t1 = t" "issue_one_desc_func (tables s1 t) = fn" "num_pages (tables s1 t) = int n" by simp_all
qed

lemma owed_issue_mig:
  assumes "issue_one_desc_mig_ks2 r d irq mm s = Inr (t, s1)"
  shows "weight (owed_w a b) s1 = weight (owed_w a b) s + (a + 2 * b) * num_pages (tables s1 t)"
    "issue_one_desc_func (tables s1 t) = Issue_mig" "0 \<le> num_pages (tables s1 t)"
proof -
  obtain t0 n sa da sgl s0 where c: "collect_mig_ks2 r d mm s = Inr ((t0, n, sa, da, sgl), s0)"
    "submit_sg Issue_mig t0 r d irq mm n sa da sgl s0 = Inr (t, s1)"
    using assms by (auto simp: issue_one_desc_mig_ks2_def bindK_eq_Inr)
  have "quiet (owed_w a b) (submit_sg Issue_mig t0 r d irq mm n sa da sgl)" by simp
  from shiftsD [OF this c(2)] shiftsD [OF owed_collect_mig c(1)] submit_sg_returns [OF c(2)]
  show "weight (owed_w a b) s1 = weight (owed_w a b) s + (a + 2 * b) * num_pages (tables s1 t)"
    "issue_one_desc_func (tables s1 t) = Issue_mig" "0 \<le> num_pages (tables s1 t)" by simp_all
qed

lemma owed_complete_one: "shifts (owed_w a b) (dma_complete_one_mig_ks2 t i) (\<lambda>_. - (a + 2 * b))"
  unfolding dma_complete_one_mig_ks2_def Let_def
  apply (rule shifts_step(1), simp)+
  apply (rule shifts_callb_bind)
  apply (rule shifts_if)
   apply simp
  apply (rule shifts_step(2), simp)
  apply (rule shifts_step(2), simp)
  apply simp
  done

text \<open>All pages of a migrated descriptor, submitted and completed.\<close>

lemma migration_settles:
  assumes "issue_one_desc_mig_ks2 r d irq mm s = Inr (t, s1)" and "complete_pages ks2_driver t s1 = Inr ((), s2)"
  shows "weight (owed_w a b) s2 = weight (owed_w a b) s"
proof -
  note I = owed_issue_mig(1) [OF assms(1), of a b] owed_issue_mig(2,3) [OF assms(1)]
  have one: "shifts (owed_w a b) (bindK (dma_complete_one_mig_ks2 t i) (\<lambda>_. ret ())) (\<lambda>_. - (a + 2 * b))" for i
    by (rule shifts_bindK [OF owed_complete_one]) simp
  have "forK [0..<nat (num_pages (tables s1 t))] (\<lambda>i. bindK (dma_complete_one_mig_ks2 t i) (\<lambda>_. ret ())) s1 = Inr ((), s2)"
    using assms(2) I(2) by (simp add: complete_pages_def get_table_def bindK_run whenK_def)
  from shiftsD [OF shifts_forK_const [OF one] this] I(1,3) show ?thesis by (simp add: algebra_simps)
qed

end
