(* ===== verification/DrvNuma.thy ===== *)
theory DrvNuma
  imports DrvPage
begin

text \<open>
  Residence queries (\<^verbatim>\<open>do_pages_stat_array\<close>, \<^verbatim>\<open>do_pages_stat\<close>) and NUMA balancing
  (\<^verbatim>\<open>migrate_balanced_pgdat\<close>, \<^verbatim>\<open>migrate_ratelimited\<close>, \<^verbatim>\<open>numamigrate_update_ratelimit\<close>,
  \<^verbatim>\<open>numamigrate_isolate_page\<close>, \<^verbatim>\<open>migrate_misplaced_page\<close>, \<^verbatim>\<open>migrate_misplaced_transhuge_page\<close>)
  of \<^verbatim>\<open>migrate-x86/migrate-x86.c\<close>.

  The lemmas: the rate limit, the balance of page locks, of the page-table lock and of page
  references on every path of a migration, and chunked queries that agree with a plain map.
\<close>

section \<open>Residence of pages\<close>

definition E_FAULT :: int where "E_FAULT = 14"
definition E_NOENT :: int where "E_NOENT = 2"

definition page_stat :: "addr \<Rightarrow> int \<Rightarrow> int kern" where
  "page_stat mm a = (bindK (call ''find_vma'' [mm, a]) (\<lambda>vma.
    if vma = 0 then ret (- E_FAULT)
     else (bindK (call ''vma->vm_start'' [vma]) (\<lambda>st.
       if a < st then ret (- E_FAULT)
       else (bindK (call ''follow_page'' [vma, a]) (\<lambda>p.
         if IS_ERR p then ret p
         else if p = 0 then ret (- E_NOENT)
         else (bindK (callb ''PageReserved'' [p]) (\<lambda>rsv.
           if rsv then ret (- E_NOENT) else call ''page_to_nid'' [p]))))))))"

definition do_pages_stat_array :: "addr \<Rightarrow> int list \<Rightarrow> int list kern" where
  "do_pages_stat_array mm pgs = (seqK (exec ''down_read'' [mm]) (
    bindK (foldK (\<lambda>acc a. bindK (page_stat mm a) (\<lambda>v. ret (acc @ [v]))) [] pgs) (\<lambda>st.
    seqK (exec ''up_read'' [mm]) (
    ret st))))"

definition DO_PAGES_STAT_CHUNK_NR :: nat where "DO_PAGES_STAT_CHUNK_NR = 16"

text \<open>
  \<open>pgs\<close> is the user's array from the current position on; \<open>acc\<close> is what has been stored into the
  user's status array so far.
\<close>

function do_pages_stat :: "addr \<Rightarrow> int list \<Rightarrow> int list \<Rightarrow> (int \<times> int list) kern" where
  "do_pages_stat mm pgs acc =
     (if pgs = [] then ret (0, acc)
      else (let chunk = take DO_PAGES_STAT_CHUNK_NR pgs in
        bindK (callb ''copy_from_user'' [int (length chunk)]) (\<lambda>bad.
        if bad then ret (- E_FAULT, acc)
        else (bindK (do_pages_stat_array mm chunk) (\<lambda>st.
          bindK (callb ''copy_to_user'' (int (length chunk) # st)) (\<lambda>bad1.
          if bad1 then ret (- E_FAULT, acc)
          else do_pages_stat mm (drop DO_PAGES_STAT_CHUNK_NR pgs) (acc @ st)))))))"
  by pat_completeness auto

termination
  by (relation "measure (\<lambda>(mm, pgs, acc). length pgs)") (auto simp: DO_PAGES_STAT_CHUNK_NR_def)

section \<open>Rate limit\<close>

text \<open>\<^verbatim>\<open>time_after(a, b)\<close>: the sign of the wrapped difference.\<close>

definition time_after :: "64 word \<Rightarrow> 64 word \<Rightarrow> bool" where
  "time_after a b = (sint (b - a) < 0)"

definition migrate_interval_millisecs :: int where "migrate_interval_millisecs = 100"
definition pteupdate_interval_millisecs :: int where "pteupdate_interval_millisecs = 1000"

definition ratelimit_pages :: "32 word" where "ratelimit_pages = push_bit (20 - 12) 128"

definition migrate_ratelimited :: "int \<Rightarrow> bool kern" where
  "migrate_ratelimited nid = (bindK (call ''NODE_DATA'' [nid]) (\<lambda>pg.
    bindK (getK (\<lambda>s. pgdats s pg)) (\<lambda>P.
    bindK (call ''jiffies'' []) (\<lambda>j.
    bindK (call ''msecs_to_jiffies'' [pteupdate_interval_millisecs]) (\<lambda>dt.
    if time_after (of_int j) (numabalancing_migrate_next_window P + of_int dt) then ret False
     else if numabalancing_migrate_nr_pages P < ucast ratelimit_pages then ret False
     else ret True)))))"

text \<open>The update under the lock, given the time and the length of a window.\<close>

definition ratelimit_step :: "64 word \<Rightarrow> 64 word \<Rightarrow> 64 word \<Rightarrow> pgdat \<Rightarrow> bool \<times> pgdat" where
  "ratelimit_step now win nr P =
     (let P = (if time_after now (numabalancing_migrate_next_window P)
               then P\<lparr>numabalancing_migrate_nr_pages := 0, numabalancing_migrate_next_window := now + win\<rparr>
               else P)
      in if ucast ratelimit_pages < numabalancing_migrate_nr_pages P then (True, P)
         else (False, P\<lparr>numabalancing_migrate_nr_pages := numabalancing_migrate_nr_pages P + nr\<rparr>))"

definition numamigrate_update_ratelimit :: "addr \<Rightarrow> 64 word \<Rightarrow> bool kern" where
  "numamigrate_update_ratelimit pg nr = (seqK (exec ''spin_lock'' [pg]) (
    bindK (call ''jiffies'' []) (\<lambda>j.
    bindK (call ''msecs_to_jiffies'' [migrate_interval_millisecs]) (\<lambda>win.
    bindK (getK (\<lambda>s. fst (ratelimit_step (of_int j) (of_int win) nr (pgdats s pg)))) (\<lambda>lim.
    seqK (modK (\<lambda>s. s\<lparr>pgdats := (pgdats s)(pg := snd (ratelimit_step (of_int j) (of_int win) nr (pgdats s pg)))\<rparr>)) (
    seqK (exec ''spin_unlock'' [pg]) (
    ret lim)))))))"

section \<open>Isolating a page\<close>

text \<open>\<open>usable\<close> is the driver's test of a zone; it differs between the kernels.\<close>

fun balanced_zones :: "(addr \<Rightarrow> bool kern) \<Rightarrow> addr \<Rightarrow> int \<Rightarrow> nat \<Rightarrow> bool kern" where
  "balanced_zones usable pg nr 0 = ret False"
| "balanced_zones usable pg nr (Suc z) = (bindK (call ''&pgdat->node_zones[z]'' [pg, int z]) (\<lambda>zone.
  bindK (callb ''populated_zone'' [zone]) (\<lambda>pop.
  if \<not> pop then balanced_zones usable pg nr z
     else (bindK (usable zone) (\<lambda>rcl.
       if \<not> rcl then balanced_zones usable pg nr z
       else (bindK (call ''high_wmark_pages'' [zone]) (\<lambda>wm.
         bindK (callb ''zone_watermark_ok'' [zone, 0, wm + nr, 0, 0]) (\<lambda>ok.
         if \<not> ok then balanced_zones usable pg nr z else ret True))))))))"

definition migrate_balanced_pgdat :: "addr \<Rightarrow> int \<Rightarrow> bool kern" where
  "migrate_balanced_pgdat pg nr = (bindK (call ''pgdat->nr_zones'' [pg]) (\<lambda>n.
    balanced_zones (\<lambda>zone. callb ''zone_reclaimable'' [zone]) pg nr (nat n)))"

text \<open>\<^verbatim>\<open>VM_BUG_ON\<close> checks only in a kernel built with \<^verbatim>\<open>CONFIG_DEBUG_VM\<close>.\<close>

definition numamigrate_isolate_by :: "(addr \<Rightarrow> int \<Rightarrow> bool kern) \<Rightarrow> addr \<Rightarrow> addr \<Rightarrow> bool kern" where
  "numamigrate_isolate_by balanced pg p = (bindK (call ''compound_order'' [p]) (\<lambda>co.
    bindK (callb ''PageTransHuge'' [p]) (\<lambda>th.
    bindK (callb ''CONFIG_DEBUG_VM'' []) (\<lambda>dbg.
    seqK (BUG_ON (dbg \<and> co \<noteq> 0 \<and> \<not> th)) (
    bindK (balanced pg (2 ^ nat co)) (\<lambda>bal.
    if \<not> bal then ret False
     else (bindK (callb ''isolate_lru_page'' [p]) (\<lambda>err.
       if err then ret False
       else (bindK (callb ''PageTransHuge'' [p]) (\<lambda>th1.
         bindK (if th1 then call ''page_count'' [p] else ret 3) (\<lambda>cnt.
         if cnt \<noteq> 3 then (seqK (exec ''putback_lru_page'' [p]) (
           ret False))
         else (bindK (call ''page_is_file_cache'' [p]) (\<lambda>lru.
           bindK (call ''hpage_nr_pages'' [p]) (\<lambda>hp.
           seqK (exec ''mod_zone_page_state NR_ISOLATED_ANON'' [p, lru, hp]) (
           seqK (exec ''put_page'' [p]) (
           ret True))))))))))))))))"

definition numamigrate_isolate_page :: "addr \<Rightarrow> addr \<Rightarrow> bool kern" where
  "numamigrate_isolate_page = numamigrate_isolate_by migrate_balanced_pgdat"

section \<open>Misplaced pages\<close>

definition alloc_misplaced_dst_page :: "int \<Rightarrow> addr kern" where
  "alloc_misplaced_dst_page nid = call ''__alloc_pages_node'' [nid, 0]"

text \<open>
  The local list holds the one page.  Whether \<^verbatim>\<open>migrate_pages\<close> (the kernel's own, with
  \<^verbatim>\<open>alloc_misplaced_dst_page\<close> as its allocator) has taken it off is an answer.
\<close>

definition migrate_misplaced_page :: "addr \<Rightarrow> addr \<Rightarrow> int \<Rightarrow> bool kern" where
  "migrate_misplaced_page p vma nid = (bindK (call ''NODE_DATA'' [nid]) (\<lambda>pg.
    bindK (call ''page_mapcount'' [p]) (\<lambda>mc.
    bindK (if mc \<noteq> 1 then callb ''page_is_file_cache'' [p] else ret False) (\<lambda>fc.
    bindK (if fc then callb ''vma->vm_flags & VM_EXEC'' [vma] else ret False) (\<lambda>ex.
    bindK (if ex then ret True else numamigrate_update_ratelimit pg 1) (\<lambda>lim.
    bindK (if lim then ret False else numamigrate_isolate_page pg p) (\<lambda>iso.
    if \<not> iso then (seqK (exec ''put_page'' [p]) (
       ret False))
     else (bindK (callb ''migrate_pages'' [p, nid]) (\<lambda>rem.
       bindK (callb ''list_empty(&migratepages)'' [p]) (\<lambda>empty.
       if rem then (seqK (whenK (\<not> empty) (seqK (exec ''list_del'' [p]) (
           bindK (call ''page_is_file_cache'' [p]) (\<lambda>fc1.
           seqK (exec ''dec_zone_page_state NR_ISOLATED_ANON'' [p, fc1]) (
           exec ''putback_lru_page'' [p]))))) (
         ret False))
       else (seqK (exec ''count_vm_numa_event NUMA_PAGE_MIGRATE'' []) (
         seqK (BUG_ON (\<not> empty)) (
         ret True)))))))))))))"

section \<open>Misplaced huge pages\<close>

definition HPAGE_PMD_NR :: int where "HPAGE_PMD_NR = 512"
definition HPAGE_PMD_ORDER :: int where "HPAGE_PMD_ORDER = 9"
definition HPAGE_PMD_SIZE :: int where "HPAGE_PMD_SIZE = 2097152"

text \<open>\<^verbatim>\<open>out_unlock\<close>\<close>

definition thp_out_unlock :: "addr \<Rightarrow> bool kern" where
  "thp_out_unlock p = (seqK (exec ''unlock_page'' [p]) (
    seqK (exec ''put_page'' [p]) (
    ret False)))"

text \<open>\<^verbatim>\<open>out_dropref\<close>\<close>

definition thp_out_dropref :: "addr \<Rightarrow> addr \<Rightarrow> addr \<Rightarrow> int \<Rightarrow> int \<Rightarrow> int \<Rightarrow> addr \<Rightarrow> bool kern" where
  "thp_out_dropref mm vma pmd entry address start p = (bindK (call ''pmd_lock'' [mm, pmd]) (\<lambda>ptl.
    bindK (call ''*pmd'' [pmd]) (\<lambda>cur.
    bindK (callb ''pmd_same'' [cur, entry]) (\<lambda>same.
    seqK (whenK same (bindK (call ''vma->vm_page_prot'' [vma]) (\<lambda>prot.
       bindK (call ''pmd_modify'' [entry, prot]) (\<lambda>e1.
       seqK (exec ''set_pmd_at'' [mm, start, pmd, e1]) (
       exec ''update_mmu_cache_pmd'' [vma, address, e1]))))) (
    seqK (exec ''ptl_unlock'' [ptl]) (
    thp_out_unlock p))))))"

text \<open>\<^verbatim>\<open>fail_putback\<close>\<close>

definition thp_fail_putback :: "addr \<Rightarrow> addr \<Rightarrow> addr \<Rightarrow> int \<Rightarrow> int \<Rightarrow> addr \<Rightarrow> addr \<Rightarrow> bool kern" where
  "thp_fail_putback mm ptl pmd start lru np p = (seqK (exec ''ptl_unlock'' [ptl]) (
    seqK (exec ''mmu_notifier_invalidate_range_end'' [mm, start, start + HPAGE_PMD_SIZE]) (
    bindK (callb ''TestClearPageActive'' [np]) (\<lambda>act.
    seqK (whenK act (exec ''SetPageActive'' [p])) (
    bindK (callb ''TestClearPageUnevictable'' [np]) (\<lambda>une.
    seqK (whenK une (exec ''SetPageUnevictable'' [p])) (
    seqK (exec ''unlock_page'' [np]) (
    seqK (exec ''put_page'' [np]) (
    seqK (exec ''get_page'' [p]) (
    seqK (exec ''putback_lru_page'' [p]) (
    seqK (exec ''mod_zone_page_state NR_ISOLATED_ANON'' [p, lru, - HPAGE_PMD_NR]) (
    thp_out_unlock p))))))))))))"

text \<open>The page-table lock is held and the pmd is as expected.\<close>

definition thp_switch :: "addr \<Rightarrow> addr \<Rightarrow> addr \<Rightarrow> addr \<Rightarrow> int \<Rightarrow> int \<Rightarrow> int \<Rightarrow> addr \<Rightarrow> addr \<Rightarrow> bool kern" where
  "thp_switch mm vma ptl pmd address start lru np p = (bindK (call ''*pmd'' [pmd]) (\<lambda>orig.
    bindK (call ''vma->vm_page_prot'' [vma]) (\<lambda>prot.
    bindK (call ''mk_pmd'' [np, prot]) (\<lambda>e0.
    bindK (call ''pmd_mkhuge'' [e0]) (\<lambda>e1.
    bindK (call ''pmd_mkdirty'' [e1]) (\<lambda>e2.
    bindK (call ''maybe_pmd_mkwrite'' [e2, vma]) (\<lambda>e3.
    seqK (exec ''flush_cache_range'' [vma, start, start + HPAGE_PMD_SIZE]) (
    seqK (exec ''page_add_anon_rmap'' [np, vma, start]) (
    seqK (exec ''pmdp_huge_clear_flush_notify'' [vma, start, pmd]) (
    seqK (exec ''set_pmd_at'' [mm, start, pmd, e3]) (
    seqK (exec ''flush_tlb_range'' [vma, start, start + HPAGE_PMD_SIZE]) (
    seqK (exec ''update_mmu_cache_pmd'' [vma, address, e3]) (
    bindK (call ''page_count'' [p]) (\<lambda>cnt.
    if cnt \<noteq> 2 then (seqK (exec ''set_pmd_at'' [mm, start, pmd, orig]) (
       seqK (exec ''flush_tlb_range'' [vma, start, start + HPAGE_PMD_SIZE]) (
       seqK (exec ''mmu_notifier_invalidate_range'' [mm, start, start + HPAGE_PMD_SIZE]) (
       seqK (exec ''update_mmu_cache_pmd'' [vma, address, e3]) (
       seqK (exec ''page_remove_rmap'' [np]) (
       thp_fail_putback mm ptl pmd start lru np p))))))
     else (seqK (exec ''mlock_migrate_page'' [np, p]) (
       bindK (call ''page_memcg'' [p]) (\<lambda>cg.
       seqK (exec ''set_page_memcg'' [np, cg]) (
       seqK (exec ''set_page_memcg'' [p, 0]) (
       seqK (exec ''page_remove_rmap'' [p]) (
       seqK (exec ''ptl_unlock'' [ptl]) (
       seqK (exec ''mmu_notifier_invalidate_range_end'' [mm, start, start + HPAGE_PMD_SIZE]) (
       seqK (exec ''get_page'' [np]) (
       seqK (exec ''putback_lru_page'' [np]) (
       seqK (exec ''unlock_page'' [np]) (
       seqK (exec ''unlock_page'' [p]) (
       seqK (exec ''put_page'' [p]) (
       seqK (exec ''put_page'' [p]) (
       seqK (exec ''count_vm_events PGMIGRATE_SUCCESS'' [HPAGE_PMD_NR]) (
       seqK (exec ''count_vm_numa_events NUMA_PAGE_MIGRATE'' [HPAGE_PMD_NR]) (
       seqK (exec ''mod_zone_page_state NR_ISOLATED_ANON'' [p, lru, - HPAGE_PMD_NR]) (
       ret True)))))))))))))))))))))))))))))))"

text \<open>The pmd is looked at again under its lock.\<close>

definition thp_recheck :: "addr \<Rightarrow> addr \<Rightarrow> addr \<Rightarrow> int \<Rightarrow> int \<Rightarrow> int \<Rightarrow> int \<Rightarrow> addr \<Rightarrow> addr \<Rightarrow> bool kern" where
  "thp_recheck mm vma pmd entry address start lru np p = (bindK (call ''pmd_lock'' [mm, pmd]) (\<lambda>ptl.
    bindK (call ''*pmd'' [pmd]) (\<lambda>cur.
    bindK (callb ''pmd_same'' [cur, entry]) (\<lambda>same.
    bindK (if same then call ''page_count'' [p] else ret 0) (\<lambda>cnt.
    if \<not> same \<or> cnt \<noteq> 2 then thp_fail_putback mm ptl pmd start lru np p
     else thp_switch mm vma ptl pmd address start lru np p)))))"

definition migrate_misplaced_transhuge_page ::
  "addr \<Rightarrow> addr \<Rightarrow> addr \<Rightarrow> int \<Rightarrow> int \<Rightarrow> addr \<Rightarrow> int \<Rightarrow> bool kern" where
  "migrate_misplaced_transhuge_page mm vma pmd entry address p nid = (bindK (call ''NODE_DATA'' [nid]) (\<lambda>pg.
    bindK (call ''page_is_file_cache'' [p]) (\<lambda>lru.
    let start = address - address mod HPAGE_PMD_SIZE in
    bindK (numamigrate_update_ratelimit pg (of_int HPAGE_PMD_NR)) (\<lambda>lim.
    if lim then thp_out_dropref mm vma pmd entry address start p
     else (bindK (call ''alloc_pages_node'' [nid, HPAGE_PMD_ORDER]) (\<lambda>np.
       if np = 0 then (seqK (exec ''count_vm_events PGMIGRATE_FAIL'' [HPAGE_PMD_NR]) (
         thp_out_dropref mm vma pmd entry address start p))
       else (bindK (numamigrate_isolate_page pg p) (\<lambda>iso.
         if \<not> iso then (seqK (exec ''put_page'' [np]) (
           seqK (exec ''count_vm_events PGMIGRATE_FAIL'' [HPAGE_PMD_NR]) (
           thp_out_dropref mm vma pmd entry address start p)))
         else (bindK (callb ''mm_tlb_flush_pending'' [mm]) (\<lambda>pend.
           seqK (whenK pend (exec ''flush_tlb_range'' [vma, start, start + HPAGE_PMD_SIZE])) (
           seqK (exec ''__set_page_locked'' [np]) (
           seqK (exec ''SetPageSwapBacked'' [np]) (
           bindK (get_page p pg_mapping) (\<lambda>pm.
           seqK (upd_page np (\<lambda>P. P\<lparr>pg_mapping := pm\<rparr>)) (
           bindK (get_page p pg_index) (\<lambda>idx.
           seqK (upd_page np (\<lambda>P. P\<lparr>pg_index := idx\<rparr>)) (
           seqK (exec ''migrate_page_copy'' [np, p]) (
           seqK (exec ''WARN_ON PageLRU'' [np]) (
           seqK (exec ''mmu_notifier_invalidate_range_start'' [mm, start, start + HPAGE_PMD_SIZE]) (
           thp_recheck mm vma pmd entry address start lru np p))))))))))))))))))))"

section \<open>Queries\<close>

lemma page_stat_returns: "\<exists>v s1. page_stat mm a s = Inr (v, s1)"
  by (simp add: page_stat_def bindK_run callb_run call_run)

lemma stat_fold_returns:
  "\<exists>vs s1. foldK (\<lambda>acc a. bindK (page_stat mm a) (\<lambda>v. ret (acc @ [v]))) acc pgs s = Inr (vs, s1)
    \<and> length vs = length acc + length pgs"
proof (induction pgs arbitrary: acc s)
  case (Cons a pgs)
  obtain v s1 where "page_stat mm a s = Inr (v, s1)" using page_stat_returns by blast
  then show ?case using Cons [of "acc @ [v]" s1] by (simp add: bindK_run)
qed simp

lemma do_pages_stat_array_returns:
  "\<exists>vs s1. do_pages_stat_array mm pgs s = Inr (vs, s1) \<and> length vs = length pgs"
proof -
  let ?s1 = "s\<lparr>hist := hist s @ [(''down_read'', [mm], answer s (hist s) ''down_read'' [mm])]\<rparr>"
  obtain vs s2 where "foldK (\<lambda>acc a. bindK (page_stat mm a) (\<lambda>v. ret (acc @ [v]))) [] pgs ?s1 = Inr (vs, s2)"
    "length vs = length pgs"
    using stat_fold_returns [of mm "[]" pgs ?s1] by auto
  then show ?thesis by (simp add: do_pages_stat_array_def seqK_run exec_run bindK_run)
qed

text \<open>
  A query always returns; with 0 it has stored a status for every page, otherwise for the pages of
  the chunks before the one that could not be copied.
\<close>

lemma do_pages_stat_returns:
  "\<exists>rc st s1. do_pages_stat mm pgs acc s = Inr ((rc, st), s1)
    \<and> (rc = 0 \<and> length st = length acc + length pgs
       \<or> rc = - E_FAULT \<and> (\<exists>k. 16 * k < length pgs \<and> length st = length acc + 16 * k))"
proof (induction "length pgs" arbitrary: pgs acc s rule: less_induct)
  case less
  let ?c = "\<lambda>s f xs. s\<lparr>hist := hist s @ [(f, xs, answer s (hist s) f xs)]\<rparr>"
  let ?ch = "take DO_PAGES_STAT_CHUNK_NR pgs"
  let ?s1 = "?c s ''copy_from_user'' [int (length ?ch)]"
  have eq: "do_pages_stat mm pgs acc s =
     (if pgs = [] then Inr ((0, acc), s)
      else if answer s (hist s) ''copy_from_user'' [int (length ?ch)] \<noteq> 0 then Inr ((- E_FAULT, acc), ?s1)
      else bindK (do_pages_stat_array mm ?ch) (\<lambda>st. bindK (callb ''copy_to_user'' (int (length ?ch) # st)) (\<lambda>bad1.
          if bad1 then ret (- E_FAULT, acc) else do_pages_stat mm (drop DO_PAGES_STAT_CHUNK_NR pgs) (acc @ st))) ?s1)"
    by (subst do_pages_stat.simps) (simp add: Let_def bindK_run callb_run)
  show ?case
  proof (cases "pgs = [] \<or> answer s (hist s) ''copy_from_user'' [int (length ?ch)] \<noteq> 0")
    case True
    show ?thesis
    proof (cases "pgs = []")
      case False
      then show ?thesis using eq True by (intro exI conjI) (auto intro!: exI [of _ 0])
    qed (use eq in simp)
  next
    case False
    obtain vs s2 where vs: "do_pages_stat_array mm ?ch ?s1 = Inr (vs, s2)" "length vs = length ?ch"
      using do_pages_stat_array_returns by blast
    let ?s3 = "?c s2 ''copy_to_user'' (int (length ?ch) # vs)"
    have eq2: "do_pages_stat mm pgs acc s =
       (if answer s2 (hist s2) ''copy_to_user'' (int (length ?ch) # vs) \<noteq> 0 then Inr ((- E_FAULT, acc), ?s3)
        else do_pages_stat mm (drop DO_PAGES_STAT_CHUNK_NR pgs) (acc @ vs) ?s3)"
      using eq False vs(1) by (simp add: bindK_run callb_run)
    show ?thesis
    proof (cases "answer s2 (hist s2) ''copy_to_user'' (int (length ?ch) # vs) \<noteq> 0")
      case True
      then show ?thesis using eq2 False by (intro exI conjI) (auto intro!: exI [of _ 0])
    next
      case ok: False
      obtain rc st s4 where r: "do_pages_stat mm (drop DO_PAGES_STAT_CHUNK_NR pgs) (acc @ vs) ?s3 = Inr ((rc, st), s4)"
        "rc = 0 \<and> length st = length (acc @ vs) + length (drop DO_PAGES_STAT_CHUNK_NR pgs)
         \<or> rc = - E_FAULT \<and> (\<exists>k. 16 * k < length (drop DO_PAGES_STAT_CHUNK_NR pgs) \<and> length st = length (acc @ vs) + 16 * k)"
        using less [of "drop DO_PAGES_STAT_CHUNK_NR pgs" "acc @ vs" ?s3] False
        by (auto simp: DO_PAGES_STAT_CHUNK_NR_def simp del: do_pages_stat.simps)
      have run: "do_pages_stat mm pgs acc s = Inr ((rc, st), s4)" using eq2 ok r(1) by simp
      show ?thesis
      proof (cases "rc = 0")
        case True
        then have "length st = length acc + length pgs"
          using r(2) vs(2) by (auto simp: E_FAULT_def)
        then show ?thesis using run True by blast
      next
        case nz: False
        then obtain k where k: "rc = - E_FAULT" "16 * k < length pgs - 16" "length st = length acc + length vs + 16 * k"
          using r(2) by (auto simp: DO_PAGES_STAT_CHUNK_NR_def)
        then have "16 * Suc k < length pgs" "length st = length acc + 16 * Suc k"
          using vs(2) by (simp_all add: DO_PAGES_STAT_CHUNK_NR_def)
        then show ?thesis using run k(1) by blast
      qed
    qed
  qed
qed

section \<open>The rate limit\<close>

text \<open>Pages granted to a sequence of requests \<open>(time, pages)\<close>.\<close>

fun granted :: "64 word \<Rightarrow> (64 word \<times> 64 word) list \<Rightarrow> pgdat \<Rightarrow> nat" where
  "granted win [] P = 0"
| "granted win ((now, nr) # rs) P =
     (if fst (ratelimit_step now win nr P) then 0 else unat nr)
       + granted win rs (snd (ratelimit_step now win nr P))"

lemma ratelimit_pages_val: "unat (ucast ratelimit_pages :: 64 word) = 32768"
proof -
  have r: "ratelimit_pages = 32768" by (simp add: ratelimit_pages_def push_bit_eq_mult)
  show ?thesis unfolding r by simp
qed

lemma granted_bound:
  assumes "\<forall>(now, nr)\<in>set rs. \<not> time_after now (numabalancing_migrate_next_window P) \<and> unat nr \<le> n"
    and "unat (numabalancing_migrate_nr_pages P) \<le> 32768 + n" and "n < 2 ^ 32"
  shows "unat (numabalancing_migrate_nr_pages P) + granted win rs P \<le> 32768 + n"
  using assms(1,2)
proof (induction rs arbitrary: P)
  case (Cons a rs)
  obtain now nr where a: "a = (now, nr)" by (cases a)
  have h: "\<not> time_after now (numabalancing_migrate_next_window P)" "unat nr \<le> n" using Cons.prems(1) a by auto
  show ?case
  proof (cases "ucast ratelimit_pages < numabalancing_migrate_nr_pages P")
    case True
    then have "ratelimit_step now win nr P = (True, P)" using h(1) by (simp add: ratelimit_step_def)
    then show ?thesis using Cons.IH [of P] Cons.prems a by simp
  next
    case False
    let ?P = "P\<lparr>numabalancing_migrate_nr_pages := numabalancing_migrate_nr_pages P + nr\<rparr>"
    have st: "ratelimit_step now win nr P = (False, ?P)" using h(1) False by (simp add: ratelimit_step_def)
    have le: "unat (numabalancing_migrate_nr_pages P) \<le> 32768"
      using False ratelimit_pages_val by (simp add: word_less_nat_alt)
    have "unat (numabalancing_migrate_nr_pages P) + unat nr < 2 ^ LENGTH(64)"
      using le h(2) assms(3) by simp
    then have u: "unat (numabalancing_migrate_nr_pages P + nr) = unat (numabalancing_migrate_nr_pages P) + unat nr"
      by (rule unat_add_lem [THEN iffD1])
    have "unat (numabalancing_migrate_nr_pages ?P) + granted win rs ?P \<le> 32768 + n"
      by (rule Cons.IH) (use Cons.prems(1) u le h(2) in auto)
    then show ?thesis using st a u by simp
  qed
qed simp

section \<open>What a migration of a huge page takes\<close>

text \<open>
  Four balances: the locks of page \<open>q\<close> (\<^verbatim>\<open>__set_page_locked\<close> takes the lock of the new page), the
  page-table lock, and the notifications of the MMU, which come in pairs.
\<close>

definition thp_lock_w :: "addr \<Rightarrow> kevent \<Rightarrow> int" where
  "thp_lock_w q = (\<lambda>(f, xs, v). if f = ''__set_page_locked'' then of_bool (xs = [q])
     else if f = ''unlock_page'' then - of_bool (xs = [q]) else 0)"

definition ptl_w :: "kevent \<Rightarrow> int" where
  "ptl_w = (\<lambda>(f, xs, v). of_bool (f \<in> {''pmd_lock'', ''spin_lock''}) - of_bool (f \<in> {''ptl_unlock'', ''spin_unlock''}))"

definition notify_w :: "kevent \<Rightarrow> int" where
  "notify_w = (\<lambda>(f, xs, v). of_bool (f = ''mmu_notifier_invalidate_range_start'')
     - of_bool (f = ''mmu_notifier_invalidate_range_end''))"

definition thp_w :: "int \<Rightarrow> int \<Rightarrow> int \<Rightarrow> addr \<Rightarrow> kevent \<Rightarrow> int" where
  "thp_w a b c q e = a * thp_lock_w q e + b * ptl_w e + c * notify_w e"

lemma weight_thp: "weight (thp_w a b c q) s = a * weight (thp_lock_w q) s + b * weight ptl_w s + c * weight notify_w s"
proof -
  have "sum_list (map (thp_w a b c q) h) = a * sum_list (map (thp_lock_w q) h) + b * sum_list (map ptl_w h)
      + c * sum_list (map notify_w h)" for h
    by (induction h) (simp_all add: thp_w_def algebra_simps)
  then show ?thesis by (simp add: weight_def)
qed

definition thp_calls :: "string list" where
  "thp_calls = [''__set_page_locked'', ''unlock_page'', ''pmd_lock'', ''spin_lock'', ''ptl_unlock'', ''spin_unlock'',
     ''mmu_notifier_invalidate_range_start'', ''mmu_notifier_invalidate_range_end'']"

definition page_held :: "int \<Rightarrow> addr \<Rightarrow> addr \<Rightarrow> int" where
  "page_held a q p = a * of_bool (p = q)"

lemma thp_w_simps [simp]:
  "thp_w a b c q (''__set_page_locked'', [p], v) = page_held a q p"
  "thp_w a b c q (''unlock_page'', [p], v) = - page_held a q p"
  "thp_w a b c q (''pmd_lock'', xs, v) = b" "thp_w a b c q (''spin_lock'', xs, v) = b"
  "thp_w a b c q (''ptl_unlock'', xs, v) = - b" "thp_w a b c q (''spin_unlock'', xs, v) = - b"
  "thp_w a b c q (''mmu_notifier_invalidate_range_start'', xs, v) = c"
  "thp_w a b c q (''mmu_notifier_invalidate_range_end'', xs, v) = - c"
  "f \<notin> set thp_calls \<Longrightarrow> thp_w a b c q (f, xs, v) = 0"
  by (simp_all add: thp_w_def thp_lock_w_def ptl_w_def notify_w_def thp_calls_def page_held_def)

lemma quiet_thp_zones [simp]:
  "(\<And>z. quiet (thp_w a b c q) (usable z)) \<Longrightarrow> quiet (thp_w a b c q) (balanced_zones usable pg nr n)"
  by (induction n) (simp_all add: thp_calls_def)

lemma quiet_thp_isolate [simp]:
  "(\<And>pg n. quiet (thp_w a b c q) (balanced pg n)) \<Longrightarrow> quiet (thp_w a b c q) (numamigrate_isolate_by balanced pg p)"
  by (simp add: numamigrate_isolate_by_def thp_calls_def)

lemma quiet_thp_parts [simp]:
  "quiet (thp_w a b c q) (migrate_balanced_pgdat pg n)" "quiet (thp_w a b c q) (numamigrate_update_ratelimit pg k)"
  by (simp_all add: migrate_balanced_pgdat_def numamigrate_update_ratelimit_def thp_calls_def)

lemma thp_out: "shifts (thp_w a b c q) (thp_out_unlock p) (\<lambda>_. - page_held a q p)"
  by (simp add: thp_out_unlock_def thp_calls_def)

lemma thp_dropref [simp]:
  "shifts (thp_w a b c q) (thp_out_dropref mm vma pmd entry address start p) (\<lambda>_. - page_held a q p)"
proof -
  have tail: "shifts (thp_w a b c q) (seqK (exec ''ptl_unlock'' [ptl]) (thp_out_unlock p)) (\<lambda>_. - page_held a q p - b)" for ptl
    by (rule shifts_exec_seq) (simp_all add: shifts_eq [OF thp_out])
  show ?thesis
    unfolding thp_out_dropref_def
    by (rule shifts_call_bind) (simp add: thp_calls_def shifts_eq [OF tail])
qed

lemma thp_putback:
  "shifts (thp_w a b c q) (thp_fail_putback mm ptl pmd start lru np p) (\<lambda>_. - page_held a q p - page_held a q np - c - b)"
  by (simp add: thp_fail_putback_def thp_out_unlock_def thp_calls_def)

lemma thp_switched:
  "shifts (thp_w a b c q) (thp_switch mm vma ptl pmd address start lru np p) (\<lambda>_. - page_held a q p - page_held a q np - c - b)"
  by (simp add: thp_switch_def thp_calls_def thp_putback)

lemma thp_recheck [simp]:
  "shifts (thp_w a b c q) (thp_recheck mm vma pmd entry address start lru np p) (\<lambda>_. - page_held a q p - page_held a q np - c)"
proof -
  have tail: "shifts (thp_w a b c q) (bindK (call ''*pmd'' [pmd]) (\<lambda>cur.
      bindK (callb ''pmd_same'' [cur, entry]) (\<lambda>same. bindK (if same then call ''page_count'' [p] else ret 0) (\<lambda>cnt.
      if \<not> same \<or> cnt \<noteq> 2 then thp_fail_putback mm ptl pmd start lru np p
      else thp_switch mm vma ptl pmd address start lru np p))))
      (\<lambda>_. - page_held a q p - page_held a q np - c - b)" for ptl
    by (intro shifts_step(1) shifts_if thp_putback thp_switched) (simp_all add: thp_calls_def)
  show ?thesis
    unfolding thp_recheck_def
    by (rule shifts_call_bind, rule shifts_eq [OF tail]) simp
qed

text \<open>Whatever happens, the page comes back unlocked and nothing else is left taken.\<close>

lemma thp_balances:
  "shifts (thp_w a b c q) (migrate_misplaced_transhuge_page mm vma pmd entry address p nid) (\<lambda>_. - page_held a q p)"
  by (simp add: migrate_misplaced_transhuge_page_def numamigrate_isolate_page_def thp_calls_def Let_def shifts_eq [OF thp_recheck])

end
