(* ===== verification/DrvArmNuma.thy ===== *)
theory DrvArmNuma
  imports DrvNuma DrvArmMove
begin

text \<open>
  NUMA balancing in the ARM original of the driver, \<^verbatim>\<open>migrate-ks2.c\<close>: \<^verbatim>\<open>migrate_balanced_pgdat\<close>,
  \<^verbatim>\<open>alloc_misplaced_dst_page\<close>, \<^verbatim>\<open>migrate_misplaced_page\<close> and \<^verbatim>\<open>migrate_misplaced_transhuge_page\<close>.
  The page queries and the rate limit are the text of \<^verbatim>\<open>migrate-x86.c\<close>.

  The lemmas: the balances of a migration of a huge page.  Here the memory cgroup's charge is kept in
  a local variable, and every charge opened is the one ended.
\<close>

section \<open>Isolating and allocating\<close>

definition migrate_balanced_pgdat_arm :: "addr \<Rightarrow> int \<Rightarrow> bool kern" where
  "migrate_balanced_pgdat_arm pg nr = (bindK (call ''pgdat->nr_zones'' [pg]) (\<lambda>n.
    balanced_zones (\<lambda>zone. bindK (callb ''zone->all_unreclaimable'' [zone]) (\<lambda>u. ret (\<not> u))) pg nr (nat n)))"

definition numamigrate_isolate_page_arm :: "addr \<Rightarrow> addr \<Rightarrow> bool kern" where
  "numamigrate_isolate_page_arm = numamigrate_isolate_by migrate_balanced_pgdat_arm"

definition alloc_misplaced_dst_page_arm :: "addr \<Rightarrow> int \<Rightarrow> addr kern" where
  "alloc_misplaced_dst_page_arm p nid = (bindK (call ''alloc_pages_exact_node'' [nid, 0]) (\<lambda>np.
    seqK (whenK (np \<noteq> 0) (bindK (call ''page_nid_last'' [p]) (\<lambda>last.
       exec ''page_nid_xchg_last'' [np, last]))) (
    ret np)))"

section \<open>Misplaced pages\<close>

definition migrate_misplaced_page_arm :: "addr \<Rightarrow> int \<Rightarrow> bool kern" where
  "migrate_misplaced_page_arm p nid = (bindK (call ''NODE_DATA'' [nid]) (\<lambda>pg.
    bindK (call ''page_mapcount'' [p]) (\<lambda>mc.
    bindK (if mc \<noteq> 1 then ret True else numamigrate_update_ratelimit pg 1) (\<lambda>lim.
    bindK (if lim then ret False else numamigrate_isolate_page_arm pg p) (\<lambda>iso.
    if \<not> iso then (seqK (exec ''put_page'' [p]) (
       ret False))
     else (bindK (callb ''migrate_pages'' [p, nid]) (\<lambda>rem.
       seqK (if rem then exec ''putback_lru_pages'' [p] else exec ''count_vm_numa_event NUMA_PAGE_MIGRATE'' []) (
       bindK (callb ''list_empty(&migratepages)'' [p]) (\<lambda>empty.
       seqK (BUG_ON (\<not> empty)) (
       ret (\<not> rem)))))))))))"

section \<open>Misplaced huge pages\<close>

text \<open>\<^verbatim>\<open>out\<close>\<close>

definition thp_out_arm :: "addr \<Rightarrow> int \<Rightarrow> bool \<Rightarrow> bool kern" where
  "thp_out_arm p lru isolated = (seqK (exec ''mod_zone_page_state NR_ISOLATED_ANON'' [p, lru, - HPAGE_PMD_NR]) (
    ret isolated))"

text \<open>The pmd has changed: what \<^verbatim>\<open>migrate_page_copy\<close> did is undone.\<close>

definition thp_undo_arm :: "addr \<Rightarrow> int \<Rightarrow> addr \<Rightarrow> addr \<Rightarrow> bool kern" where
  "thp_undo_arm mm lru np p = (seqK (exec ''spin_unlock'' [mm]) (
    bindK (callb ''TestClearPageActive'' [np]) (\<lambda>act.
    seqK (whenK act (exec ''SetPageActive'' [p])) (
    bindK (callb ''TestClearPageUnevictable'' [np]) (\<lambda>une.
    seqK (whenK une (exec ''SetPageUnevictable'' [p])) (
    seqK (exec ''mlock_migrate_page'' [p, np]) (
    seqK (exec ''unlock_page'' [np]) (
    seqK (exec ''put_page'' [np]) (
    seqK (exec ''unlock_page'' [p]) (
    seqK (exec ''putback_lru_page'' [p]) (
    seqK (exec ''count_vm_events PGMIGRATE_FAIL'' [HPAGE_PMD_NR]) (
    thp_out_arm p lru False))))))))))))"

definition thp_switch_arm :: "addr \<Rightarrow> addr \<Rightarrow> addr \<Rightarrow> int \<Rightarrow> int \<Rightarrow> int \<Rightarrow> addr \<Rightarrow> addr \<Rightarrow> bool kern" where
  "thp_switch_arm mm vma pmd address start lru np p = (bindK (call ''mem_cgroup_prepare_migration'' [p, np]) (\<lambda>cg.
    bindK (call ''vma->vm_page_prot'' [vma]) (\<lambda>prot.
    bindK (call ''mk_pmd'' [np, prot]) (\<lambda>e0.
    bindK (call ''pmd_mknonnuma'' [e0]) (\<lambda>e1.
    bindK (call ''pmd_mkdirty'' [e1]) (\<lambda>e2.
    bindK (call ''maybe_pmd_mkwrite'' [e2, vma]) (\<lambda>e3.
    bindK (call ''pmd_mkhuge'' [e3]) (\<lambda>e4.
    seqK (exec ''page_add_new_anon_rmap'' [np, vma, start]) (
    seqK (exec ''set_pmd_at'' [mm, start, pmd, e4]) (
    seqK (exec ''update_mmu_cache_pmd'' [vma, address, e4]) (
    seqK (exec ''page_remove_rmap'' [p]) (
    seqK (exec ''mem_cgroup_end_migration'' [cg, p, np, 1]) (
    seqK (exec ''spin_unlock'' [mm]) (
    seqK (exec ''unlock_page'' [np]) (
    seqK (exec ''unlock_page'' [p]) (
    seqK (exec ''put_page'' [p]) (
    seqK (exec ''put_page'' [p]) (
    seqK (exec ''count_vm_events PGMIGRATE_SUCCESS'' [HPAGE_PMD_NR]) (
    seqK (exec ''count_vm_numa_events NUMA_PAGE_MIGRATE'' [HPAGE_PMD_NR]) (
    thp_out_arm p lru True))))))))))))))))))))"

definition thp_recheck_arm :: "addr \<Rightarrow> addr \<Rightarrow> addr \<Rightarrow> int \<Rightarrow> int \<Rightarrow> int \<Rightarrow> int \<Rightarrow> addr \<Rightarrow> addr \<Rightarrow> bool kern" where
  "thp_recheck_arm mm vma pmd entry address start lru np p = (seqK (exec ''spin_lock'' [mm]) (
    bindK (call ''*pmd'' [pmd]) (\<lambda>cur.
    bindK (callb ''pmd_same'' [cur, entry]) (\<lambda>same.
    if \<not> same then thp_undo_arm mm lru np p
     else thp_switch_arm mm vma pmd address start lru np p))))"

text \<open>\<^verbatim>\<open>out_fail\<close>\<close>

definition thp_out_fail_arm :: "addr \<Rightarrow> bool kern" where
  "thp_out_fail_arm p = seqK (exec ''count_vm_events PGMIGRATE_FAIL'' [HPAGE_PMD_NR]) (thp_out_unlock p)"

definition migrate_misplaced_transhuge_page_arm ::
  "addr \<Rightarrow> addr \<Rightarrow> addr \<Rightarrow> int \<Rightarrow> int \<Rightarrow> addr \<Rightarrow> int \<Rightarrow> bool kern" where
  "migrate_misplaced_transhuge_page_arm mm vma pmd entry address p nid = (let start = address - address mod HPAGE_PMD_SIZE in
    bindK (call ''NODE_DATA'' [nid]) (\<lambda>pg.
    bindK (call ''page_is_file_cache'' [p]) (\<lambda>lru.
    bindK (call ''page_mapcount'' [p]) (\<lambda>mc.
    bindK (if mc \<noteq> 1 then ret True else numamigrate_update_ratelimit pg (of_int HPAGE_PMD_NR)) (\<lambda>lim.
    if lim then thp_out_unlock p
     else (bindK (call ''alloc_pages_node'' [nid, HPAGE_PMD_ORDER]) (\<lambda>np.
       if np = 0 then thp_out_fail_arm p
       else (bindK (call ''page_nid_last'' [p]) (\<lambda>last.
         seqK (exec ''page_nid_xchg_last'' [np, last]) (
         bindK (numamigrate_isolate_page_arm pg p) (\<lambda>iso.
         if \<not> iso then (seqK (exec ''put_page'' [np]) (
           thp_out_fail_arm p))
         else (seqK (exec ''__set_page_locked'' [np]) (
           seqK (exec ''SetPageSwapBacked'' [np]) (
           bindK (get_page p pg_mapping) (\<lambda>pm.
           seqK (upd_page np (\<lambda>P. P\<lparr>pg_mapping := pm\<rparr>)) (
           bindK (get_page p pg_index) (\<lambda>idx.
           seqK (upd_page np (\<lambda>P. P\<lparr>pg_index := idx\<rparr>)) (
           seqK (exec ''migrate_page_copy'' [np, p]) (
           seqK (exec ''WARN_ON PageLRU'' [np]) (
           thp_recheck_arm mm vma pmd entry address start lru np p))))))))))))))))))))"

section \<open>Balances\<close>

lemma quiet_thp_arm [simp]: "quiet (thp_w a b c q) (migrate_balanced_pgdat_arm pg n)"
  by (simp add: migrate_balanced_pgdat_arm_def thp_calls_def)

lemma thp_recheck_arm [simp]:
  "shifts (thp_w a b c q) (thp_recheck_arm mm vma pmd entry address start lru np p) (\<lambda>_. - page_held a q p - page_held a q np)"
  by (simp add: thp_recheck_arm_def thp_undo_arm_def thp_switch_arm_def thp_out_arm_def thp_calls_def)

lemma thp_balances_arm:
  "shifts (thp_w a b c q) (migrate_misplaced_transhuge_page_arm mm vma pmd entry address p nid) (\<lambda>_. - page_held a q p)"
proof -
  have "shifts (thp_w a b c q) (thp_out_fail_arm p) (\<lambda>_. - page_held a q p)"
    by (simp add: thp_out_fail_arm_def thp_calls_def thp_out)
  then show ?thesis
    by (simp add: migrate_misplaced_transhuge_page_arm_def numamigrate_isolate_page_arm_def thp_calls_def Let_def thp_out
        shifts_eq [OF thp_recheck_arm])
qed

text \<open>The charge that is opened is the charge that is ended.\<close>

lemma charge_thp_switch: "quiet (charge_w m) (thp_switch_arm mm vma pmd address start lru np p)"
  unfolding thp_switch_arm_def
  by (rule shifts_call_bind) (simp add: thp_out_arm_def)

lemma charge_thp:
  "quiet (charge_w m) (migrate_misplaced_transhuge_page_arm mm vma pmd entry address p nid)"
proof -
  have zones: "quiet (charge_w m) (balanced_zones (\<lambda>zone. bindK (callb ''zone->all_unreclaimable'' [zone]) (\<lambda>u. ret (\<not> u))) pg n k)" for pg n k
    by (induction k) simp_all
  have "quiet (charge_w m) (thp_recheck_arm mm vma pmd entry address start lru np p)" for start lru np
    by (simp add: thp_recheck_arm_def thp_undo_arm_def thp_out_arm_def charge_thp_switch)
  then show ?thesis
    by (simp add: migrate_misplaced_transhuge_page_arm_def numamigrate_isolate_page_arm_def numamigrate_isolate_by_def
        migrate_balanced_pgdat_arm_def zones numamigrate_update_ratelimit_def thp_out_fail_arm_def thp_out_unlock_def Let_def)
qed

end
