(* ===== verification/Example.thy ===== *)
theory Example
  imports MultiLoad DrvArm DrvArmNuma
begin

text \<open>
  A concrete device on which the properties are applied: a region of three pages that
  \<^verbatim>\<open>init_migregion\<close> has laid out, without requests and with one, and a kernel that answers every
  call with success.
\<close>

section \<open>Regions\<close>

definition null_ptr :: mig_desc_ptr where
  "null_ptr = \<lparr>mp_index = 0, mp_count = 0, mp_color = 0, mp_pad = 0\<rparr>"

definition null_desc :: mig_desc where
  "null_desc = \<lparr>word0 = 0, word1 = 0, refcnt = 0, nxt = null_ptr\<rparr>"

definition raw_region :: mig_region where
  "raw_region = \<lparr>ndescs = 0, freelist = \<lparr>fl_top = null_ptr, fl_aba_counter = 0, fl_element_counter = 0\<rparr>,
     queues = (\<lambda>_. \<lparr>q_tail = null_ptr, q_head = null_ptr, q_aba_counter = 0\<rparr>), desc_array = [], stk = null_ptr\<rparr>"

definition fresh_region :: mig_region where
  "fresh_region = (case init_migregion (\<lambda>_. null_desc) raw_region 12288 of Inr r \<Rightarrow> r | Inl _ \<Rightarrow> raw_region)"

lemma fresh_region:
  "wf_region fresh_region {}" "q \<in> set live_qs \<Longrightarrow> contents fresh_region q = []"
  "color_of fresh_region Qreq = COLOR_USR" "nfree fresh_region = 376" "ndescs fresh_region = 379"
proof -
  have "sint (12288 :: 32 word) = 12288" by simp
  then obtain r where r: "init_migregion (\<lambda>_. null_desc) raw_region 12288 = Inr r" "wf_region r {}"
    "\<forall>q\<in>set live_qs. contents r q = []" "color_of r Qreq = COLOR_USR" "unat (ndescs r) = 379" "nfree r + 3 = unat (ndescs r)"
    using init_migregion_ok [of 12288 "\<lambda>_. null_desc" raw_region] by auto
  have n: "ndescs r = 379" using r(5) by (simp add: word_unat_eq_iff)
  show "wf_region fresh_region {}" "q \<in> set live_qs \<Longrightarrow> contents fresh_region q = []"
    "color_of fresh_region Qreq = COLOR_USR" "nfree fresh_region = 376" "ndescs fresh_region = 379"
    using r n by (simp_all add: fresh_region_def)
qed

text \<open>One request of four pages, from \<^verbatim>\<open>0x10000\<close> to \<^verbatim>\<open>0x20000\<close>.\<close>

definition one_request :: mig_region where
  "one_request = (case user_submit 0x10000 0x20000 2 fresh_region of Inr (_, r) \<Rightarrow> r | Inl _ \<Rightarrow> fresh_region)"

lemma one_request:
  "wf_region one_request {}" "length (contents one_request Qreq) = 1" "contents one_request Qissued = []"
  "contents one_request Qcomp = []" "color_of one_request Qreq = COLOR_USR" "nfree one_request = 375"
proof -
  obtain w r where "user_submit 0x10000 0x20000 2 fresh_region = Inr ([w], r)" "wf_region r {}"
    "contents r Qreq = contents fresh_region Qreq @ [w]" "nfree fresh_region = Suc (nfree r)"
    "\<forall>q\<in>set live_qs. q \<noteq> Qreq \<longrightarrow> contents r q = contents fresh_region q"
    "\<forall>q\<in>set live_qs. color_of r q = color_of fresh_region q"
    using user_submit_ok [OF fresh_region(1), of "0x10000" "0x20000" 2] fresh_region(4) by auto
  then show "wf_region one_request {}" "length (contents one_request Qreq) = 1" "contents one_request Qissued = []"
    "contents one_request Qcomp = []" "color_of one_request Qreq = COLOR_USR" "nfree one_request = 375"
    using fresh_region by (simp_all add: one_request_def)
qed

text \<open>The same with the queue in the kernel's hands, and a taken descriptor.\<close>

definition kernel_region :: mig_region where
  "kernel_region = (case migqueue_set_color_if_empty fresh_region Qreq COLOR_KER of Inr (_, r) \<Rightarrow> r | Inl _ \<Rightarrow> fresh_region)"

lemma kernel_region:
  "wf_region kernel_region {}" "q \<in> set live_qs \<Longrightarrow> contents kernel_region q = []"
  "color_of kernel_region Qreq = COLOR_KER" "nfree kernel_region = 376"
proof -
  obtain r where "migqueue_set_color_if_empty fresh_region Qreq COLOR_KER = Inr (color_of fresh_region Qreq, r)"
    "wf_region r {}" "color_of r Qreq = COLOR_KER" "\<forall>q'\<in>set live_qs. contents r q' = contents fresh_region q'"
    "nfree r = nfree fresh_region"
    using wf_set_color [OF fresh_region(1), of Qreq COLOR_KER] fresh_region(2) by (auto simp: COLOR_KER_def)
  then show "wf_region kernel_region {}" "q \<in> set live_qs \<Longrightarrow> contents kernel_region q = []"
    "color_of kernel_region Qreq = COLOR_KER" "nfree kernel_region = 376"
    using fresh_region by (simp_all add: kernel_region_def)
qed

definition taken_region :: "mig_region \<times> desc_p" where
  "taken_region = (case freelist_remove fresh_region of Inr (Some p, r) \<Rightarrow> (r, p) | _ \<Rightarrow> (fresh_region, 0))"

lemma taken_region:
  "wf_region (fst taken_region) {snd taken_region}" "nfree (fst taken_region) = 375"
  "q \<in> set live_qs \<Longrightarrow> contents (fst taken_region) q = []" "color_of (fst taken_region) Qreq = COLOR_USR"
proof -
  obtain p r where "freelist_remove fresh_region = Inr (Some p, r)" "wf_region r {p}" "nfree fresh_region = Suc (nfree r)"
    "\<forall>q\<in>set live_qs. contents r q = contents fresh_region q \<and> color_of r q = color_of fresh_region q"
    using wf_freelist_remove [OF fresh_region(1)] fresh_region(4) by auto
  then show "wf_region (fst taken_region) {snd taken_region}" "nfree (fst taken_region) = 375"
    "q \<in> set live_qs \<Longrightarrow> contents (fst taken_region) q = []" "color_of (fst taken_region) Qreq = COLOR_USR"
    using fresh_region by (simp_all add: taken_region_def)
qed

section \<open>A kernel\<close>

text \<open>Every call succeeds; the page at address \<open>a\<close> is \<open>1 + |a|\<close>, at the physical address of that number.\<close>

definition good_answer :: "kevent list \<Rightarrow> string \<Rightarrow> int list \<Rightarrow> int" where
  "good_answer h f xs =
     (if f = ''find_vma'' then (if xs ! 1 = 0 then 1 else xs ! 1)
      else if f = ''vma->vm_start'' then hd xs - 1
      else if f = ''follow_page_range FOLL_SPLIT[]'' then 1 + \<bar>xs ! 1 + xs ! 3 * PAGE_SIZE\<bar>
      else if f = ''follow_huge_page_range FOLL_SPLIT[]'' then 1 + \<bar>xs ! 1 + xs ! 3 * HUGE_PAGE_SIZE\<bar>
      else if f = ''page_to_phys'' then hd xs else 1)"

lemma good_answer: "kernel_copies good_answer (\<lambda>_ a. 1 + \<bar>a\<bar>) (\<lambda>p. p)"
  "good_answer h ''device_tx_status == DMA_COMPLETE'' xs \<noteq> 0"
  by (auto simp: kernel_copies_def kernel_collects_def good_answer_def)

definition blank_entry :: mig_pg_desc where
  "blank_entry = \<lparr>newpage = 0, page = 0, remap_swapcache = 0, anon_vma = 0, pg_mem = 0, mig = 0, ptep = 0, pte = 0, status = 0\<rparr>"

definition copy_table :: "desc_p \<Rightarrow> mig_table" where
  "copy_table p = \<lparr>t_region = 1, t_mm = 1, issue_one_desc_func = Issue_copy, num_mig_descs = 1, num_pages = 1,
     pagelist = [], user_cpu = 0, migdesc = Some p, pg_desc = (\<lambda>_. blank_entry)\<rparr>"

definition machine :: "mig_region \<Rightarrow> desc_p \<Rightarrow> kst" where
  "machine R p = \<lparr>hist = [], answer = good_answer, regs = (\<lambda>_. R), tables = (\<lambda>_. copy_table p), after_free = (\<lambda>_ T. T),
     infos = (\<lambda>_. \<lparr>i_chan = 1, i_region = 1, reference = 0\<rparr>), pages = (\<lambda>_. \<lparr>pg_mapping = 0, pg_index = 0\<rparr>),
     chans = (\<lambda>_. 0), g_huge_page = 0, usr_nr_tx = 0, ker_nr_tx = 0xf0000000, filp_priv = (\<lambda>_. 0), vma_priv = (\<lambda>_. 1),
     debugif = (\<lambda>_. 0), umem = (\<lambda>_. 0), files = (\<lambda>fd. if fd = 3 then 7 else 0), page_mem = (\<lambda>_ _. null_desc),
     pgdats = (\<lambda>_. \<lparr>numabalancing_migrate_next_window = 0, numabalancing_migrate_nr_pages = 0\<rparr>),
     max_nr_sg = 200, my_counter = 16, test_flag = 0, cmplet_time = replicate 16 0, start_transfer = replicate 16 0, sched = (\<lambda>_. []), log_sub = (\<lambda>_. []), log_reap = (\<lambda>_. [])\<rparr>"

lemma machine_simps [simp]:
  "regs (machine R p) = (\<lambda>_. R)" "answer (machine R p) = good_answer" "sched (machine R p) = (\<lambda>_. [])"
  "tables (machine R p) t = copy_table p" "max_nr_sg (machine R p) = 200" "filp_priv (machine R p) = (\<lambda>_. 0)"
  "infos (machine R p) = (\<lambda>_. \<lparr>i_chan = 1, i_region = 1, reference = 0\<rparr>)" "vma_priv (machine R p) = (\<lambda>_. 1)"
  "chans (machine R p) = (\<lambda>_. 0)" "todo (machine R p) r = 0" "after_free (machine R p) t T = T"
  "t_region (copy_table p) = 1" "migdesc (copy_table p) = Some p" "issue_one_desc_func (copy_table p) = Issue_copy"
  by (simp_all add: machine_def todo_def copy_table_def)

lemma machine_ok: "wf_region R own \<Longrightarrow> 0 < nfree R \<Longrightarrow> dev_ok r own (machine R p)"
  by (simp add: dev_ok_def)

lemma machine_work_env: "work_env good_answer t r (machine R p)"
  by (simp add: work_env_of_def copy_env_def good_answer)

lemma machine_queues: "on_q (machine R p) r q = contents R q" "clr (machine R p) r = color_of R Qreq"
  by (simp_all add: on_q_def clr_def)

section \<open>Some runs\<close>

text \<open>The same machine with a kernel that answers 0 to everything.\<close>

definition silent :: "mig_region \<Rightarrow> kst" where
  "silent R = (machine R 0)\<lparr>answer := (\<lambda>_ _ _. 0)\<rparr>"

lemma silent_simps [simp]:
  "answer (silent R) h f xs = 0" "tables (silent R) t = copy_table 0" "max_nr_sg (silent R) = 200"
  by (simp_all add: silent_def)

lemma complete_one_run: "\<exists>s1. dma_complete_one 1 0 (silent R) = Inr ((), s1)"
  by (simp add: dma_complete_one_def dma_complete_one_by_def copy_page_state_def move_flag_def bindK_run seqK_run get_pg_def call_run callb_run
      exec_run Let_def copy_table_def blank_entry_def upd_page_def list_del_def whenK_def)

text \<open>A flush of an empty queue.\<close>

lemma machine_step:
  assumes "wf_region R own" and "q \<in> set live_qs" and "sched s 1 = []" and "regs s 1 = R"
  shows "contents R q = [] \<Longrightarrow> k_dequeue 1 q s = Inr (None, s)"
proof -
  assume e: "contents R q = []"
  have "(regs s)(1 := R) = regs s" using assms(4) by auto
  then have "s\<lparr>regs := (regs s)(1 := R)\<rparr> = s" by simp
  then show ?thesis
    using wf_dequeue_empty [OF assms(1,2) e] interfere_none [OF assms(3)] assms(4)
    by (simp add: k_dequeue_def seqK_run lib_op_def)
qed

lemma flush_empty_run: "\<exists>s1. flush_single_qreq_noremap2 1 True 1 (machine fresh_region 0) = Inr (0, s1)"
proof -
  let ?s = "(machine fresh_region 0)\<lparr>hist := [(''down_read'', [1], 1)]\<rparr>"
  obtain n where n: "2 * flush_fuel 1 ?s = Suc n"
    using gr0_implies_Suc [of "2 * flush_fuel 1 ?s"] by (auto simp: flush_fuel_def)
  obtain R where R: "migqueue_set_color_if_empty fresh_region Qreq COLOR_KER = Inr (COLOR_USR, R)"
    using wf_set_color [OF fresh_region(1), of Qreq COLOR_KER] fresh_region by (auto simp: COLOR_KER_def)
  have d: "k_dequeue 1 Qreq ?s = Inr (None, ?s)"
    by (rule machine_step [OF fresh_region(1)]) (simp_all add: fresh_region)
  have c: "k_set_color 1 Qreq COLOR_KER ?s = Inr (COLOR_USR, ?s\<lparr>regs := (regs ?s)(1 := R)\<rparr>)"
    using interfere_none [of ?s 1] by (simp add: k_set_color_def seqK_run lib_op_def R)
  have f: "flush_next 1 True 0 ?s = Inr (Flushed, ?s\<lparr>regs := (regs ?s)(1 := R)\<rparr>)"
    using d c by (simp add: flush_next_def bindK_run seqK_run COLOR_USR_def)
  show ?thesis
    using f n by (simp add: flush_single_qreq_noremap2_def flush_single_qreq_noremap2_by_def seqK_run bindK_run exec_run good_answer_def
        flush_init_def Let_def machine_def)
qed

section \<open>The device with 16 channels\<close>

text \<open>Channel \<open>i\<close> is at address \<open>i + 1\<close>; the engine reports the first one as done and no other.\<close>

definition first_done :: "kevent list \<Rightarrow> string \<Rightarrow> int list \<Rightarrow> int" where
  "first_done h f xs = (if f = ''device_tx_status == DMA_COMPLETE'' then of_bool (xs = [1]) else good_answer h f xs)"

lemma first_done:
  "kernel_copies first_done (\<lambda>_ a. 1 + \<bar>a\<bar>) (\<lambda>p. p)"
  "first_done h ''device_tx_status == DMA_COMPLETE'' [c] = of_bool (c = 1)"
  using good_answer(1) by (auto simp: kernel_copies_def kernel_collects_def first_done_def)

definition machine16 :: "mig_region \<Rightarrow> desc_p \<Rightarrow> kst" where
  "machine16 R p = (machine R p)\<lparr>answer := first_done, chans := (\<lambda>i. i + 1)\<rparr>"

lemma machine16_simps [simp]:
  "regs (machine16 R p) = (\<lambda>_. R)" "answer (machine16 R p) = first_done" "max_nr_sg (machine16 R p) = 200"
  "tables (machine16 R p) t = copy_table p" "after_free (machine16 R p) t T = T" "chans (machine16 R p) i = i + 1"
  "infos (machine16 R p) = (\<lambda>_. \<lparr>i_chan = 1, i_region = 1, reference = 0\<rparr>)"
  "my_counter (machine16 R p) = 16" "test_flag (machine16 R p) = 0" "hist (machine16 R p) = []"
  by (simp_all add: machine16_def machine_def)

lemma machine16_ready: "chans_ready (machine16 R p)"
  by (simp add: chans_ready_def)

lemma machine16_ok: "wf_region R own \<Longrightarrow> 0 < nfree R \<Longrightarrow> dev_ok r own (machine16 R p)"
  by (simp add: dev_ok_def todo_def machine16_def machine_def)

lemma machine16_queues: "on_q (machine16 R p) r q = contents R q" "clr (machine16 R p) r = color_of R Qreq"
  by (simp_all add: on_q_def clr_def)

text \<open>A region with one descriptor, of a request for \<open>2^k\<close> pages.\<close>

definition sized_region :: "nat \<Rightarrow> mig_region" where
  "sized_region k = raw_region\<lparr>desc_array := [set_order (of_nat k) null_desc]\<rparr>"

lemma sized_region: "unat (order (desc_at (sized_region 5) 0)) = 5" "unat (order (desc_at (sized_region 2) 0)) = 2"
  unfolding order_def sized_region_def set_order_def desc_at_def null_desc_def
  by (simp_all add: bf_get_set_same mask_eq_exp_minus_1)

text \<open>The same with an engine that refuses a transfer of nothing.\<close>

definition picky_answer :: "kevent list \<Rightarrow> string \<Rightarrow> int list \<Rightarrow> int" where
  "picky_answer h f xs = (if f = ''device_prep_dma_sg'' then of_bool (xs ! 1 \<noteq> 0) else first_done h f xs)"

lemma picky_answer: "kernel_collects picky_answer (\<lambda>_ a. 1 + \<bar>a\<bar>) (\<lambda>p. p)"
  by (auto simp: kernel_collects_def picky_answer_def first_done_def good_answer_def)

definition picky16 :: "mig_region \<Rightarrow> desc_p \<Rightarrow> kst" where
  "picky16 R p = (machine16 R p)\<lparr>answer := picky_answer\<rparr>"

lemma picky16_simps [simp]:
  "regs (picky16 R p) = (\<lambda>_. R)" "answer (picky16 R p) = picky_answer" "max_nr_sg (picky16 R p) = 200"
  by (simp_all add: picky16_def)

lemma picky16_ready: "chans_ready (picky16 R p)"
  by (simp add: chans_ready_def picky16_def)

section \<open>The ARM driver\<close>

text \<open>A kernel in which a migration can run: its pages are isolated, locked and mapped once; the parameter
  says whether the process writes to the page during the transfer.\<close>

definition ks2_answer :: "bool \<Rightarrow> kevent list \<Rightarrow> string \<Rightarrow> int list \<Rightarrow> int" where
  "ks2_answer race h f xs =
     (if f = ''phys40_to_dma32'' then hd xs mod 2 ^ 32
      else if f = ''alloc_pages_exact_node'' then 2
      else if f = ''isolate_lru_page'' \<or> f = ''PageTransHuge'' \<or> f = ''PageWriteback'' \<or> f = ''balloon_page_movable''
        \<or> f = ''PageUnevictable'' \<or> f = ''PageHuge'' \<or> f = ''pmd_trans_huge'' then 0
      else if f = ''__sync_bool_compare_and_swap'' then of_bool (\<not> race)
      else good_answer h f xs)"

lemma ks2_answer:
  "kernel_copies_ks2 (ks2_answer race) (\<lambda>_ a. 1 + \<bar>a\<bar>) (\<lambda>p. p) (\<lambda>a. a mod 2 ^ 32)"
  "ks2_answer race h ''device_tx_status == DMA_SUCCESS'' xs \<noteq> 0"
  using good_answer(1) by (auto simp: kernel_copies_ks2_def kernel_copies_def kernel_collects_def ks2_answer_def good_answer_def)

definition machine_ks2 :: "bool \<Rightarrow> mig_region \<Rightarrow> kst" where
  "machine_ks2 race R = (machine R 0)\<lparr>answer := ks2_answer race, pages := (\<lambda>_. \<lparr>pg_mapping = 1, pg_index = 0\<rparr>)\<rparr>"

lemma machine_ks2_simps [simp]:
  "regs (machine_ks2 b R) = (\<lambda>_. R)" "answer (machine_ks2 b R) = ks2_answer b" "max_nr_sg (machine_ks2 b R) = 200"
  "pages (machine_ks2 b R) = (\<lambda>_. \<lparr>pg_mapping = 1, pg_index = 0\<rparr>)" "hist (machine_ks2 b R) = []"
  "tables (machine_ks2 b R) t = copy_table 0" "after_free (machine_ks2 b R) t T = T"
  "infos (machine_ks2 b R) = (\<lambda>_. \<lparr>i_chan = 1, i_region = 1, reference = 0\<rparr>)"
  by (simp_all add: machine_ks2_def machine_def)

lemma machine_ks2_ok: "wf_region R own \<Longrightarrow> 0 < nfree R \<Longrightarrow> dev_ok r own (machine_ks2 b R)"
  by (simp add: dev_ok_def todo_def machine_ks2_def machine_def)

lemma machine_ks2_queues: "on_q (machine_ks2 b R) r q = contents R q" "clr (machine_ks2 b R) r = color_of R Qreq"
  by (simp_all add: on_q_def clr_def)

lemma one_page: "page_count_of (desc_at (sized_region 0) 0) = 1" "node (desc_at (sized_region 0) 0) = 0"
  "huge_page (desc_at (sized_region 0) 0) = 0"
  unfolding order_def node_def huge_page_def sized_region_def set_order_def desc_at_def null_desc_def page_count_of_def
  by (simp_all add: bf_set_def bf_get_def)

text \<open>A page is migrated while the process writes to it.\<close>

lemma ks2_lost_page:
  "\<exists>t s1 s2. issue_one_desc_mig_ks2 1 0 True 1 (machine_ks2 True (sized_region 0)) = Inr (t, s1)
    \<and> complete_pages ks2_driver t s1 = Inr ((), s2) \<and> weight races_w s2 = 1"
  by (simp add: issue_one_desc_mig_ks2_def collect_mig_ks2_def alloc_table_ks2_def alloc_sg_def check_vma_def follow_range_def
      call_array_def issue_mig_page_ks2_def mig_isolate_def mig_new_page_def mig_switch_ks2_def rmap_walk_def
      install_new_pte_ks2_def locate_new_pte_ks2_def add_rmap_def sg_add_ks2_def submit_sg_def complete_pages_def
      dma_complete_one_mig_ks2_def bindK_run seqK_run call_runs get_pg_def get_desc_def get_page_def get_info_def
      get_table_def upd_pg_def upd_table_def upd_page_def whenK_def Let_def one_page ks2_answer_def good_answer_def
      MIGTABLE_PAGE_ORDER_ks2_def PAGE_SIZE_def IS_ERR_def upt_conv_Cons weight_def races_w_def)

text \<open>A kernel whose pages nobody has mapped: a move of page 3 to page 4 is pending, charged to cgroup 7.\<close>

definition unmapped_answer :: "kevent list \<Rightarrow> string \<Rightarrow> int list \<Rightarrow> int" where
  "unmapped_answer h f xs = (if f = ''trylock_page'' \<or> f = ''page_count'' then 1
     else if f = ''mem_cgroup_prepare_migration'' then 7 else 0)"

definition unmapped :: kst where
  "unmapped = (machine fresh_region 0)\<lparr>answer := unmapped_answer\<rparr>"

lemma unmapped_simps [simp]:
  "answer unmapped = unmapped_answer" "hist unmapped = []" "tables unmapped = (\<lambda>_. copy_table 0)"
  "pages unmapped = (\<lambda>_. \<lparr>pg_mapping = 0, pg_index = 0\<rparr>)" "max_nr_sg unmapped = 200"
  by (simp_all add: unmapped_def machine_def)

lemma pending_run:
  "\<exists>s1. do_unmap_and_move_arm 1 3 4 True MIGRATE_SYNC 1 0 unmapped = Inr (PENDING, s1)
    \<and> answer s1 = unmapped_answer \<and> max_nr_sg s1 = 200"
  by (simp add: do_unmap_and_move_arm_def do_unmap_and_move_by_def unmap_locked_arm_def unmap_locked_def pin_anon_vma_def
      move_unmapped_def move_to_new_page_by_def migrate_page_arm_def migrate_page_move_mapping_arm_def
      migrate_page_copy_arm_def migrate_page_copy_by_def bindK_run seqK_run call_runs get_page_def upd_page_def upd_pg_def
      upd_table_def whenK_def unmapped_answer_def copy_table_def)

lemma pending_completes:
  assumes "answer s = unmapped_answer" and "0 < max_nr_sg s"
  shows "\<exists>s1. dma_complete_one_arm t 0 s = Inr ((), s1)"
  using assms
  by (simp add: dma_complete_one_arm_def dma_complete_one_by_def copy_page_state_def move_flag_def bindK_run seqK_run get_pg_def
      call_runs Let_def upd_page_def list_del_def whenK_def unmapped_answer_def remove_migration_ptes_def rmap_walk_def)

text \<open>A huge page, 3, and a free one, 9, on a node below its limit.\<close>

definition thp_answer :: "kevent list \<Rightarrow> string \<Rightarrow> int list \<Rightarrow> int" where
  "thp_answer h f xs = (if f = ''alloc_pages_node'' then 9 else if f = ''page_count'' then 2
     else if f = ''mem_cgroup_prepare_migration'' then 7
     else of_bool (f \<in> {''page_mapcount'', ''pgdat->nr_zones'', ''populated_zone'', ''zone_reclaimable'', ''zone_watermark_ok'', ''pmd_same''}))"

definition thp_machine :: kst where
  "thp_machine = (machine fresh_region 0)\<lparr>answer := thp_answer\<rparr>"

lemma thp_machine_simps [simp]:
  "answer thp_machine = thp_answer" "hist thp_machine = []" "pages thp_machine = (\<lambda>_. \<lparr>pg_mapping = 0, pg_index = 0\<rparr>)"
  "pgdats thp_machine = (\<lambda>_. \<lparr>numabalancing_migrate_next_window = 0, numabalancing_migrate_nr_pages = 0\<rparr>)"
  by (simp_all add: thp_machine_def machine_def)

lemma thp_ratelimit: "numamigrate_update_ratelimit pg n s = Inr (False, s\<lparr>hist := hist s
     @ [(''spin_lock'', [pg], 0), (''jiffies'', [], 0), (''msecs_to_jiffies'', [migrate_interval_millisecs], 0), (''spin_unlock'', [pg], 0)],
     pgdats := (pgdats s)(pg := (pgdats s pg)\<lparr>numabalancing_migrate_nr_pages := n\<rparr>)\<rparr>)"
  if "answer s = thp_answer" and "pgdats s pg = \<lparr>numabalancing_migrate_next_window = 0, numabalancing_migrate_nr_pages = 0\<rparr>"
  using that by (simp add: numamigrate_update_ratelimit_def bindK_run seqK_run call_runs thp_answer_def ratelimit_step_def time_after_def
      ratelimit_pages_def push_bit_eq_mult Let_def)

lemma thp_run_x86: "\<exists>s1. migrate_misplaced_transhuge_page 1 2 5 6 0x200000 3 1 thp_machine = Inr (True, s1)"
  by (simp add: migrate_misplaced_transhuge_page_def thp_ratelimit numamigrate_isolate_page_def numamigrate_isolate_by_def
      migrate_balanced_pgdat_def thp_recheck_def thp_switch_def bindK_run seqK_run call_runs get_page_def upd_page_def whenK_def
      Let_def thp_answer_def numeral_eq_Suc)

lemma thp_run_arm: "\<exists>s1. migrate_misplaced_transhuge_page_arm 1 2 5 6 0x200000 3 1 thp_machine = Inr (True, s1)"
  by (simp add: migrate_misplaced_transhuge_page_arm_def thp_ratelimit numamigrate_isolate_page_arm_def numamigrate_isolate_by_def
      migrate_balanced_pgdat_arm_def thp_recheck_arm_def thp_switch_arm_def thp_out_arm_def bindK_run seqK_run call_runs get_page_def
      upd_page_def whenK_def Let_def thp_answer_def numeral_eq_Suc)

section \<open>A user with a request\<close>

text \<open>The file with descriptor 3 is open, and \<^verbatim>\<open>copy_from_user\<close> succeeds.\<close>

definition write_answer :: "kevent list \<Rightarrow> string \<Rightarrow> int list \<Rightarrow> int" where
  "write_answer h f xs = (if f = ''copy_from_user'' then 0 else good_answer h f xs)"

lemma write_answer:
  "kernel_copies write_answer (\<lambda>_ a. 1 + \<bar>a\<bar>) (\<lambda>p. p)" "write_answer h ''device_tx_status == DMA_COMPLETE'' xs \<noteq> 0"
  using good_answer(1) by (auto simp: kernel_copies_def kernel_collects_def write_answer_def good_answer_def)

definition user_machine :: kst where
  "user_machine = (machine fresh_region 0)\<lparr>answer := write_answer\<rparr>"

lemma user_machine:
  "dev_ok 1 {} user_machine" "Suc (todo user_machine 1) < nfree (regs user_machine 1)" "clr user_machine 1 = COLOR_USR"
  "roomy write_answer user_machine" "opened user_machine 3 5 1" "log_reap user_machine 1 = []"
  "q \<in> set live_qs \<Longrightarrow> on_q user_machine 1 q = []" "files user_machine 3 = 7" "filp_priv user_machine 7 = 0" "todo user_machine r = 0"
  using fresh_region
  by (simp_all add: user_machine_def machine_def dev_ok_def todo_def clr_def on_q_def roomy_def opened_def write_answer_def)

text \<open>A kernel with \<open>k\<close> DMA channels.\<close>

definition few_answer :: "nat \<Rightarrow> kevent list \<Rightarrow> string \<Rightarrow> int list \<Rightarrow> int" where
  "few_answer k h f xs = (if f = ''dma_request_channel DMA_MEMCPY'' then of_bool (requests h < k) else write_answer h f xs)"

definition few_channels :: "nat \<Rightarrow> kst" where
  "few_channels k = user_machine\<lparr>answer := few_answer k\<rparr>"

lemma few_answer:
  "few_answer k h ''debugfs_create_file'' xs \<noteq> 0" "gives_channels k (few_answer k)"
  "kernel_collects (few_answer k) (\<lambda>_ a. 1 + \<bar>a\<bar>) (\<lambda>p. p)" "takes_transfers (few_answer k)"
  "few_answer k h ''copy_from_user'' [u, 4] = 0"
  by (auto simp: few_answer_def gives_channels_def kernel_collects_def takes_transfers_def write_answer_def good_answer_def)

lemma few_channels:
  "roomy (few_answer k) (few_channels k)" "requests (hist (few_channels k)) = 0" "filp_priv (few_channels k) 7 = 0"
  "files (few_channels k) 3 = 7" "todo (few_channels k) r = 0"
  using user_machine by (simp_all add: few_channels_def user_machine_def machine_def roomy_def todo_def)

end
