(* ===== verification/Steps.thy ===== *)
theory Steps
  imports MigRegion
begin

text \<open>
  The operations of \<^verbatim>\<open>libsmm/migqueue.c\<close> one access to the shared memory at a time, as any number of
  user threads and the driver run them.  A thread is a point of its program (\<open>pc\<close>) with the values
  of its locals there; \<open>step\<close> performs the next access.  Loads and stores of a link are single
  accesses, stores become visible in program order.

  The first result ties the two models of the library together: a thread that runs alone does what
  the operations of \<open>FreeList\<close> and \<open>MigQueue\<close> do.
\<close>

section \<open>Programs\<close>

datatype result = Color color_t | Desc "desc_p option" | Added

text \<open>What follows a call of \<^verbatim>\<open>freelist_remove\<close> or \<^verbatim>\<open>freelist_add\<close>: the return to the client, the
  rest of the round of a dequeue that needed a replica, the \<^verbatim>\<open>return\<close> of a dequeue.\<close>

datatype cont = To_client | Replica qid mig_desc_ptr mig_desc_ptr | Deq_return "desc_p option"

datatype pc =
    Idle | Done result
  | Enq_start qid desc_p
  | Enq_tail qid desc_p mig_desc_ptr
  | Enq_next qid desc_p mig_desc_ptr mig_desc_ptr
  | Enq_check qid desc_p mig_desc_ptr mig_desc_ptr mig_desc_ptr
  | Enq_color qid desc_p mig_desc_ptr mig_desc_ptr mig_desc_ptr
  | Enq_link qid desc_p mig_desc_ptr mig_desc_ptr mig_desc_ptr
  | Enq_help qid desc_p mig_desc_ptr mig_desc_ptr
  | Enq_swing qid desc_p mig_desc_ptr mig_desc_ptr
  | Col_head qid color_t
  | Col_tail qid color_t mig_desc_ptr
  | Col_next qid color_t mig_desc_ptr mig_desc_ptr
  | Col_check qid color_t mig_desc_ptr mig_desc_ptr mig_desc_ptr
  | Col_link qid color_t mig_desc_ptr mig_desc_ptr
  | Rem_top cont
  | Rem_next cont mig_desc_ptr
  | Rem_swap cont mig_desc_ptr mig_desc_ptr
  | Add_count cont desc_p
  | Add_top cont mig_desc_ptr
  | Add_link cont mig_desc_ptr mig_desc_ptr
  | Add_swap cont mig_desc_ptr mig_desc_ptr
  | Deq_head qid "desc_p option"
  | Deq_tail qid "desc_p option" mig_desc_ptr
  | Deq_next qid "desc_p option" mig_desc_ptr mig_desc_ptr
  | Deq_check qid "desc_p option" mig_desc_ptr mig_desc_ptr mig_desc_ptr
  | Deq_help qid "desc_p option" mig_desc_ptr mig_desc_ptr
  | Deq_copy0 qid desc_p mig_desc_ptr mig_desc_ptr
  | Deq_copy1 qid desc_p mig_desc_ptr mig_desc_ptr
  | Deq_copy_color qid desc_p mig_desc_ptr mig_desc_ptr
  | Deq_swap qid desc_p mig_desc_ptr mig_desc_ptr

section \<open>Steps\<close>

definition enq_step :: "qid \<Rightarrow> desc_p \<Rightarrow> mig_desc_ptr \<Rightarrow> mig_desc_ptr \<Rightarrow> mig_desc_ptr \<Rightarrow> mig_region \<Rightarrow> fault + pc \<times> mig_region" where
  "enq_step q p tmp tail nx r =
     (if raw tail = raw (q_tail (queues r q)) then
        if mp_index nx = BADINDEX then
          Inr (Enq_color q p (tmp\<lparr>mp_index := desc_to_index r p, mp_color := mp_color nx\<rparr>) tail nx, r)
        else Inr (Enq_help q p (tmp\<lparr>mp_index := mp_index nx, mp_count := mp_count tail + 1\<rparr>) tail, r)
      else Inr (Enq_tail q p tmp, r))"

definition enq_color_step :: "qid \<Rightarrow> desc_p \<Rightarrow> mig_desc_ptr \<Rightarrow> mig_desc_ptr \<Rightarrow> mig_desc_ptr \<Rightarrow> mig_region \<Rightarrow> fault + pc \<times> mig_region" where
  "enq_color_step q p tmp tail nx r =
     (if sint (mp_color tmp) < 0 then Inl Bug
      else Inr (Enq_link q p (tmp\<lparr>mp_count := mp_count nx + 1\<rparr>) tail nx,
        set_next p ((nxt (desc_at r p))\<lparr>mp_color := mp_color nx\<rparr>) r))"

definition enq_link_step :: "qid \<Rightarrow> desc_p \<Rightarrow> mig_desc_ptr \<Rightarrow> mig_desc_ptr \<Rightarrow> mig_desc_ptr \<Rightarrow> mig_region \<Rightarrow> fault + pc \<times> mig_region" where
  "enq_link_step q p tmp tail nx r =
     bindE (index_to_desc r (mp_index tail)) (\<lambda>t.
     case cas_next t nx tmp r of
       (True, r2) \<Rightarrow> Inr (Enq_swing q p (tmp\<lparr>mp_index := desc_to_index r p, mp_count := mp_count tail + 1\<rparr>) tail, r2)
     | (False, r2) \<Rightarrow> Inr (Enq_tail q p tmp, r2))"

definition col_check_step :: "qid \<Rightarrow> color_t \<Rightarrow> mig_desc_ptr \<Rightarrow> mig_desc_ptr \<Rightarrow> mig_desc_ptr \<Rightarrow> mig_region \<Rightarrow> fault + pc \<times> mig_region" where
  "col_check_step q c head tail nx r =
     (if raw head = raw (q_head (queues r q)) then
        if mp_index head \<noteq> mp_index tail then Inr (Done (Color (-1)), r)
        else if mp_index nx \<noteq> BADINDEX then Inr (Done (Color (-1)), r)
        else Inr (Col_link q c head nx, r)
      else Inr (Col_head q c, r))"

definition col_link_step :: "qid \<Rightarrow> color_t \<Rightarrow> mig_desc_ptr \<Rightarrow> mig_desc_ptr \<Rightarrow> mig_region \<Rightarrow> fault + pc \<times> mig_region" where
  "col_link_step q c head nx r =
     bindE (index_to_desc r (mp_index head)) (\<lambda>h.
     case cas_next h nx (nx\<lparr>mp_color := c, mp_count := mp_count nx + 1\<rparr>) r of
       (True, r2) \<Rightarrow> Inr (Done (Color (mp_color nx)), r2)
     | (False, r2) \<Rightarrow> Inr (Col_head q c, r2))"

text \<open>Where a freelist call returns to.\<close>

fun removed :: "cont \<Rightarrow> desc_p option \<Rightarrow> fault + pc" where
  "removed (Replica q head nx) None = Inl Bug"
| "removed (Replica q head nx) (Some p) = Inr (Deq_copy0 q p head nx)"
| "removed k po = Inr (Done (Desc po))"

fun added :: "cont \<Rightarrow> pc" where
  "added (Deq_return po) = Done (Desc po)"
| "added k = Done Added"

definition rem_swap_step :: "cont \<Rightarrow> mig_desc_ptr \<Rightarrow> mig_desc_ptr \<Rightarrow> mig_region \<Rightarrow> fault + pc \<times> mig_region" where
  "rem_swap_step k tp tmp r =
     (case cas_top tp tmp r of
        (True, r2) \<Rightarrow> bindE (index_to_desc r2 (mp_index tp)) (\<lambda>p.
          bindE (guardE Assert_failed (refcnt (desc_at r2 p) = 0)) (\<lambda>_.
          bindE (removed k (Some p)) (\<lambda>c. Inr (c, r2))))
      | (False, r2) \<Rightarrow> Inr (Rem_top k, r2))"

definition deq_check_step ::
  "qid \<Rightarrow> desc_p option \<Rightarrow> mig_desc_ptr \<Rightarrow> mig_desc_ptr \<Rightarrow> mig_desc_ptr \<Rightarrow> mig_region \<Rightarrow> fault + pc \<times> mig_region"
where
  "deq_check_step q ret head tail nx r =
     (if raw head = raw (q_head (queues r q)) then
        if mp_index tail = mp_index head then
          if mp_index nx = BADINDEX then
            (case ret of
               Some p \<Rightarrow> Inr (Add_count (Deq_return None) p, r)
             | None \<Rightarrow> Inr (Done (Desc None), r))
          else Inr (Deq_help q ret tail (nx\<lparr>mp_count := mp_count tail + 1\<rparr>), r)
        else bindE (guardE Assert_failed (mp_index nx \<noteq> BADINDEX)) (\<lambda>_.
          let nx1 = nx\<lparr>mp_count := mp_count head + 1\<rparr> in
          case ret of
            Some p \<Rightarrow> Inr (Deq_copy0 q p head nx1, r)
          | None \<Rightarrow> Inr (Rem_top (Replica q head nx1), r))
      else Inr (Deq_head q ret, r))"

text \<open>One member of the dequeued descriptor copied to the replica.\<close>

definition copy_step :: "(mig_desc \<Rightarrow> mig_desc \<Rightarrow> mig_desc) \<Rightarrow> pc \<Rightarrow> desc_p \<Rightarrow> mig_desc_ptr \<Rightarrow> mig_region \<Rightarrow> fault + pc \<times> mig_region" where
  "copy_step f c p nx r = bindE (index_to_desc r (mp_index nx)) (\<lambda>d. Inr (c, upd_desc p (f (desc_at r d)) r))"

definition deq_swap_step :: "qid \<Rightarrow> desc_p \<Rightarrow> mig_desc_ptr \<Rightarrow> mig_desc_ptr \<Rightarrow> mig_region \<Rightarrow> fault + pc \<times> mig_region" where
  "deq_swap_step q p head nx r =
     (case cas_head q head nx r of
        (True, r2) \<Rightarrow> bindE (index_to_desc r2 (mp_index head)) (\<lambda>h. Inr (Add_count (Deq_return (Some p)) h, r2))
      | (False, r2) \<Rightarrow> Inr (Deq_head q (Some p), r2))"

fun step :: "pc \<Rightarrow> mig_region \<Rightarrow> fault + pc \<times> mig_region" where
  "step Idle r = Inr (Idle, r)"
| "step (Done x) r = Inr (Done x, r)"
| "step (Enq_start q p) r = Inr (Enq_tail q p (stk r), set_next p ((nxt (desc_at r p))\<lparr>mp_index := BADINDEX\<rparr>) r)"
| "step (Enq_tail q p tmp) r = Inr (Enq_next q p tmp (q_tail (queues r q)), r)"
| "step (Enq_next q p tmp tail) r =
     bindE (index_to_desc r (mp_index tail)) (\<lambda>t. Inr (Enq_check q p tmp tail (nxt (desc_at r t)), r))"
| "step (Enq_check q p tmp tail nx) r = enq_step q p tmp tail nx r"
| "step (Enq_color q p tmp tail nx) r = enq_color_step q p tmp tail nx r"
| "step (Enq_link q p tmp tail nx) r = enq_link_step q p tmp tail nx r"
| "step (Enq_help q p tmp tail) r = Inr (Enq_tail q p tmp, snd (cas_tail q tail tmp r))"
| "step (Enq_swing q p tmp tail) r = Inr (Done (Color (mp_color tmp)), snd (cas_tail q tail tmp r))"
| "step (Col_head q c) r = Inr (Col_tail q c (q_head (queues r q)), r)"
| "step (Col_tail q c head) r =
     bindE (guardE Assert_failed (mp_index head \<noteq> BADINDEX)) (\<lambda>_. Inr (Col_next q c head (q_tail (queues r q)), r))"
| "step (Col_next q c head tail) r =
     bindE (index_to_desc r (mp_index head)) (\<lambda>h. Inr (Col_check q c head tail (nxt (desc_at r h)), r))"
| "step (Col_check q c head tail nx) r = col_check_step q c head tail nx r"
| "step (Col_link q c head nx) r = col_link_step q c head nx r"
| "step (Rem_top k) r =
     (let tp = fl_top (freelist r) in
      if mp_index tp = BADINDEX then bindE (removed k None) (\<lambda>c. Inr (c, r)) else Inr (Rem_next k tp, r))"
| "step (Rem_next k tp) r =
     bindE (index_to_desc r (mp_index tp)) (\<lambda>p. Inr (Rem_swap k tp (nxt (desc_at r p)), r))"
| "step (Rem_swap k tp tmp) r = rem_swap_step k tp tmp r"
| "step (Add_count k p) r =
     bindE (guardE Assert_failed (refcnt (desc_at r p) = 0)) (\<lambda>_.
     let aba = fl_aba_counter (freelist r) + 1 in
     Inr (Add_top k ((stk r)\<lparr>mp_count := ucast aba, mp_index := desc_to_index r p\<rparr>),
       r\<lparr>freelist := (freelist r)\<lparr>fl_aba_counter := aba\<rparr>\<rparr>))"
| "step (Add_top k tmp) r = Inr (Add_link k tmp (fl_top (freelist r)), r)"
| "step (Add_link k tmp tp) r =
     bindE (index_to_desc r (mp_index tmp)) (\<lambda>p. Inr (Add_swap k tmp tp, set_next p tp r))"
| "step (Add_swap k tmp tp) r =
     (case cas_top tp tmp r of (True, r2) \<Rightarrow> Inr (added k, r2) | (False, r2) \<Rightarrow> Inr (Add_top k tmp, r2))"
| "step (Deq_head q ret) r = Inr (Deq_tail q ret (q_head (queues r q)), r)"
| "step (Deq_tail q ret head) r =
     bindE (guardE Assert_failed (mp_index head \<noteq> BADINDEX)) (\<lambda>_. Inr (Deq_next q ret head (q_tail (queues r q)), r))"
| "step (Deq_next q ret head tail) r =
     bindE (index_to_desc r (mp_index head)) (\<lambda>h. Inr (Deq_check q ret head tail (nxt (desc_at r h)), r))"
| "step (Deq_check q ret head tail nx) r = deq_check_step q ret head tail nx r"
| "step (Deq_help q ret tail nx) r = Inr (Deq_head q ret, snd (cas_tail q tail nx r))"
| "step (Deq_copy0 q p head nx) r = copy_step (\<lambda>d n. n\<lparr>word0 := word0 d\<rparr>) (Deq_copy1 q p head nx) p nx r"
| "step (Deq_copy1 q p head nx) r = copy_step (\<lambda>d n. n\<lparr>word1 := word1 d\<rparr>) (Deq_copy_color q p head nx) p nx r"
| "step (Deq_copy_color q p head nx) r =
     copy_step (\<lambda>d n. n\<lparr>nxt := (nxt n)\<lparr>mp_color := mp_color (nxt d)\<rparr>\<rparr>) (Deq_swap q p head nx) p nx r"
| "step (Deq_swap q p head nx) r = deq_swap_step q p head nx r"

lemmas step_defs = enq_step_def enq_color_step_def enq_link_step_def col_check_step_def col_link_step_def
  rem_swap_step_def deq_check_step_def copy_step_def deq_swap_step_def

lemma index_to_desc_cong: "ndescs r1 = ndescs r \<Longrightarrow> index_to_desc r1 i = index_to_desc r i"
  by (simp add: index_to_desc_def)

lemma index_to_desc_frame [simp]: "index_to_desc (set_next p v r) i = index_to_desc r i"
  "index_to_desc (set_top v r) i = index_to_desc r i"
  by (simp_all add: index_to_desc_def)

section \<open>A thread that runs alone\<close>

fun run :: "nat \<Rightarrow> pc \<Rightarrow> mig_region \<Rightarrow> fault + pc \<times> mig_region" where
  "run 0 c r = Inr (c, r)"
| "run (Suc n) c r = bindE (step c r) (\<lambda>(c1, r1). run n c1 r1)"

text \<open>What the caller of an operation gets in the end: a fault, or a result and the memory.\<close>

definition finishes :: "pc \<Rightarrow> mig_region \<Rightarrow> fault + result \<times> mig_region \<Rightarrow> bool" where
  "finishes c r x \<longleftrightarrow> (\<exists>n. run n c r = (case x of Inl e \<Rightarrow> Inl e | Inr (y, r1) \<Rightarrow> Inr (Done y, r1)))"

definition goes :: "fault + pc \<times> mig_region \<Rightarrow> fault + result \<times> mig_region \<Rightarrow> bool" where
  "goes m x = (case m of Inl e \<Rightarrow> x = Inl e | Inr (c, r) \<Rightarrow> finishes c r x)"

lemma goes_simps [simp]: "goes (Inl e) x \<longleftrightarrow> x = Inl e" "goes (Inr (c, r)) x \<longleftrightarrow> finishes c r x"
  by (simp_all add: goes_def)

lemma run_Done [simp]: "run n (Done y) r = Inr (Done y, r)"
  by (induction n) simp_all

lemma finishes_Done [simp]: "finishes (Done y) r x \<longleftrightarrow> x = Inr (y, r)"
  by (auto simp: finishes_def split: sum.splits prod.splits)

text \<open>Unfolding one step of a thread that has not returned.\<close>

lemma finishes_step:
  assumes "\<And>y. c \<noteq> Done y"
  shows "finishes c r x \<longleftrightarrow> goes (step c r) x"
proof
  assume "finishes c r x"
  then obtain n where n: "run n c r = (case x of Inl e \<Rightarrow> Inl e | Inr (y, r1) \<Rightarrow> Inr (Done y, r1))" by (auto simp: finishes_def)
  then obtain m where m: "n = Suc m" using assms by (cases n) (auto split: sum.splits)
  show "goes (step c r) x"
  proof (cases "step c r")
    case (Inr a)
    then show ?thesis using n m by (cases a) (auto simp: finishes_def)
  qed (use n m in \<open>auto split: sum.splits\<close>)
next
  assume g: "goes (step c r) x"
  show "finishes c r x"
  proof (cases "step c r")
    case (Inl e)
    then have "run 1 c r = Inl e" "x = Inl e" using g by simp_all
    then show ?thesis unfolding finishes_def by (intro exI [of _ 1]) simp
  next
    case (Inr a)
    then obtain n where "run n (fst a) (snd a) = (case x of Inl e \<Rightarrow> Inl e | Inr (y, r1) \<Rightarrow> Inr (Done y, r1))"
      using g by (cases a) (auto simp: finishes_def)
    then have "run (Suc n) c r = (case x of Inl e \<Rightarrow> Inl e | Inr (y, r1) \<Rightarrow> Inr (Done y, r1))"
      using Inr by (cases a) simp
    then show ?thesis unfolding finishes_def ..
  qed
qed

text \<open>The program points inside a round are stepped through by the simplifier, loop heads by hand.\<close>

lemma finishes_inner [simp]:
  "finishes (Enq_start q p) r x = goes (step (Enq_start q p) r) x"
  "finishes (Enq_next q p tmp tail) r x = goes (step (Enq_next q p tmp tail) r) x"
  "finishes (Enq_check q p tmp tail nx) r x = goes (step (Enq_check q p tmp tail nx) r) x"
  "finishes (Enq_color q p tmp tail nx) r x = goes (step (Enq_color q p tmp tail nx) r) x"
  "finishes (Enq_link q p tmp tail nx) r x = goes (step (Enq_link q p tmp tail nx) r) x"
  "finishes (Enq_help q p tmp tail) r x = goes (step (Enq_help q p tmp tail) r) x"
  "finishes (Enq_swing q p tmp tail) r x = goes (step (Enq_swing q p tmp tail) r) x"
  "finishes (Col_tail q c h) r x = goes (step (Col_tail q c h) r) x"
  "finishes (Col_next q c h tail) r x = goes (step (Col_next q c h tail) r) x"
  "finishes (Col_check q c h tail nx) r x = goes (step (Col_check q c h tail nx) r) x"
  "finishes (Col_link q c h nx) r x = goes (step (Col_link q c h nx) r) x"
  "finishes (Rem_next k tp) r x = goes (step (Rem_next k tp) r) x"
  "finishes (Rem_swap k tp tmp) r x = goes (step (Rem_swap k tp tmp) r) x"
  "finishes (Add_link k tmp tp) r x = goes (step (Add_link k tmp tp) r) x"
  "finishes (Add_swap k tmp tp) r x = goes (step (Add_swap k tmp tp) r) x"
  "finishes (Deq_tail q ret h) r x = goes (step (Deq_tail q ret h) r) x"
  "finishes (Deq_next q ret h tail) r x = goes (step (Deq_next q ret h tail) r) x"
  "finishes (Deq_check q ret h tail nx) r x = goes (step (Deq_check q ret h tail nx) r) x"
  "finishes (Deq_help q ret tail nx) r x = goes (step (Deq_help q ret tail nx) r) x"
  "finishes (Deq_copy1 q p h nx) r x = goes (step (Deq_copy1 q p h nx) r) x"
  "finishes (Deq_copy_color q p h nx) r x = goes (step (Deq_copy_color q p h nx) r) x"
  "finishes (Deq_swap q p h nx) r x = goes (step (Deq_swap q p h nx) r) x"
  by (rule finishes_step, simp)+

lemma finishes_heads:
  "finishes (Enq_tail q p tmp) r x = goes (step (Enq_tail q p tmp) r) x"
  "finishes (Col_head q c) r x = goes (step (Col_head q c) r) x"
  "finishes (Deq_head q ret) r x = goes (step (Deq_head q ret) r) x"
  by (rule finishes_step, simp)+

lemma finishes_calls:
  "finishes (Rem_top k) r x = goes (step (Rem_top k) r) x"
  "finishes (Add_count k p) r x = goes (step (Add_count k p) r) x"
  "finishes (Add_top k tmp) r x = goes (step (Add_top k tmp) r) x"
  "finishes (Deq_copy0 q p h nx) r x = goes (step (Deq_copy0 q p h nx) r) x"
  by (rule finishes_step, simp)+

definition outcome :: "('a \<Rightarrow> result) \<Rightarrow> fault + 'a \<times> mig_region \<Rightarrow> fault + result \<times> mig_region" where
  "outcome f x = bindE x (\<lambda>(y, r). Inr (f y, r))"

lemma outcome_simps [simp]: "outcome f (Inl e) = Inl e" "outcome f (Inr (y, r)) = Inr (f y, r)"
  by (simp_all add: outcome_def)

lemma set_color_alone:
  "set_color_loop n r q c \<noteq> Inl Spin \<Longrightarrow> finishes (Col_head q c) r (outcome Color (set_color_loop n r q c))"
proof (induction n arbitrary: r)
  case (Suc n)
  show ?case
  proof (cases "mp_index (q_head (queues r q)) = BADINDEX")
    case False
    then show ?thesis
      by (cases "index_to_desc r (mp_index (q_head (queues r q)))")
        (auto simp: loop_simps finishes_heads step_defs Let_def cas_next_def)
  qed (simp add: loop_simps finishes_heads)
qed simp

text \<open>The calls of the free list, with whatever follows them.\<close>

lemma Rem_alone:
  "finishes (Rem_top k) r x = goes (bindE (freelist_remove r) (\<lambda>(po, r1). bindE (removed k po) (\<lambda>c. Inr (c, r1)))) x"
  by (cases "index_to_desc r (mp_index (fl_top (freelist r)))")
    (auto simp: freelist_remove_def finishes_calls step_defs Let_def cas_top_def guardE_def index_to_desc_def)

lemma Add_alone:
  "finishes (Add_count k p) r x = goes (bindE (freelist_add r p) (\<lambda>r1. Inr (added k, r1))) x"
  by (auto simp: freelist_add_def finishes_calls Let_def cas_top_def guardE_def index_to_desc_def desc_to_index_def)

lemma freelist_remove_alone: "finishes (Rem_top To_client) r (outcome Desc (freelist_remove r))"
  by (cases "freelist_remove r") (auto simp: Rem_alone)

lemma freelist_add_alone: "finishes (Add_count To_client p) r (bindE (freelist_add r p) (\<lambda>r1. Inr (Added, r1)))"
  by (cases "freelist_add r p") (auto simp: Add_alone)

text \<open>Enqueue: the loop, then the last swing of the tail.\<close>

definition enq_end :: "qid \<Rightarrow> desc_p \<Rightarrow> mig_desc_ptr \<times> mig_desc_ptr \<times> mig_region \<Rightarrow> fault + color_t \<times> mig_region" where
  "enq_end q p x = (case x of (tail, tmp, r) \<Rightarrow>
     Inr (mp_color tmp, snd (cas_tail q tail (tmp\<lparr>mp_index := desc_to_index r p, mp_count := mp_count tail + 1\<rparr>) r)))"

lemma enq_end_apply [simp]: "enq_end q p (tail, tmp, r) =
    Inr (mp_color tmp, snd (cas_tail q tail (tmp\<lparr>mp_index := of_nat p, mp_count := mp_count tail + 1\<rparr>) r))"
  by (simp add: enq_end_def desc_to_index_def)

lemma enq_loop_alone:
  "enq_loop n r q p tmp \<noteq> Inl Spin \<Longrightarrow>
   finishes (Enq_tail q p tmp) r (outcome Color (bindE (enq_loop n r q p tmp) (enq_end q p)))"
proof (induction n arbitrary: r tmp)
  case (Suc n)
  show ?case
    unfolding finishes_heads(1) using Suc
    by (cases "index_to_desc r (mp_index (q_tail (queues r q)))")
      (auto simp: loop_simps step_defs Let_def cas_next_def desc_to_index_def)
qed simp

lemma mig_enqueue_alone:
  assumes "mig_enqueue r q p \<noteq> Inl Spin"
  shows "finishes (Enq_start q p) r (outcome Color (mig_enqueue r q p))"
proof -
  let ?r = "set_next p ((nxt (desc_at r p))\<lparr>mp_index := BADINDEX\<rparr>) r"
  have e: "mig_enqueue r q p = bindE (enq_loop (loop_fuel r) ?r q p (stk r)) (enq_end q p)"
    by (simp add: mig_enqueue_def Let_def enq_end_def [abs_def] split_def)
  then have "enq_loop (loop_fuel r) ?r q p (stk r) \<noteq> Inl Spin" using assms by auto
  from enq_loop_alone [OF this] show ?thesis by (simp add: e)
qed

text \<open>Dequeue.\<close>

lemma replicate_by_members:
  defines "f0 \<equiv> \<lambda>d n. n\<lparr>word0 := word0 d\<rparr>" and "f1 \<equiv> \<lambda>d n. n\<lparr>word1 := word1 d\<rparr>"
    and "f2 \<equiv> \<lambda>d n. n\<lparr>nxt := (nxt n)\<lparr>mp_color := mp_color (nxt d)\<rparr>\<rparr>"
  assumes "r1 = upd_desc p (f0 (desc_at r d)) r" and "r2 = upd_desc p (f1 (desc_at r1 d)) r1"
  shows "upd_desc p (f2 (desc_at r2 d)) r2 = migdesc_replicate r p d"
proof (cases "p < length (desc_array r)")
  case True
  then show ?thesis
    unfolding assms migdesc_replicate_def Let_def
    by (cases "d = p") (simp_all add: upd_desc_def desc_at_def)
qed (simp add: assms migdesc_replicate_def Let_def upd_desc_def list_update_beyond)

lemma copy_alone:
  "finishes (Deq_copy0 q p h nx) r x
   = goes (bindE (index_to_desc r (mp_index nx)) (\<lambda>d. step (Deq_swap q p h nx) (migdesc_replicate r p d))) x"
proof (cases "index_to_desc r (mp_index nx)")
  case (Inr d)
  then have i: "ndescs r1 = ndescs r \<Longrightarrow> index_to_desc r1 (mp_index nx) = Inr d" for r1
    using index_to_desc_cong by metis
  show ?thesis
    by (simp add: finishes_calls copy_step_def Inr i replicate_by_members)
qed (simp add: finishes_calls copy_step_def)

definition deq_finish :: "nat \<Rightarrow> qid \<Rightarrow> desc_p \<Rightarrow> mig_desc_ptr \<Rightarrow> mig_desc_ptr \<Rightarrow> mig_region \<Rightarrow> fault + desc_p option \<times> mig_region" where
  "deq_finish n q p h nx r = bindE (index_to_desc r (mp_index nx)) (\<lambda>d.
    case cas_head q h nx (migdesc_replicate r p d) of
      (True, r3) \<Rightarrow> bindE (index_to_desc r3 (mp_index h)) (\<lambda>oldh.
        bindE (freelist_add r3 oldh) (\<lambda>r4. Inr (Some p, r4)))
    | (False, r3) \<Rightarrow> deq_loop n r3 q (Some p))"

lemma deq_swap_alone:
  assumes "\<And>r1. deq_loop n r1 q (Some p) \<noteq> Inl Spin \<Longrightarrow> finishes (Deq_head q (Some p)) r1 (outcome Desc (deq_loop n r1 q (Some p)))"
  assumes "deq_finish n q p h nx r \<noteq> Inl Spin"
  shows "finishes (Deq_copy0 q p h nx) r (outcome Desc (deq_finish n q p h nx r))"
proof (cases "index_to_desc r (mp_index nx)")
  case (Inr d)
  show ?thesis
  proof (cases "raw (q_head (queues (migdesc_replicate r p d) q)) = raw h")
    case True
    define r3 where "r3 = set_head q nx (migdesc_replicate r p d)"
    have b: "deq_finish n q p h nx r = bindE (index_to_desc r3 (mp_index h)) (\<lambda>oldh. bindE (freelist_add r3 oldh) (\<lambda>r4. Inr (Some p, r4)))"
      using True Inr by (simp add: deq_finish_def cas_head_def r3_def)
    have e: "finishes (Deq_copy0 q p h nx) r x = goes (bindE (index_to_desc r3 (mp_index h))
        (\<lambda>oldh. Inr (Add_count (Deq_return (Some p)) oldh, r3))) x" for x
      using True Inr by (simp add: copy_alone deq_swap_step_def cas_head_def r3_def)
    show ?thesis
    proof (cases "index_to_desc r3 (mp_index h)")
      case (Inr oldh)
      then show ?thesis unfolding e b by (cases "freelist_add r3 oldh") (simp_all add: Add_alone)
    qed (simp add: e b)
  next
    case False
    then show ?thesis
      using assms Inr by (simp add: deq_finish_def copy_alone deq_swap_step_def cas_head_def)
  qed
qed (simp add: deq_finish_def copy_alone)

lemma deq_loop_alone:
  "deq_loop n r q ret \<noteq> Inl Spin \<Longrightarrow> finishes (Deq_head q ret) r (outcome Desc (deq_loop n r q ret))"
proof (induction n arbitrary: r ret)
  case (Suc n)
  let ?h = "q_head (queues r q)" and ?t = "q_tail (queues r q)"
  show ?case
  proof (cases "mp_index ?h \<noteq> BADINDEX \<and> index_to_desc r (mp_index ?h) \<noteq> Inl Assert_failed")
    case False
    then show ?thesis
      by (cases "mp_index ?h = BADINDEX") (simp_all add: loop_simps finishes_heads)
  next
    case True
    then obtain h where h: "index_to_desc r (mp_index ?h) = Inr h"
      by (auto simp: index_to_desc_def guardE_def split: if_splits)
    let ?n = "nxt (desc_at r h)"
    show ?thesis
    proof (cases "mp_index ?t = mp_index ?h")
      case True': True
      show ?thesis
      proof (cases ret)
        case (Some p)
        then show ?thesis
          unfolding finishes_heads(3) using Suc True True' h
          by (cases "freelist_add r p") (auto simp: loop_simps deq_check_step_def Let_def Add_alone)
      qed (unfold finishes_heads(3), use Suc True True' h in \<open>auto simp: loop_simps deq_check_step_def Let_def\<close>)
    next
      case False
      show ?thesis
      proof (cases "mp_index ?n = BADINDEX")
        case False': False
        let ?nx = "?n\<lparr>mp_count := mp_count ?h + 1\<rparr>"
        have sw: "deq_finish n q p ?h ?nx r1 \<noteq> Inl Spin \<Longrightarrow>
          finishes (Deq_copy0 q p ?h ?nx) r1 (outcome Desc (deq_finish n q p ?h ?nx r1))" for p r1
          by (rule deq_swap_alone [OF Suc.IH])
        show ?thesis
        proof (cases ret)
          case None
          show ?thesis
          proof (cases "freelist_remove r")
            case (Inr a)
            obtain po r1 where a: "a = (po, r1)" by (cases a)
            show ?thesis
              unfolding finishes_heads(3) using Suc.prems True False False' h None Inr a sw [of "the po" r1]
              by (cases po) (auto simp: loop_simps deq_check_step_def Let_def Rem_alone deq_finish_def)
          qed (unfold finishes_heads(3), use True False False' h None in \<open>simp add: loop_simps deq_check_step_def Let_def Rem_alone\<close>)
        next
          case (Some p)
          show ?thesis
            unfolding finishes_heads(3) using Suc.prems True False False' h Some sw [of p r]
            by (auto simp: loop_simps deq_check_step_def Let_def deq_finish_def)
        qed
      qed (unfold finishes_heads(3), use True False h in \<open>simp add: loop_simps deq_check_step_def\<close>)
    qed
  qed
qed simp

lemma mig_dequeue_alone: "mig_dequeue r q \<noteq> Inl Spin \<Longrightarrow> finishes (Deq_head q None) r (outcome Desc (mig_dequeue r q))"
  unfolding mig_dequeue_def by (rule deq_loop_alone)

lemma set_color_if_empty_alone:
  "migqueue_set_color_if_empty r q c \<noteq> Inl Spin \<Longrightarrow>
   finishes (Col_head q c) r (outcome Color (migqueue_set_color_if_empty r q c))"
  unfolding migqueue_set_color_if_empty_def by (rule set_color_alone)


text \<open>On a well-formed region no operation runs out of fuel.\<close>

lemma wf_no_spin:
  assumes "wf_region r own" and "q \<in> set live_qs"
  shows "p \<in> own \<Longrightarrow> mig_enqueue r q p \<noteq> Inl Spin" "mig_dequeue r q \<noteq> Inl Spin"
    "0 \<le> sint c \<Longrightarrow> migqueue_set_color_if_empty r q c \<noteq> Inl Spin"
proof -
  show "p \<in> own \<Longrightarrow> mig_enqueue r q p \<noteq> Inl Spin" using wf_enqueue [OF assms, of p] by auto
  show "mig_dequeue r q \<noteq> Inl Spin"
    using wf_dequeue_empty [OF assms] wf_dequeue_exhausted [OF assms] wf_dequeue [OF assms]
    by (cases "contents r q = []"; cases "nfree r = 0") auto
  show "0 \<le> sint c \<Longrightarrow> migqueue_set_color_if_empty r q c \<noteq> Inl Spin"
    using wf_set_color_busy [OF assms] wf_set_color [OF assms, of c] by (cases "contents r q = []") auto
qed

end
