(* ===== verification/Interleave.thy ===== *)
theory Interleave
  imports Steps
begin

text \<open>
  Any number of clients that take descriptors from the free list, fill them, enqueue them and recolour
  queues, their accesses to the shared memory interleaved in any order.  The state keeps, for every
  client, its program point and the descriptors it holds.

  The invariant: the region is well formed between any two accesses, every descriptor is in one place,
  and what a client has read is still good enough for the compare-and-swap it leads to.  No client
  runs into an assertion, and each access is invisible to the others or is one abstract operation on
  the queues.

  Dequeues are not among the steps: \<open>AbaTrace\<close> shows a run in which one of them breaks an enqueue.
\<close>

section \<open>Knowledge of a client\<close>

text \<open>A link that was read from the queue: its node is still in the chain.\<close>

definition in_q :: "mig_region \<Rightarrow> qid \<Rightarrow> mig_desc_ptr \<Rightarrow> bool" where
  "in_q r q l \<longleftrightarrow> mp_index l \<noteq> BADINDEX \<and> unat (mp_index l) \<in> set (chain_of r q)"

definition link_ok :: "mig_region \<Rightarrow> qid \<Rightarrow> mig_desc_ptr \<Rightarrow> bool" where
  "link_ok r q l \<longleftrightarrow> (mp_index l = BADINDEX \<or> in_q r q l) \<and> 0 \<le> sint (mp_color l)"

definition enq_ready :: "mig_region \<Rightarrow> qid \<Rightarrow> desc_p \<Rightarrow> bool" where
  "enq_ready r q p \<longleftrightarrow> q \<in> set live_qs \<and> nexti r p = BADINDEX"

definition new_link :: "mig_desc_ptr \<Rightarrow> desc_p \<Rightarrow> mig_desc_ptr \<Rightarrow> bool" where
  "new_link tmp p nx \<longleftrightarrow> mp_index tmp = of_nat p \<and> mp_color tmp = mp_color nx"

definition is_head :: "mig_region \<Rightarrow> qid \<Rightarrow> mig_desc_ptr \<Rightarrow> bool" where
  "is_head r q l \<longleftrightarrow> q \<in> set live_qs \<and> mp_index l = mp_index (q_head (queues r q))"

fun local_ok :: "mig_region \<Rightarrow> pc \<Rightarrow> bool" where
  "local_ok r Idle \<longleftrightarrow> True"
| "local_ok r (Done x) \<longleftrightarrow> True"
| "local_ok r (Enq_start q p) \<longleftrightarrow> q \<in> set live_qs"
| "local_ok r (Enq_tail q p tmp) \<longleftrightarrow> enq_ready r q p"
| "local_ok r (Enq_next q p tmp tail) \<longleftrightarrow> enq_ready r q p \<and> in_q r q tail"
| "local_ok r (Enq_check q p tmp tail nx) \<longleftrightarrow> enq_ready r q p \<and> in_q r q tail \<and> link_ok r q nx"
| "local_ok r (Enq_color q p tmp tail nx) \<longleftrightarrow> enq_ready r q p \<and> in_q r q tail \<and> link_ok r q nx
     \<and> mp_index nx = BADINDEX \<and> new_link tmp p nx"
| "local_ok r (Enq_link q p tmp tail nx) \<longleftrightarrow> enq_ready r q p \<and> in_q r q tail \<and> link_ok r q nx
     \<and> mp_index nx = BADINDEX \<and> new_link tmp p nx \<and> mp_color (nxt (desc_at r p)) = mp_color nx"
| "local_ok r (Enq_help q p tmp tail) \<longleftrightarrow> enq_ready r q p \<and> in_q r q tmp"
| "local_ok r (Enq_swing q p tmp tail) \<longleftrightarrow> q \<in> set live_qs \<and> in_q r q tmp"
| "local_ok r (Col_head q c) \<longleftrightarrow> q \<in> set live_qs \<and> 0 \<le> sint c"
| "local_ok r (Col_tail q c head) \<longleftrightarrow> is_head r q head \<and> 0 \<le> sint c"
| "local_ok r (Col_next q c head tail) \<longleftrightarrow> is_head r q head \<and> 0 \<le> sint c \<and> in_q r q tail"
| "local_ok r (Col_check q c head tail nx) \<longleftrightarrow> is_head r q head \<and> 0 \<le> sint c \<and> in_q r q tail
     \<and> (mp_index nx = BADINDEX \<or> in_q r q nx \<and> mp_index nx \<noteq> mp_index head)"
| "local_ok r (Col_link q c head nx) \<longleftrightarrow> is_head r q head \<and> 0 \<le> sint c \<and> mp_index nx = BADINDEX"
| "local_ok r (Rem_top k) \<longleftrightarrow> k = To_client"
| "local_ok r (Rem_next k tp) \<longleftrightarrow> k = To_client \<and> unat (mp_index tp) < unat (ndescs r) \<and> mp_index tp \<noteq> BADINDEX"
| "local_ok r (Rem_swap k tp tmp) \<longleftrightarrow> k = To_client \<and> unat (mp_index tp) < unat (ndescs r) \<and> mp_index tp \<noteq> BADINDEX
     \<and> (unat (mp_index tp) \<in> set (free_of r) \<longrightarrow> tmp = nxt (desc_at r (unat (mp_index tp))))"
| "local_ok r _ \<longleftrightarrow> False"

text \<open>The descriptor that the operation under way has in hand.\<close>

fun in_hand :: "pc \<Rightarrow> desc_p set" where
  "in_hand (Done (Desc (Some p))) = {p}"
| "in_hand (Enq_start q p) = {p}"
| "in_hand (Enq_tail q p tmp) = {p}"
| "in_hand (Enq_next q p tmp tail) = {p}"
| "in_hand (Enq_check q p tmp tail nx) = {p}"
| "in_hand (Enq_color q p tmp tail nx) = {p}"
| "in_hand (Enq_link q p tmp tail nx) = {p}"
| "in_hand (Enq_help q p tmp tail) = {p}"
| "in_hand c = {}"

section \<open>What an access does to the others\<close>

text \<open>
  Chains only grow at their end, heads stay, the free list only shrinks and its links stay.
\<close>

definition stable :: "mig_region \<Rightarrow> mig_region \<Rightarrow> bool" where
  "stable r r' \<longleftrightarrow> ndescs r' = ndescs r \<and> (\<forall>q\<in>set live_qs. set (chain_of r q) \<subseteq> set (chain_of r' q)
       \<and> mp_index (q_head (queues r' q)) = mp_index (q_head (queues r q)))
     \<and> set (free_of r') \<subseteq> set (free_of r) \<and> (\<forall>x\<in>set (free_of r'). nxt (desc_at r' x) = nxt (desc_at r x))"

lemma stable_refl [simp]: "stable r r"
  by (simp add: stable_def)

lemma in_q_stable: "in_q r q l \<Longrightarrow> stable r r' \<Longrightarrow> q \<in> set live_qs \<Longrightarrow> in_q r' q l"
  by (auto simp: in_q_def stable_def)

lemma link_ok_stable: "link_ok r q l \<Longrightarrow> stable r r' \<Longrightarrow> q \<in> set live_qs \<Longrightarrow> link_ok r' q l"
  using in_q_stable by (auto simp: link_ok_def)

lemma is_head_stable: "is_head r q l \<Longrightarrow> stable r r' \<Longrightarrow> is_head r' q l"
  by (auto simp: is_head_def stable_def)

lemma enq_ready_stable: "enq_ready r q p \<Longrightarrow> desc_at r' p = desc_at r p \<Longrightarrow> enq_ready r' q p"
  by (simp add: enq_ready_def nexti_def)

lemmas stable_intros = in_q_stable link_ok_stable is_head_stable enq_ready_stable

lemma local_ok_stable:
  assumes "local_ok r c" and "stable r r'" and "\<And>x. x \<in> in_hand c \<Longrightarrow> desc_at r' x = desc_at r x"
  shows "local_ok r' c"
proof -
  have live: "enq_ready r q p \<Longrightarrow> q \<in> set live_qs" "is_head r q l \<Longrightarrow> q \<in> set live_qs" for q p l
    by (simp_all add: enq_ready_def is_head_def)
  have f: "set (free_of r') \<subseteq> set (free_of r)" "ndescs r' = ndescs r"
    "\<forall>x\<in>set (free_of r'). nxt (desc_at r' x) = nxt (desc_at r x)"
    using assms(2) by (simp_all add: stable_def)
  show ?thesis
    using assms f by (cases c) (auto intro: stable_intros live dest: subsetD)
qed

section \<open>The accesses that write\<close>

text \<open>What a client may see of the queues.\<close>

definition view :: "mig_region \<Rightarrow> (qid \<Rightarrow> (64 word \<times> 64 word) list) \<times> (qid \<Rightarrow> color_t) \<times> nat" where
  "view r = ((\<lambda>q. if q \<in> set live_qs then contents r q else []),
     (\<lambda>q. if q \<in> set live_qs then color_of r q else 0), nfree r)"

text \<open>A write to the link of a descriptor in hand.\<close>

lemma own_link:
  assumes wf: "wf_region r own" and p: "p \<in> own"
  shows "wf_region (set_next p v r) own" "stable r (set_next p v r)" "view (set_next p v r) = view r"
    "x \<noteq> p \<Longrightarrow> desc_at (set_next p v r) x = desc_at r x" "nxt (desc_at (set_next p v r) p) = v"
    "q \<in> set live_qs \<Longrightarrow> chain_of (set_next p v r) q = chain_of r q"
    "payload (set_next p v r) x = payload r x"
proof -
  note D = wf_regionD [OF wf]
  let ?r = "set_next p v r"
  have len: "p < length (desc_array r)" using D(1,7) p by (auto simp: region_size_ok_def)
  have dx: "desc_at ?r x = (if x = p then (desc_at r p)\<lparr>nxt := v\<rparr> else desc_at r x)" for x
    using len by (auto simp: desc_at_set_next)
  have np: "p \<notin> set (placed r)" using D(6) p by auto
  have same: "desc_at ?r x = desc_at r x" if "x \<in> set (placed r)" for x
    using that np by (cases "x = p") (simp_all add: dx)
  have S: "region_size_ok ?r" using D(1) by (simp add: region_size_ok_def)
  have F: "free_ok ?r (free_of r)"
    by (rule free_ok_cong [OF D(2)]) (simp_all add: same placed_def)
  have Q: "\<forall>q\<in>set live_qs. queue_ok ?r q (chain_of r q) (color_of r q)"
  proof
    fix q assume q: "q \<in> set live_qs"
    show "queue_ok ?r q (chain_of r q) (color_of r q)"
    proof (rule queue_ok_cong [OF D(3) [OF q]])
      show "nxt (desc_at ?r x) = nxt (desc_at r x)" if "x \<in> set (chain_of r q)" for x
        using that q same [of x] by (auto simp: placed_def live_qs_cases)
    qed simp_all
  qed
  have R: "\<forall>x<unat (ndescs ?r). refcnt (desc_at ?r x) = 0" using D(4) by (simp add: dx)
  note W = wf_regionI [OF S F Q R D(5) [unfolded placed_def] D(6) [unfolded placed_def]]
  have W1: "wf_region ?r own" and W2: "free_of ?r = free_of r"
    and W3: "\<And>q. q \<in> set live_qs \<Longrightarrow> chain_of ?r q = chain_of r q \<and> color_of ?r q = color_of r q"
    using W D(7) [unfolded placed_def] by auto
  show pay: "payload ?r x = payload r x" for x by (simp add: payload_def dx)
  show "wf_region ?r own" by (rule W1)
  show "chain_of ?r q = chain_of r q" if "q \<in> set live_qs" for q using W3 [OF that] by simp
  show "stable r ?r" using W2 W3 same by (auto simp: stable_def placed_def)
  have c: "contents ?r q = contents r q" if "q \<in> set live_qs" for q
    using W3 [OF that] by (simp add: contents_def pay)
  show "view ?r = view r" using W2 W3 c by (auto simp: view_def nfree_def)
  show "x \<noteq> p \<Longrightarrow> desc_at ?r x = desc_at r x" "nxt (desc_at ?r p) = v" by (simp_all add: dx)
qed

text \<open>The tail link of a queue set to a node of its chain.\<close>

lemma swing:
  assumes wf: "wf_region r own" and q: "q \<in> set live_qs" and v: "in_q r q v"
  defines "r' \<equiv> set_tail q v r"
  shows "wf_region r' own" "stable r r'" "view r' = view r" "desc_at r' x = desc_at r x"
proof -
  note D = wf_regionD [OF wf]
  have S: "region_size_ok r'" using D(1) by (simp add: r'_def)
  have F: "free_ok r' (free_of r)" using D(2) by (simp add: r'_def)
  have Q: "\<forall>q'\<in>set live_qs. queue_ok r' q' (chain_of r q') (color_of r q')"
  proof
    fix q' assume q': "q' \<in> set live_qs"
    show "queue_ok r' q' (chain_of r q') (color_of r q')"
    proof (cases "q' = q")
      case True
      then show ?thesis
        using queue_ok_set_tail [OF D(3) [OF q]] v by (simp add: r'_def in_q_def)
    next
      case False
      then show ?thesis by (intro queue_ok_cong [OF D(3) [OF q']]) (simp_all add: r'_def)
    qed
  qed
  have R: "\<forall>x<unat (ndescs r'). refcnt (desc_at r' x) = 0" using D(4) by (simp add: r'_def)
  note W = wf_regionI [OF S F Q R D(5) [unfolded placed_def] D(6) [unfolded placed_def]]
  have W1: "wf_region r' own" and W2: "free_of r' = free_of r"
    and W3: "\<And>q. q \<in> set live_qs \<Longrightarrow> chain_of r' q = chain_of r q \<and> color_of r' q = color_of r q"
    using W D(7) [unfolded placed_def] by (auto simp: r'_def)
  have pay: "payload r' x = payload r x" for x by (simp add: payload_def r'_def)
  show "wf_region r' own" by (rule W1)
  show "desc_at r' x = desc_at r x" by (simp add: r'_def)
  show "stable r r'" using W2 W3 by (auto simp: stable_def r'_def)
  have c: "contents r' q = contents r q" if "q \<in> set live_qs" for q
    using W3 [OF that] by (simp add: contents_def pay)
  show "view r' = view r" using W2 W3 c by (auto simp: view_def nfree_def)
qed

lemma cas_swing:
  assumes "wf_region r own" and "q \<in> set live_qs" and "in_q r q v"
  shows "wf_region (snd (cas_tail q t v r)) own" "stable r (snd (cas_tail q t v r))"
    "view (snd (cas_tail q t v r)) = view r" "desc_at (snd (cas_tail q t v r)) x = desc_at r x"
  using assms swing [OF assms] by (simp_all add: cas_tail_def)


text \<open>The commit of an enqueue.\<close>

lemma chain_end: "chain r i ps \<Longrightarrow> t \<in> set ps \<Longrightarrow> nexti r t = BADINDEX \<Longrightarrow> t = last ps"
  by (auto dest!: split_list dest: chain_drop)

lemma linked:
  assumes wf: "wf_region r own" and p: "p \<in> own" and e: "enq_ready r q p" and t: "in_q r q tail"
    and nx: "nxt (desc_at r (unat (mp_index tail))) = nx" "mp_index nx = BADINDEX"
    and tmp: "new_link tmp p nx" and c: "mp_color (nxt (desc_at r p)) = mp_color nx"
  defines "r' \<equiv> set_next (unat (mp_index tail)) tmp r"
  shows "wf_region r' (own - {p})" "stable r r'" "x \<in> own \<Longrightarrow> desc_at r' x = desc_at r x" "mp_color nx = color_of r q"
    "view r' = (case view r of (cs, k, n) \<Rightarrow> (cs(q := cs q @ [payload r p]), k, n))"
    "mp_index l = of_nat p \<Longrightarrow> in_q r' q l"
proof -
  let ?t = "unat (mp_index tail)"
  note D = wf_regionD [OF wf]
  have q: "q \<in> set live_qs" and np: "nexti r p = BADINDEX" using e by (simp_all add: enq_ready_def)
  have tch: "?t \<in> set (chain_of r q)" using t by (simp add: in_q_def)
  have ok: "queue_ok r q (chain_of r q) (color_of r q)" by (rule D(3) [OF q])
  have "chain r (mp_index (q_head (queues r q))) (chain_of r q)" using ok by (simp add: queue_ok_def)
  then have tl: "?t = last (chain_of r q)" using chain_end tch nx by (auto simp: nexti_def)
  have col: "mp_color nx = color_of r q" using ok tch nx(1) by (auto simp: queue_ok_def)
  then show "mp_color nx = color_of r q" .
  have pb: "p < unat (ndescs r)" "p \<notin> set (chain_of r q)" "?t \<notin> own" "?t \<notin> set (free_of r)"
    using D(5,6,7) p q tch by (auto simp: placed_def live_qs_cases)
  have post: "enq_post r r' q p (chain_of r q) (color_of r q)"
    unfolding r'_def tl using col c tmp by (intro link_enq_post [OF D(1) ok pb(1,2) np]) (simp_all add: new_link_def)
  note W = wf_enq_post [OF wf q p post]
  have dx: "desc_at r' x = desc_at r x" if "x \<noteq> ?t" for x using that by (simp add: r'_def)
  have hd: "queues r' = queues r" by (simp add: r'_def)
  show "wf_region r' (own - {p})" by (rule W(1))
  have "desc_at r' x = desc_at r x" if "x \<in> set (free_of r)" for x using that pb(4) by (intro dx) auto
  then show "stable r r'" using W(2,4,5) hd by (auto simp: stable_def)
  show "x \<in> own \<Longrightarrow> desc_at r' x = desc_at r x" using pb(3) by (intro dx) auto
  show "view r' = (case view r of (cs, k, n) \<Rightarrow> (cs(q := cs q @ [payload r p]), k, n))"
    using W(2,5) q by (auto simp: view_def nfree_def)
  show "mp_index l = of_nat p \<Longrightarrow> in_q r' q l"
    using W(5) [OF q] ok_index [OF D(1) pb(1)] by (simp add: in_q_def)
qed

text \<open>The commit of an allocation.\<close>

lemma popped:
  assumes wf: "wf_region r own" and i: "mp_index (fl_top (freelist r)) = mp_index tp" "mp_index tp \<noteq> BADINDEX"
    and tmp: "unat (mp_index tp) \<in> set (free_of r) \<Longrightarrow> tmp = nxt (desc_at r (unat (mp_index tp)))"
  defines "p \<equiv> unat (mp_index tp)" and "r' \<equiv> set_top tmp r"
  shows "wf_region r' (insert p own)" "stable r r'" "desc_at r' x = desc_at r x" "p \<notin> own" "p < unat (ndescs r)"
    "refcnt (desc_at r' p) = 0" "view r = (cs, k, n) \<Longrightarrow> 0 < n \<and> view r' = (cs, k, n - 1)"
proof -
  note D = wf_regionD [OF wf]
  obtain ps where fl: "free_of r = p # ps"
    using D(2) i by (cases "free_of r") (auto simp: free_ok_def p_def)
  then have F: "free_ok r (p # ps)" using D(2) by simp
  have r': "r' = rem_result r p" using tmp fl by (simp add: r'_def rem_result_def p_def)
  have F': "free_ok r' ps" unfolding r' by (rule freelist_remove_Cons(2) [OF F])
  have pp: "p \<notin> own" "p < unat (ndescs r)" "p \<notin> set ps"
    using D(5,6,7) fl by (auto simp: placed_def)
  show dx: "desc_at r' x = desc_at r x" for x by (simp add: r')
  have ops: "insert p own \<inter> set ps = {}" "insert p own \<union> set ps = own \<union> set (free_of r)"
    using D(5,6) fl by (auto simp: placed_def)
  have S: "region_size_ok r'" "ndescs r' = ndescs r" "queues r' = queues r" using D(1) by (simp_all add: r')
  note W = wf_freelist_step [OF wf F' S _ _ ops, unfolded dx, OF refl refl]
  show "wf_region r' (insert p own)" by (rule W(1))
  have fr: "free_of r' = ps" by (rule free_of_eq [OF F'])
  have ch: "chain_of r' q = chain_of r q" if "q \<in> set live_qs" for q
  proof -
    have "queue_ok r' q (chain_of r q) (color_of r q)"
      by (rule queue_ok_cong [OF D(3) [OF that]]) (simp_all add: S dx)
    then show ?thesis by (rule chain_of_eq(1))
  qed
  show "stable r r'" using fr fl ch S by (auto simp: stable_def dx)
  show "p \<notin> own" "p < unat (ndescs r)" "refcnt (desc_at r' p) = 0" using pp D(4) by (simp_all add: dx)
  show "view r = (cs, k, n) \<Longrightarrow> 0 < n \<and> view r' = (cs, k, n - 1)"
    using W(2,3) fl by (auto simp: view_def nfree_def fr)
qed

text \<open>The commit of a change of colour.\<close>

lemma head_chain:
  assumes "wf_region r own" and "is_head r q l"
  obtains xs where "chain_of r q = unat (mp_index l) # xs" "contents r q = map (payload r) xs"
    "unat (mp_index l) < unat (ndescs r)" "mp_index l \<noteq> BADINDEX" "distinct (unat (mp_index l) # xs)"
    "chain r (nexti r (unat (mp_index l))) xs"
proof -
  have q: "q \<in> set live_qs" using assms(2) by (simp add: is_head_def)
  obtain h xs where h: "chain_of r q = h # xs" "queue_ok r q (h # xs) (color_of r q)" "contents r q = map (payload r) xs"
    using chain_of_Cons [OF assms(1) q] by metis
  then have "unat (mp_index l) = h" "h < unat (ndescs r)" "mp_index l \<noteq> BADINDEX" "distinct (h # xs)" "chain r (nexti r h) xs"
    using assms(2) by (auto simp: queue_ok_def is_head_def)
  then show ?thesis using that h by blast
qed

lemma painted:
  assumes wf: "wf_region r own" and h: "is_head r q head" and nx: "nxt (desc_at r (unat (mp_index head))) = nx" "mp_index nx = BADINDEX"
    and c: "0 \<le> sint c" and v: "mp_index v = BADINDEX" "mp_color v = c"
  defines "r' \<equiv> set_next (unat (mp_index head)) v r"
  shows "wf_region r' own" "stable r r'" "x \<in> own \<Longrightarrow> desc_at r' x = desc_at r x" "mp_color nx = color_of r q" "contents r q = []"
    "view r' = (case view r of (cs, k, n) \<Rightarrow> (cs, k(q := c), n))"
proof -
  let ?h = "unat (mp_index head)"
  note D = wf_regionD [OF wf]
  have q: "q \<in> set live_qs" using h by (simp add: is_head_def)
  obtain xs where xs: "chain_of r q = ?h # xs" "contents r q = map (payload r) xs" "chain r (nexti r ?h) xs"
    using head_chain [OF wf h] by metis
  then have ch: "chain_of r q = [?h]" using nx by (simp add: nexti_def)
  then have ok: "queue_ok r q [?h] (color_of r q)" using D(3) [OF q] by simp
  have post: "color_post r r' q ?h c" unfolding r'_def by (rule link_color_post [OF D(1) ok c v])
  note W = wf_color_post [OF wf q ch post]
  have hp: "?h \<notin> own" "?h \<notin> set (free_of r)" using D(5,6) ch q by (auto simp: placed_def live_qs_cases)
  have dx: "desc_at r' x = desc_at r x" if "x \<noteq> ?h" for x using that by (simp add: r'_def)
  show "wf_region r' own" by (rule W(1))
  have "desc_at r' x = desc_at r x" if "x \<in> set (free_of r)" for x using that hp by (intro dx) auto
  moreover have "queues r' = queues r" by (simp add: r'_def)
  ultimately show "stable r r'" using W(2,4,5) by (auto simp: stable_def)
  show "x \<in> own \<Longrightarrow> desc_at r' x = desc_at r x" using hp by (intro dx) auto
  show "mp_color nx = color_of r q" using ok nx by (auto simp: queue_ok_def)
  show "contents r q = []" using ch by (simp add: contents_def)
  show "view r' = (case view r of (cs, k, n) \<Rightarrow> (cs, k(q := c), n))"
    using W(2,5) q by (auto simp: view_def nfree_def)
qed


section \<open>The abstract queues\<close>

text \<open>What an access is for the clients: nothing, or an operation on lists with the result it returns.\<close>

datatype event = Tau | Append qid "64 word \<times> 64 word" color_t | Paint qid color_t color_t | Refuse qid | Take | Exhausted

type_synonym abs_view = "(qid \<Rightarrow> (64 word \<times> 64 word) list) \<times> (qid \<Rightarrow> color_t) \<times> nat"

fun abs_ok :: "abs_view \<Rightarrow> event \<Rightarrow> abs_view \<Rightarrow> bool" where
  "abs_ok v Tau v' \<longleftrightarrow> v' = v"
| "abs_ok (cs, k, n) (Append q w col) v' \<longleftrightarrow> col = k q \<and> v' = (cs(q := cs q @ [w]), k, n)"
| "abs_ok (cs, k, n) (Paint q new old) v' \<longleftrightarrow> cs q = [] \<and> old = k q \<and> v' = (cs, k(q := new), n)"
| "abs_ok (cs, k, n) (Refuse q) v' \<longleftrightarrow> cs q \<noteq> [] \<and> v' = (cs, k, n)"
| "abs_ok (cs, k, n) Take v' \<longleftrightarrow> 0 < n \<and> v' = (cs, k, n - 1)"
| "abs_ok (cs, k, n) Exhausted v' \<longleftrightarrow> n = 0 \<and> v' = (cs, k, n)"

text \<open>The operation that a step from one program point to another is.\<close>

fun linked_color :: "pc \<Rightarrow> color_t option" where
  "linked_color (Enq_swing q p tmp tail) = Some (mp_color tmp)"
| "linked_color c = None"

fun returned :: "pc \<Rightarrow> result option" where
  "returned (Done x) = Some x"
| "returned c = None"

definition on_some :: "'a option \<Rightarrow> ('a \<Rightarrow> event) \<Rightarrow> event" where
  "on_some x f = (case x of None \<Rightarrow> Tau | Some y \<Rightarrow> f y)"

lemma on_some_simps [simp]: "on_some None f = Tau" "on_some (Some y) f = f y"
  by (simp_all add: on_some_def)

fun the_color :: "result \<Rightarrow> color_t" where
  "the_color (Color c) = c"
| "the_color x = -1"

fun emits :: "mig_region \<Rightarrow> pc \<Rightarrow> pc \<Rightarrow> event" where
  "emits r (Enq_link q p tmp tail nx) c' = on_some (linked_color c') (Append q (payload r p))"
| "emits r (Col_link q c head nx) c' = on_some (returned c') (\<lambda>x. Paint q c (the_color x))"
| "emits r (Col_check q c head tail nx) c' = on_some (returned c') (\<lambda>x. Refuse q)"
| "emits r (Rem_top k) c' = on_some (returned c') (\<lambda>x. Exhausted)"
| "emits r (Rem_swap k tp tmp) c' = on_some (returned c') (\<lambda>x. Take)"
| "emits r c c' = Tau"

section \<open>Every step is good\<close>

definition good_step :: "desc_p set \<Rightarrow> mig_region \<Rightarrow> pc \<Rightarrow> pc \<Rightarrow> mig_region \<Rightarrow> bool" where
  "good_step own r c c' r' \<longleftrightarrow> wf_region r' (own - in_hand c \<union> in_hand c') \<and> in_hand c' \<inter> (own - in_hand c) = {}
     \<and> local_ok r' c' \<and> stable r r' \<and> (\<forall>x\<in>own - in_hand c. desc_at r' x = desc_at r x)
     \<and> abs_ok (view r) (emits r c c') (view r')"

text \<open>A step that only reads.\<close>

lemma good_read:
  assumes "wf_region r own" and "in_hand c \<subseteq> own" and "in_hand c' = in_hand c" and "local_ok r c'"
    and "abs_ok (view r) (emits r c c') (view r)"
  shows "good_step own r c c' r"
proof -
  have "own - in_hand c \<union> in_hand c = own" using assms(2) by auto
  then show ?thesis using assms by (simp add: good_step_def)
qed

lemma in_q_bound:
  assumes "wf_region r own" and "q \<in> set live_qs" and "in_q r q l"
  shows "unat (mp_index l) < unat (ndescs r)"
  using queue_ok_bound [OF wf_regionD(3) [OF assms(1,2)]] assms(3) by (auto simp: in_q_def)

lemma tail_in_q:
  assumes "wf_region r own" and "q \<in> set live_qs"
  shows "in_q r q (q_tail (queues r q))"
  using wf_regionD(3) [OF assms] by (simp add: queue_ok_def in_q_def)

lemma chain_links:
  "chain r i ps \<Longrightarrow> t \<in> set ps \<Longrightarrow> nexti r t = BADINDEX \<or> unat (nexti r t) \<in> set ps"
proof (induction ps arbitrary: i)
  case (Cons p ps)
  then show ?case by (cases ps) auto
qed simp

lemma read_link:
  assumes wf: "wf_region r own" and q: "q \<in> set live_qs" and l: "in_q r q l"
  shows "link_ok r q (nxt (desc_at r (unat (mp_index l))))"
proof -
  have ok: "queue_ok r q (chain_of r q) (color_of r q)" by (rule wf_regionD(3) [OF wf q])
  then have "chain r (mp_index (q_head (queues r q))) (chain_of r q)" by (simp add: queue_ok_def)
  from chain_links [OF this] l ok show ?thesis
    by (auto simp: link_ok_def in_q_def nexti_def queue_ok_def)
qed

lemma enq_steps:
  assumes wf: "wf_region r own" and loc: "local_ok r c" and hd: "in_hand c \<subseteq> own"
    and c: "c = Enq_start q p \<or> c = Enq_tail q p tmp \<or> c = Enq_next q p tmp tail \<or> c = Enq_check q p tmp tail nx
      \<or> c = Enq_color q p tmp tail nx"
  shows "\<exists>c' r'. step c r = Inr (c', r') \<and> good_step own r c c' r'"
proof -
  have p: "p \<in> own" using hd c by auto
  have ins: "own - {p} \<union> {p} = own" using p by auto
  have live: "enq_ready r q p \<Longrightarrow> q \<in> set live_qs" by (simp add: enq_ready_def)
  note O = own_link [OF wf p]
  from c show ?thesis
  proof (elim disjE)
    assume "c = Enq_start q p"
    then show ?thesis
      using loc O ins by (auto simp: good_step_def enq_ready_def nexti_def)
  next
    assume c: "c = Enq_tail q p tmp"
    have "good_step own r c (Enq_next q p tmp (q_tail (queues r q))) r"
      using loc tail_in_q [OF wf] live p by (intro good_read [OF wf]) (auto simp: c)
    then show ?thesis by (simp add: c)
  next
    assume c: "c = Enq_next q p tmp tail"
    have q: "q \<in> set live_qs" "in_q r q tail" using loc live by (simp_all add: c)
    have "good_step own r c (Enq_check q p tmp tail (nxt (desc_at r (unat (mp_index tail))))) r"
      using loc read_link [OF wf q] p by (intro good_read [OF wf]) (auto simp: c)
    then show ?thesis using in_q_bound [OF wf q] by (simp add: c)
  next
    assume c: "c = Enq_check q p tmp tail nx"
    have "good_step own r c c' r"
      if "c' = Enq_color q p (tmp\<lparr>mp_index := of_nat p, mp_color := mp_color nx\<rparr>) tail nx \<and> mp_index nx = BADINDEX
        \<or> c' = Enq_help q p (tmp\<lparr>mp_index := mp_index nx, mp_count := mp_count tail + 1\<rparr>) tail \<and> mp_index nx \<noteq> BADINDEX
        \<or> c' = Enq_tail q p tmp" for c'
      using that loc p by (intro good_read [OF wf]) (auto simp: c new_link_def link_ok_def in_q_def)
    then show ?thesis by (auto simp: c enq_step_def desc_to_index_def)
  next
    assume c: "c = Enq_color q p tmp tail nx"
    let ?r = "set_next p ((nxt (desc_at r p))\<lparr>mp_color := mp_color nx\<rparr>) r"
    let ?c = "Enq_link q p (tmp\<lparr>mp_count := mp_count nx + 1\<rparr>) tail nx"
    have q: "q \<in> set live_qs" using loc live by (simp add: c)
    have "enq_ready ?r q p" using loc O(5) by (simp add: c enq_ready_def nexti_def)
    moreover have "in_q ?r q tail" "link_ok ?r q nx"
      using loc O(2) q by (auto simp: c intro: stable_intros)
    ultimately have "local_ok ?r ?c" using loc O(5) by (simp add: c new_link_def)
    then have "good_step own r c ?c ?r" using O ins by (simp add: good_step_def c)
    then show ?thesis using loc by (auto simp: c enq_color_step_def link_ok_def new_link_def)
  qed
qed

lemma enq_commits:
  assumes wf: "wf_region r own" and loc: "local_ok r c" and hd: "in_hand c \<subseteq> own"
    and c: "c = Enq_link q p tmp tail nx \<or> c = Enq_help q p tmp tail \<or> c = Enq_swing q p tmp tail"
  shows "\<exists>c' r'. step c r = Inr (c', r') \<and> good_step own r c c' r'"
proof -
  have live: "enq_ready r q p \<Longrightarrow> q \<in> set live_qs" by (simp add: enq_ready_def)
  from c show ?thesis
  proof (elim disjE)
    assume c: "c = Enq_link q p tmp tail nx"
    have p: "p \<in> own" using hd c by simp
    have l: "enq_ready r q p" "in_q r q tail" "mp_index nx = BADINDEX" "new_link tmp p nx"
      "mp_color (nxt (desc_at r p)) = mp_color nx" "q \<in> set live_qs" using loc live by (simp_all add: c)
    have b: "unat (mp_index tail) < unat (ndescs r)" by (rule in_q_bound [OF wf l(6,2)])
    show ?thesis
    proof (cases "nxt (desc_at r (unat (mp_index tail))) = nx")
      case True
      note L = linked [OF wf p l(1,2) True l(3,4,5)]
      let ?c = "Enq_swing q p (tmp\<lparr>mp_index := of_nat p, mp_count := mp_count tail + 1\<rparr>) tail"
      let ?r = "set_next (unat (mp_index tail)) tmp r"
      have "local_ok ?r ?c" using L(6) l(6) by simp
      moreover have "abs_ok (view r) (Append q (payload r p) (mp_color tmp)) (view ?r)"
        using L(4,5) l(4,6) by (simp add: view_def new_link_def)
      ultimately have "good_step own r c ?c ?r" using L(1,2,3) by (simp add: good_step_def c)
      then show ?thesis using b True by (simp add: c enq_link_step_def cas_next_def desc_to_index_def)
    next
      case False
      have "good_step own r c (Enq_tail q p tmp) r" using l p by (intro good_read [OF wf]) (auto simp: c)
      then show ?thesis using b False by (simp add: c enq_link_step_def cas_next_def)
    qed
  next
    assume c: "c = Enq_help q p tmp tail"
    have p: "p \<in> own" "own - {p} \<union> {p} = own" using hd c by auto
    have q: "q \<in> set live_qs" "in_q r q tmp" using loc live by (simp_all add: c)
    note S = cas_swing [OF wf q, of tail]
    have "enq_ready (snd (cas_tail q tail tmp r)) q p" using loc S(4) by (simp add: c enq_ready_def nexti_def)
    then have "good_step own r c (Enq_tail q p tmp) (snd (cas_tail q tail tmp r))"
      using S p by (simp add: good_step_def c)
    then show ?thesis by (simp add: c)
  next
    assume c: "c = Enq_swing q p tmp tail"
    have q: "q \<in> set live_qs" "in_q r q tmp" using loc by (simp_all add: c)
    show ?thesis using cas_swing [OF wf q, of tail] by (simp add: c good_step_def)
  qed
qed

lemma col_steps:
  assumes wf: "wf_region r own" and loc: "local_ok r c" and hd: "in_hand c \<subseteq> own"
    and c: "c = Col_head q col \<or> c = Col_tail q col head \<or> c = Col_next q col head tail
      \<or> c = Col_check q col head tail nx \<or> c = Col_link q col head nx"
  shows "\<exists>c' r'. step c r = Inr (c', r') \<and> good_step own r c c' r'"
  using c
proof (elim disjE)
  assume c: "c = Col_head q col"
  have "good_step own r c (Col_tail q col (q_head (queues r q))) r"
    using loc by (intro good_read [OF wf]) (auto simp: c is_head_def)
  then show ?thesis by (simp add: c)
next
  assume c: "c = Col_tail q col head"
  have h: "is_head r q head" "q \<in> set live_qs" using loc by (simp_all add: c is_head_def)
  have "good_step own r c (Col_next q col head (q_tail (queues r q))) r"
    using loc tail_in_q [OF wf h(2)] by (intro good_read [OF wf]) (auto simp: c)
  moreover have "mp_index head \<noteq> BADINDEX" using head_chain [OF wf h(1)] by blast
  ultimately show ?thesis by (simp add: c)
next
  assume c: "c = Col_next q col head tail"
  have h: "is_head r q head" using loc by (simp add: c)
  let ?n = "nxt (desc_at r (unat (mp_index head)))"
  obtain xs where xs: "chain_of r q = unat (mp_index head) # xs" "unat (mp_index head) < unat (ndescs r)"
    "distinct (unat (mp_index head) # xs)" "chain r (mp_index ?n) xs"
    using head_chain [OF wf h] by (metis nexti_def)
  have "mp_index ?n = BADINDEX \<or> in_q r q ?n \<and> mp_index ?n \<noteq> mp_index head"
    using xs by (cases xs) (auto simp: in_q_def)
  then have "good_step own r c (Col_check q col head tail ?n) r"
    using loc by (intro good_read [OF wf]) (auto simp: c)
  then show ?thesis using xs(2) by (simp add: c)
next
  assume c: "c = Col_check q col head tail nx"
  have h: "is_head r q head" "q \<in> set live_qs" using loc by (simp_all add: c is_head_def)
  have refuse: "good_step own r c (Done (Color (-1))) r" if "in_q r q l" "mp_index l \<noteq> mp_index head" for l
  proof -
    have "contents r q \<noteq> []"
      using head_chain [OF wf h(1)] that by (force simp: in_q_def unat_16_eq_iff [symmetric])
    then show ?thesis using wf h by (intro good_read) (auto simp: c view_def)
  qed
  have "good_step own r c (Col_link q col head nx) r" if "mp_index nx = BADINDEX"
    using loc that by (intro good_read [OF wf]) (auto simp: c)
  moreover have "good_step own r c (Col_head q col) r"
    using loc h by (intro good_read [OF wf]) (auto simp: c)
  ultimately show ?thesis
    using loc refuse [of tail] refuse [of nx] by (auto simp: c col_check_step_def)
next
  assume c: "c = Col_link q col head nx"
  have h: "is_head r q head" "0 \<le> sint col" "mp_index nx = BADINDEX" "q \<in> set live_qs"
    using loc by (simp_all add: c is_head_def)
  have b: "unat (mp_index head) < unat (ndescs r)" using head_chain [OF wf h(1)] by blast
  show ?thesis
  proof (cases "nxt (desc_at r (unat (mp_index head))) = nx")
    case True
    let ?v = "nx\<lparr>mp_color := col, mp_count := mp_count nx + 1\<rparr>"
    have v: "mp_index ?v = BADINDEX" "mp_color ?v = col" using h(3) by simp_all
    note P = painted [OF wf h(1) True h(3,2) v]
    have "abs_ok (view r) (Paint q col (mp_color nx)) (view (set_next (unat (mp_index head)) ?v r))"
      using P(4,5,6) h(4) by (simp add: view_def)
    then have "good_step own r c (Done (Color (mp_color nx))) (set_next (unat (mp_index head)) ?v r)"
      using P(1,2,3) by (simp add: good_step_def c)
    then show ?thesis using b True by (simp add: c col_link_step_def cas_next_def)
  next
    case False
    have "good_step own r c (Col_head q col) r" using h by (intro good_read [OF wf]) (auto simp: c)
    then show ?thesis using b False by (simp add: c col_link_step_def cas_next_def)
  qed
qed

lemma rem_steps:
  assumes wf: "wf_region r own" and loc: "local_ok r c" and hd: "in_hand c \<subseteq> own"
    and c: "c = Rem_top k \<or> c = Rem_next k tp \<or> c = Rem_swap k tp tmp"
  shows "\<exists>c' r'. step c r = Inr (c', r') \<and> good_step own r c c' r'"
  using c
proof (elim disjE)
  assume c: "c = Rem_top k"
  have k: "k = To_client" using loc by (simp add: c)
  have ch: "chain r (mp_index (fl_top (freelist r))) (free_of r)"
    using wf_regionD(2) [OF wf] by (simp add: free_ok_def)
  show ?thesis
  proof (cases "mp_index (fl_top (freelist r)) = BADINDEX")
    case True
    then have "free_of r = []" using ch by simp
    then have "good_step own r c (Done (Desc None)) r"
      by (intro good_read [OF wf]) (auto simp: c view_def nfree_def)
    then show ?thesis using True by (simp add: c k Let_def)
  next
    case False
    then have "unat (mp_index (fl_top (freelist r))) < unat (ndescs r)" using ch by (cases "free_of r") auto
    then have "good_step own r c (Rem_next k (fl_top (freelist r))) r"
      using False k by (intro good_read [OF wf]) (auto simp: c)
    then show ?thesis using False by (simp add: c Let_def)
  qed
next
  assume c: "c = Rem_next k tp"
  have "good_step own r c (Rem_swap k tp (nxt (desc_at r (unat (mp_index tp))))) r"
    using loc by (intro good_read [OF wf]) (auto simp: c)
  then show ?thesis using loc by (simp add: c)
next
  assume c: "c = Rem_swap k tp tmp"
  have l: "k = To_client" "unat (mp_index tp) < unat (ndescs r)" "mp_index tp \<noteq> BADINDEX"
    "unat (mp_index tp) \<in> set (free_of r) \<Longrightarrow> tmp = nxt (desc_at r (unat (mp_index tp)))"
    using loc by (simp_all add: c)
  show ?thesis
  proof (cases "fl_top (freelist r) = tp")
    case True
    then have i: "mp_index (fl_top (freelist r)) = mp_index tp" by simp
    note P = popped [OF wf i l(3,4)]
    have "abs_ok (view r) Take (view (set_top tmp r))" using P(7) by (cases "view r") auto
    then have "good_step own r c (Done (Desc (Some (unat (mp_index tp))))) (set_top tmp r)"
      using P(1-4) by (simp add: good_step_def c)
    then show ?thesis using P(6) l True by (simp add: c rem_swap_step_def cas_top_def)
  next
    case False
    have "good_step own r c (Rem_top k) r" using l by (intro good_read [OF wf]) (auto simp: c)
    then show ?thesis using False by (simp add: c rem_swap_step_def cas_top_def)
  qed
qed

lemma step_good:
  assumes "wf_region r own" and "local_ok r c" and "in_hand c \<subseteq> own"
  shows "\<exists>c' r'. step c r = Inr (c', r') \<and> good_step own r c c' r'"
proof (cases c)
  case Idle
  then show ?thesis using good_read [OF assms(1,3) refl assms(2)] by simp
next
  case (Done x)
  then show ?thesis using good_read [OF assms(1,3) refl assms(2)] by simp
qed (use enq_steps [OF assms] enq_commits [OF assms] col_steps [OF assms] rem_steps [OF assms] assms(2) in auto)


section \<open>Clients\<close>

record sys =
  shm :: mig_region
  pcs :: "nat \<Rightarrow> pc"
  held :: "nat \<Rightarrow> desc_p set"

text \<open>
  One step of client \<open>i\<close>: the next access of the operation under way, or outside an operation the
  start of one, the return of the last one, a write to a descriptor it holds.
\<close>

inductive sys_step :: "sys \<Rightarrow> event \<Rightarrow> sys \<Rightarrow> bool" where
  access: "step (pcs s i) (shm s) = Inr (c, m) \<Longrightarrow>
     sys_step s (emits (shm s) (pcs s i) c) (s\<lparr>shm := m, pcs := (pcs s)(i := c)\<rparr>)"
| fill: "p \<in> held s i \<Longrightarrow> sys_step s Tau (s\<lparr>shm := put_words p f (shm s)\<rparr>)"
| enqueue: "pcs s i = Idle \<Longrightarrow> p \<in> held s i \<Longrightarrow> q \<in> set live_qs \<Longrightarrow>
     sys_step s Tau (s\<lparr>pcs := (pcs s)(i := Enq_start q p), held := (held s)(i := held s i - {p})\<rparr>)"
| paint: "pcs s i = Idle \<Longrightarrow> q \<in> set live_qs \<Longrightarrow> 0 \<le> sint col \<Longrightarrow>
     sys_step s Tau (s\<lparr>pcs := (pcs s)(i := Col_head q col)\<rparr>)"
| alloc: "pcs s i = Idle \<Longrightarrow> sys_step s Tau (s\<lparr>pcs := (pcs s)(i := Rem_top To_client)\<rparr>)"
| return: "pcs s i = Done x \<Longrightarrow>
     sys_step s Tau (s\<lparr>pcs := (pcs s)(i := Idle), held := (held s)(i := held s i \<union> in_hand (Done x))\<rparr>)"

inductive_cases access_cases: "sys_step s e s'"

inductive exec :: "sys \<Rightarrow> event list \<Rightarrow> sys \<Rightarrow> bool" where
  start: "exec s [] s"
| more: "exec s es s1 \<Longrightarrow> sys_step s1 e s2 \<Longrightarrow> exec s (es @ [e]) s2"

inductive_simps exec_Nil: "exec s [] s'"

text \<open>The same events on lists.\<close>

fun abs_run :: "abs_view \<Rightarrow> event list \<Rightarrow> abs_view \<Rightarrow> bool" where
  "abs_run v [] v' \<longleftrightarrow> v' = v"
| "abs_run v (e # es) v' \<longleftrightarrow> (\<exists>v1. abs_ok v e v1 \<and> abs_run v1 es v')"

lemma abs_run_snoc: "abs_run v (es @ [e]) v' \<longleftrightarrow> (\<exists>v1. abs_run v es v1 \<and> abs_ok v1 e v')"
proof (induction es arbitrary: v)
  case (Cons a es)
  then show ?case by (simp del: split_paired_Ex) blast
qed (simp del: split_paired_Ex)

section \<open>The invariant\<close>

definition hand :: "sys \<Rightarrow> nat \<Rightarrow> desc_p set" where
  "hand s i = held s i \<union> in_hand (pcs s i)"

definition sys_ok :: "sys \<Rightarrow> bool" where
  "sys_ok s \<longleftrightarrow> wf_region (shm s) (\<Union>i. hand s i) \<and> (\<forall>i. local_ok (shm s) (pcs s i))
     \<and> (\<forall>i. held s i \<inter> in_hand (pcs s i) = {}) \<and> (\<forall>i j. i \<noteq> j \<longrightarrow> hand s i \<inter> hand s j = {})"

lemma sys_okD:
  assumes "sys_ok s"
  shows "wf_region (shm s) (\<Union>i. hand s i)" "local_ok (shm s) (pcs s i)" "held s i \<inter> in_hand (pcs s i) = {}"
    "i \<noteq> j \<Longrightarrow> hand s i \<inter> hand s j = {}"
  using assms by (auto simp: sys_ok_def)

text \<open>A client changes its program point and what it holds, and nothing in the memory.\<close>

lemma sys_ok_client:
  assumes ok: "sys_ok s" and h: "hd' \<union> in_hand c = hand s i" "hd' \<inter> in_hand c = {}" and c: "local_ok (shm s) c"
  shows "sys_ok (s\<lparr>pcs := (pcs s)(i := c), held := (held s)(i := hd')\<rparr>)"
proof -
  let ?s = "s\<lparr>pcs := (pcs s)(i := c), held := (held s)(i := hd')\<rparr>"
  have "hand ?s j = hand s j" for j using h by (cases "j = i") (simp_all add: hand_def)
  then show ?thesis using sys_okD [OF ok] h(2) c by (auto simp: sys_ok_def)
qed

lemma sys_ok_access:
  assumes ok: "sys_ok s" and st: "step (pcs s i) (shm s) = Inr (c, m)"
  shows "sys_ok (s\<lparr>shm := m, pcs := (pcs s)(i := c)\<rparr>)" "abs_ok (view (shm s)) (emits (shm s) (pcs s i) c) (view m)"
proof -
  let ?s = "s\<lparr>shm := m, pcs := (pcs s)(i := c)\<rparr>" and ?own = "\<Union>i. hand s i" and ?c = "pcs s i"
  note S = sys_okD [OF ok]
  have sub: "in_hand ?c \<subseteq> ?own" by (auto simp: hand_def)
  have g: "good_step ?own (shm s) ?c c m" using step_good [OF S(1,2) sub] st by auto
  then show "abs_ok (view (shm s)) (emits (shm s) ?c c) (view m)" by (simp add: good_step_def)
  have hi: "hand ?s i = held s i \<union> in_hand c" and hj: "j \<noteq> i \<Longrightarrow> hand ?s j = hand s j" for j
    by (simp_all add: hand_def)
  have dj: "hand s j \<inter> in_hand ?c = {}" if "j \<noteq> i" for j
    using S(4) [OF that] by (auto simp: hand_def)
  have keep: "x \<in> ?own - in_hand ?c" if "x \<in> hand s j \<and> j \<noteq> i \<or> x \<in> held s i" for x j
    using that dj [of j] S(3) [of i] by (auto simp: hand_def)
  have new: "in_hand c \<inter> (?own - in_hand ?c) = {}" using g by (simp add: good_step_def)
  have "(\<Union>j. hand ?s j) = ?own - in_hand ?c \<union> in_hand c"
  proof (rule set_eqI)
    fix x
    show "x \<in> (\<Union>j. hand ?s j) \<longleftrightarrow> x \<in> ?own - in_hand ?c \<union> in_hand c"
    proof
      assume "x \<in> (\<Union>j. hand ?s j)"
      then obtain j where j: "x \<in> hand ?s j" by auto
      show "x \<in> ?own - in_hand ?c \<union> in_hand c"
        using j hi hj keep [of x j] by (cases "j = i") auto
    next
      assume "x \<in> ?own - in_hand ?c \<union> in_hand c"
      then consider j where "x \<in> hand s j" "x \<notin> in_hand ?c" | "x \<in> in_hand c" by auto
      then show "x \<in> (\<Union>j. hand ?s j)"
      proof cases
        case 1
        then show ?thesis using hi hj [of j] by (cases "j = i") (auto simp: hand_def)
      qed (use hi in auto)
    qed
  qed
  then have w: "wf_region (shm ?s) (\<Union>j. hand ?s j)" using g by (simp add: good_step_def)
  have l: "local_ok (shm ?s) (pcs ?s j)" for j
  proof (cases "j = i")
    case False
    have "\<And>x. x \<in> in_hand (pcs s j) \<Longrightarrow> desc_at m x = desc_at (shm s) x"
      using g keep [of _ j] False by (auto simp: good_step_def hand_def)
    then show ?thesis
      using local_ok_stable [OF S(2) [of j]] g False by (simp add: good_step_def)
  qed (use g in \<open>simp add: good_step_def\<close>)
  have h: "held ?s j \<inter> in_hand (pcs ?s j) = {}" for j
  proof (cases "j = i")
    case True
    then show ?thesis using new keep [of _ i] by auto
  qed (use S(3) [of j] in simp)
  have d: "hand ?s j \<inter> hand ?s k = {}" if "j \<noteq> k" for j k
  proof -
    have a: "hand ?s i \<inter> hand ?s j = {}" if "j \<noteq> i" for j
    proof -
      have "held s i \<inter> hand s j = {}" using S(4) [OF that] by (auto simp: hand_def)
      moreover have "in_hand c \<inter> hand s j = {}" using new keep [of _ j] that by auto
      ultimately show ?thesis using hi hj [OF that] by auto
    qed
    show ?thesis
      using that a [of j] a [of k] S(4) [OF that] hj [of j] hj [of k] by (cases "j = i"; cases "k = i") auto
  qed
  show "sys_ok ?s" unfolding sys_ok_def using w l h d by blast
qed


text \<open>A write to the content of a held descriptor.\<close>

lemma put_words_nexti: "nexti (put_words p f r) x = nexti r x"
proof (cases "p < length (desc_array r)")
  case True
  then show ?thesis by (simp add: nexti_def put_words_def desc_at_upd split_def Let_def)
qed (simp add: nexti_def put_words_def upd_desc_def list_update_beyond desc_at_def)

lemma walk_cong: "(\<And>x. nexti r' x = nexti r x) \<Longrightarrow> walk n r' i = walk n r i"
  by (induction n arbitrary: i) auto

lemma filled:
  assumes wf: "wf_region r own" and p: "p \<in> own"
  shows "wf_region (put_words p f r) own" "stable r (put_words p f r)" "view (put_words p f r) = view r"
    "x \<noteq> p \<Longrightarrow> desc_at (put_words p f r) x = desc_at r x" "nxt (desc_at (put_words p f r) x) = nxt (desc_at r x)"
proof -
  let ?r = "put_words p f r"
  note W = wf_put_words [OF wf p, of f]
  have len: "p < length (desc_array r)" using wf_regionD(1,7) [OF wf] p by (auto simp: region_size_ok_def)
  have same: "ndescs ?r = ndescs r" "queues ?r = queues r" "freelist ?r = freelist r" by (simp_all add: put_words_def)
  have nx: "nxt (desc_at ?r x) = nxt (desc_at r x)" for x
    using len by (simp add: put_words_def desc_at_upd split_def Let_def)
  have "chain_of ?r q = chain_of r q" "free_of ?r = free_of r" for q
    using same by (simp_all add: chain_of_def free_of_def walk_cong [OF put_words_nexti])
  then show "stable r ?r" by (simp add: stable_def same nx)
  show "wf_region ?r own" "view ?r = view r" using W by (auto simp: view_def)
  show "x \<noteq> p \<Longrightarrow> desc_at ?r x = desc_at r x" by (rule put_words_desc(3) [OF len])
  show "nxt (desc_at ?r x) = nxt (desc_at r x)" by (rule nx)
qed

lemma sys_ok_fill:
  assumes ok: "sys_ok s" and p: "p \<in> held s i"
  shows "sys_ok (s\<lparr>shm := put_words p f (shm s)\<rparr>)" "view (put_words p f (shm s)) = view (shm s)"
proof -
  note S = sys_okD [OF ok]
  let ?s = "s\<lparr>shm := put_words p f (shm s)\<rparr>"
  have "p \<in> (\<Union>i. hand s i)" using p by (auto simp: hand_def)
  note F = filled [OF S(1) this]
  show "view (put_words p f (shm s)) = view (shm s)" by (rule F(3))
  have h: "hand ?s = hand s" by (simp add: hand_def fun_eq_iff)
  have "local_ok (shm ?s) (pcs ?s j)" for j
  proof -
    have "p \<notin> in_hand (pcs s j)"
      using p S(3) [of i] S(4) [of i j] by (cases "j = i") (auto simp: hand_def)
    then have "x \<in> in_hand (pcs s j) \<Longrightarrow> desc_at (put_words p f (shm s)) x = desc_at (shm s) x" for x
      by (intro F(4)) auto
    then show ?thesis using local_ok_stable [OF S(2) F(2)] by simp
  qed
  then show "sys_ok ?s" using S F(1) h by (simp add: sys_ok_def)
qed

lemma sys_step_ok:
  assumes "sys_step s e s'" and "sys_ok s"
  shows "sys_ok s' \<and> abs_ok (view (shm s)) e (view (shm s'))"
  using assms
proof (induction rule: sys_step.induct)
  case (access s i c m)
  then show ?case using sys_ok_access [of s i c m] by simp
next
  case (fill p s i f)
  then show ?case using sys_ok_fill [of s p i f] by simp
next
  case (enqueue s i p q)
  then have "sys_ok (s\<lparr>pcs := (pcs s)(i := Enq_start q p), held := (held s)(i := held s i - {p})\<rparr>)"
    by (intro sys_ok_client) (auto simp: hand_def)
  then show ?case by simp
next
  case (paint s i q col)
  then have "sys_ok (s\<lparr>pcs := (pcs s)(i := Col_head q col), held := (held s)(i := held s i)\<rparr>)"
    by (intro sys_ok_client) (auto simp: hand_def)
  then show ?case by simp
next
  case (alloc s i)
  then have "sys_ok (s\<lparr>pcs := (pcs s)(i := Rem_top To_client), held := (held s)(i := held s i)\<rparr>)"
    by (intro sys_ok_client) (auto simp: hand_def)
  then show ?case by simp
next
  case (return s i x)
  then have "sys_ok (s\<lparr>pcs := (pcs s)(i := Idle), held := (held s)(i := held s i \<union> in_hand (Done x))\<rparr>)"
    by (intro sys_ok_client) (auto simp: hand_def)
  then show ?case by simp
qed

lemma exec_ok: "exec s es s' \<Longrightarrow> sys_ok s \<Longrightarrow> sys_ok s' \<and> abs_run (view (shm s)) es (view (shm s'))"
proof (induction rule: exec.induct)
  case (more s es s1 e s2)
  then show ?case using sys_step_ok [OF more.hyps(2)] by (auto simp: abs_run_snoc simp del: split_paired_Ex)
qed simp

text \<open>At the start nobody does anything.\<close>

definition idle_sys :: "mig_region \<Rightarrow> sys" where
  "idle_sys r = \<lparr>shm = r, pcs = (\<lambda>_. Idle), held = (\<lambda>_. {})\<rparr>"

lemma sys_ok_idle: "wf_region r {} \<Longrightarrow> sys_ok (idle_sys r)"
  by (simp add: sys_ok_def idle_sys_def hand_def)

lemma idle_sys_mem [simp]: "shm (idle_sys r) = r" "pcs (idle_sys r) i = Idle" "held (idle_sys r) i = {}"
  by (simp_all add: idle_sys_def)

text \<open>In a sound system every client can do its next access.\<close>

lemma sys_ok_no_fault: "sys_ok s \<Longrightarrow> \<exists>c m. step (pcs s i) (shm s) = Inr (c, m)"
proof -
  assume ok: "sys_ok s"
  have "in_hand (pcs s i) \<subseteq> (\<Union>i. hand s i)" by (auto simp: hand_def)
  from step_good [OF sys_okD(1) [OF ok] sys_okD(2) [OF ok] this] show ?thesis by blast
qed

end
