(* ===== verification/AbaTrace.thy ===== *)
theory AbaTrace
  imports Interleave
begin

text \<open>
  A run in which a dequeue breaks an enqueue.  \<^verbatim>\<open>mig_enqueue\<close> commits with a compare-and-swap on the
  link of the last node and relies on the link's count to notice that the node has been dequeued and
  retired meanwhile.  But \<^verbatim>\<open>freelist_add\<close> overwrites the whole link, count included, with the top of
  the free list; when the list is empty that is the link \<^verbatim>\<open>{BADINDEX, 0, COLOR_NONE}\<close> from
  \<^verbatim>\<open>freelist_init\<close>, and a node that was once taken from the bottom of the list carries just this link
  as the last node of an uncoloured queue.

  The region below has six descriptors: 3, 4, 5 were the dummies; 0 was enqueued on \<open>qcomp\<close>
  and dequeued (3 was retired), so it is the dummy of the empty \<open>qcomp\<close> now; 3 is the only free one; clients
  hold 1 and 2, with requests written to them.
\<close>

section \<open>A small region\<close>

definition lnk :: "index_t \<Rightarrow> 16 word \<Rightarrow> color_t \<Rightarrow> mig_desc_ptr" where
  "lnk i n c = \<lparr>mp_index = i, mp_count = n, mp_color = c, mp_pad = 0\<rparr>"

definition dsc :: "64 word \<Rightarrow> mig_desc_ptr \<Rightarrow> mig_desc" where
  "dsc w l = \<lparr>word0 = w, word1 = 0, refcnt = 0, nxt = l\<rparr>"

text \<open>The free list's top and counter, tail and head of \<open>qcomp\<close>, the descriptors 0 to 3.\<close>

definition mini :: "mig_desc_ptr \<Rightarrow> 64 word \<Rightarrow> mig_desc_ptr \<Rightarrow> mig_desc_ptr \<Rightarrow> mig_desc \<Rightarrow> mig_desc \<Rightarrow> mig_desc \<Rightarrow> mig_desc \<Rightarrow> mig_region" where
  "mini tp n t h d0 d1 d2 d3 = \<lparr>ndescs = 6, freelist = \<lparr>fl_top = tp, fl_aba_counter = n, fl_element_counter = 0\<rparr>,
     queues = (\<lambda>q. if q = Qcomp then \<lparr>q_tail = t, q_head = h, q_aba_counter = 0\<rparr>
       else (let l = (if q = Qissued then lnk 4 0 0 else lnk 5 0 0) in \<lparr>q_tail = l, q_head = l, q_aba_counter = 0\<rparr>)),
     desc_array = [d0, d1, d2, d3, dsc 0 (lnk 0xffff 4 0), dsc 0 (lnk 0xffff 5 1)], stk = lnk 0 0 0\<rparr>"

definition aba_region :: mig_region where
  "aba_region = mini (lnk 3 8 0) 8 (lnk 0 1 0) (lnk 0 1 0)
     (dsc 1 (lnk 0xffff 0 0)) (dsc 5 (lnk 0xffff 0 0)) (dsc 7 (lnk 1 2 0)) (dsc 0 (lnk 0xffff 0 0))"

lemma lnk_simps [simp]:
  "mp_index (lnk i n c) = i" "mp_count (lnk i n c) = n" "mp_color (lnk i n c) = c"
  "(lnk i n c)\<lparr>mp_index := j\<rparr> = lnk j n c" "(lnk i n c)\<lparr>mp_count := m\<rparr> = lnk i m c" "(lnk i n c)\<lparr>mp_color := k\<rparr> = lnk i n k"
  "lnk i n c = lnk j m k \<longleftrightarrow> i = j \<and> n = m \<and> c = k"
  by (simp_all add: lnk_def)

lemma dsc_simps [simp]:
  "word0 (dsc w l) = w" "word1 (dsc w l) = 0" "refcnt (dsc w l) = 0" "nxt (dsc w l) = l"
  "(dsc w l)\<lparr>nxt := l'\<rparr> = dsc w l'" "(dsc w l)\<lparr>word0 := v\<rparr> = dsc v l" "(dsc w l)\<lparr>word1 := 0\<rparr> = dsc w l"
  by (simp_all add: dsc_def)

lemma mini_reads [simp]:
  "ndescs (mini tp n t h d0 d1 d2 d3) = 6" "stk (mini tp n t h d0 d1 d2 d3) = lnk 0 0 0"
  "fl_top (freelist (mini tp n t h d0 d1 d2 d3)) = tp" "fl_aba_counter (freelist (mini tp n t h d0 d1 d2 d3)) = n"
  "q_tail (queues (mini tp n t h d0 d1 d2 d3) Qcomp) = t" "q_head (queues (mini tp n t h d0 d1 d2 d3) Qcomp) = h"
  "desc_at (mini tp n t h d0 d1 d2 d3) 0 = d0" "desc_at (mini tp n t h d0 d1 d2 d3) (Suc 0) = d1"
  "desc_at (mini tp n t h d0 d1 d2 d3) 2 = d2" "desc_at (mini tp n t h d0 d1 d2 d3) 3 = d3"
  "desc_at (mini tp n t h d0 d1 d2 d3) 4 = dsc 0 (lnk 0xffff 4 0)" "desc_at (mini tp n t h d0 d1 d2 d3) 5 = dsc 0 (lnk 0xffff 5 1)"
  "q_tail (queues (mini tp n t h d0 d1 d2 d3) Qissued) = lnk 4 0 0" "q_head (queues (mini tp n t h d0 d1 d2 d3) Qissued) = lnk 4 0 0"
  "q_tail (queues (mini tp n t h d0 d1 d2 d3) Qreq) = lnk 5 0 0" "q_head (queues (mini tp n t h d0 d1 d2 d3) Qreq) = lnk 5 0 0"
  by (simp_all add: mini_def desc_at_def Let_def)

lemma mini_writes [simp]:
  "upd_desc 0 f (mini tp n t h d0 d1 d2 d3) = mini tp n t h (f d0) d1 d2 d3"
  "upd_desc (Suc 0) f (mini tp n t h d0 d1 d2 d3) = mini tp n t h d0 (f d1) d2 d3"
  "upd_desc 2 f (mini tp n t h d0 d1 d2 d3) = mini tp n t h d0 d1 (f d2) d3"
  "upd_desc 3 f (mini tp n t h d0 d1 d2 d3) = mini tp n t h d0 d1 d2 (f d3)"
  "set_top l (mini tp n t h d0 d1 d2 d3) = mini l n t h d0 d1 d2 d3"
  "set_tail Qcomp l (mini tp n t h d0 d1 d2 d3) = mini tp n l h d0 d1 d2 d3"
  "set_head Qcomp l (mini tp n t h d0 d1 d2 d3) = mini tp n t l d0 d1 d2 d3"
  "(mini tp n t h d0 d1 d2 d3)\<lparr>freelist := (freelist (mini tp n t h d0 d1 d2 d3))\<lparr>fl_aba_counter := m\<rparr>\<rparr> = mini tp m t h d0 d1 d2 d3"
  by (simp_all add: mini_def upd_desc_def set_top_def set_tail_def set_head_def fun_eq_iff eval_nat_numeral)

lemma run_numeral: "run (numeral k) c r = bindE (step c r) (\<lambda>(c1, r1). run (pred_numeral k) c1 r1)"
  by (simp add: numeral_eq_Suc)

lemmas run_simps = run_numeral step_defs cas_defs index_to_desc_def desc_to_index_def set_next_def BADINDEX_def Let_def

text \<open>Arguments of a bind are evaluated before its body.\<close>

lemma bindE_weak: "m = m' \<Longrightarrow> bindE m f = bindE m' f"
  by simp

text \<open>How the region got there: initialised with six descriptors (the list is 2, 1, 0, the dummy of
  \<open>qcomp\<close> is 3), three allocations, one request through \<open>qcomp\<close>.\<close>

definition mini_fresh :: mig_region where
  "mini_fresh = mini (lnk 2 3 0) 6 (lnk 3 0 0) (lnk 3 0 0)
     (dsc 0 (lnk 0xffff 0 0)) (dsc 0 (lnk 0 1 0)) (dsc 0 (lnk 1 2 0)) (dsc 0 (lnk 0xffff 3 0))"

definition request :: "desc_p \<Rightarrow> 64 word \<Rightarrow> mig_region \<Rightarrow> mig_region" where
  "request p w = put_words p (\<lambda>(a, b). (w, b))"

definition history :: "fault + mig_region" where
  "history =
     bindE (run 3 (Rem_top To_client) mini_fresh) (\<lambda>(c, r).
     bindE (run 3 (Rem_top To_client) r) (\<lambda>(c, r).
     bindE (run 3 (Rem_top To_client) r) (\<lambda>(c, r).
     bindE (run 7 (Enq_start Qcomp 0) (request 0 1 r)) (\<lambda>(c, r).
     bindE (run 4 (Add_count To_client 1) r) (\<lambda>(c, r).
     bindE (run 15 (Deq_head Qcomp None) r) (\<lambda>(c, r).
     Inr (request 1 5 (request 2 7 r))))))))"

lemma history_run: "history = Inr aba_region"
  by (simp add: history_def mini_fresh_def run_simps request_def put_words_def aba_region_def cong: bindE_weak)

section \<open>The run\<close>

text \<open>The enqueue of descriptor 2 up to its compare-and-swap.\<close>

definition stalled :: pc where
  "stalled = Enq_link Qcomp 2 (lnk 2 1 0) (lnk 0 1 0) (lnk 0xffff 0 0)"

definition aba1 :: mig_region where
  "aba1 = mini (lnk 3 8 0) 8 (lnk 0 1 0) (lnk 0 1 0)
     (dsc 1 (lnk 0xffff 0 0)) (dsc 5 (lnk 0xffff 0 0)) (dsc 7 (lnk 0xffff 2 0)) (dsc 0 (lnk 0xffff 0 0))"

lemma aba_stall: "run 5 (Enq_start Qcomp 2) aba_region = Inr (stalled, aba1)"
  by (simp add: run_simps aba_region_def aba1_def stalled_def)


text \<open>Another client enqueues descriptor 1 without interruption.\<close>

definition aba2 :: mig_region where
  "aba2 = mini (lnk 3 8 0) 8 (lnk 1 2 0) (lnk 0 1 0)
     (dsc 1 (lnk 1 1 0)) (dsc 5 (lnk 0xffff 0 0)) (dsc 7 (lnk 0xffff 2 0)) (dsc 0 (lnk 0xffff 0 0))"

lemma aba_enqueue: "run 7 (Enq_start Qcomp 1) aba1 = Inr (Done (Color COLOR_NONE), aba2)"
  by (simp add: run_simps aba1_def aba2_def COLOR_NONE_def)

text \<open>
  A third dequeues it: its replica is descriptor 3, the last free one; descriptor 0 is retired to the
  empty list and its link becomes what it was when the first client read it.
\<close>

definition aba3 :: mig_region where
  "aba3 = mini (lnk 0 9 0) 9 (lnk 1 2 0) (lnk 1 2 0)
     (dsc 1 (lnk 0xffff 0 0)) (dsc 5 (lnk 0xffff 0 0)) (dsc 7 (lnk 0xffff 2 0)) (dsc 5 (lnk 0xffff 0 0))"

lemma aba_dequeue: "run 15 (Deq_head Qcomp None) aba2 = Inr (Done (Desc (Some 3)), aba3)"
  by (simp add: run_simps aba2_def aba3_def)

text \<open>The first client's compare-and-swap succeeds.\<close>

definition aba4 :: mig_region where
  "aba4 = mini (lnk 0 9 0) 9 (lnk 1 2 0) (lnk 1 2 0)
     (dsc 1 (lnk 2 1 0)) (dsc 5 (lnk 0xffff 0 0)) (dsc 7 (lnk 0xffff 2 0)) (dsc 5 (lnk 0xffff 0 0))"

lemma aba_resume: "run 2 stalled aba3 = Inr (Done (Color COLOR_NONE), aba4)"
  by (simp add: run_simps stalled_def aba3_def aba4_def COLOR_NONE_def)

section \<open>What is wrong with the result\<close>

lemma walk_numeral:
  "walk (numeral k) r i = (if i = BADINDEX then [] else unat i # walk (pred_numeral k) r (nexti r (unat i)))"
  by (simp add: numeral_eq_Suc)

text \<open>A small region is well formed when its chains are what they should be.\<close>

lemma mini_ok:
  assumes "free_ok (mini tp n t h d0 d1 d2 d3) fl" and "queue_ok (mini tp n t h d0 d1 d2 d3) Qcomp ch 0"
    and "\<forall>d\<in>{d0, d1, d2, d3}. refcnt d = 0" and "distinct (fl @ ch)" and "set (fl @ ch) \<inter> own = {}"
    and "set (fl @ ch) \<union> own = {0, 1, 2, 3}"
  shows "wf_region (mini tp n t h d0 d1 d2 d3) own"
proof (rule wf_regionI(1) [where fl = fl and ch = "\<lambda>q. if q = Qreq then [5] else if q = Qissued then [4] else ch"
      and k = "\<lambda>q. if q = Qreq then 1 else 0"])
  let ?m = "mini tp n t h d0 d1 d2 d3"
  show "region_size_ok ?m" by (simp add: region_size_ok_def mini_def)
  show "\<forall>q\<in>set live_qs. queue_ok ?m q (if q = Qreq then [5] else if q = Qissued then [4] else ch) (if q = Qreq then 1 else 0)"
    using assms(2) by (simp add: live_qs_def) (simp add: queue_ok_def nexti_def BADINDEX_def)
  have "refcnt (desc_at ?m p) = 0" if "p < 6" for p
  proof -
    have "p = 0 \<or> p = Suc 0 \<or> p = 2 \<or> p = 3 \<or> p = 4 \<or> p = 5" using that by linarith
    then consider "p = 0" | "p = Suc 0" | "p = 2" | "p = 3" | "p = 4" | "p = 5" by blast
    then show ?thesis by cases (use assms(3) in simp_all)
  qed
  then show "\<forall>p<unat (ndescs ?m). refcnt (desc_at ?m p) = 0" by simp
  have out: "4 \<notin> {0, 1, 2, 3 :: nat}" "5 \<notin> {0, 1, 2, 3 :: nat}" by simp_all
  have new: "4 \<notin> set (fl @ ch)" "5 \<notin> set (fl @ ch)" "4 \<notin> own" "5 \<notin> own"
    using out assms(6) by blast+
  show "distinct (fl @ (if Qreq = Qreq then [5] else if Qreq = Qissued then [4] else ch)
      @ (if Qissued = Qreq then [5] else if Qissued = Qissued then [4] else ch)
      @ (if Qcomp = Qreq then [5] else if Qcomp = Qissued then [4] else ch))"
    using assms(4) new(1,2) by simp
  show "own \<inter> set (fl @ (if Qreq = Qreq then [5] else if Qreq = Qissued then [4] else ch)
      @ (if Qissued = Qreq then [5] else if Qissued = Qissued then [4] else ch)
      @ (if Qcomp = Qreq then [5] else if Qcomp = Qissued then [4] else ch)) = {}"
    using assms(5) new(3,4) by (simp add: Int_commute Int_Un_distrib Int_Un_distrib2)
  have "{..<6 :: nat} = {0, 1, 2, 3} \<union> {4, 5}" by auto
  then have "{..<6} = set (fl @ ch) \<union> own \<union> {4, 5}" unfolding assms(6) .
  then show "own \<union> set (fl @ (if Qreq = Qreq then [5] else if Qreq = Qissued then [4] else ch)
      @ (if Qissued = Qreq then [5] else if Qissued = Qissued then [4] else ch)
      @ (if Qcomp = Qreq then [5] else if Qcomp = Qissued then [4] else ch)) = {..<unat (ndescs ?m)}"
    by simp blast
qed (rule assms(1))

lemma mini_fresh_ok: "wf_region mini_fresh {}"
  unfolding mini_fresh_def
  by (rule mini_ok [where fl = "[2, 1, 0]" and ch = "[3]"])
    (auto simp: free_ok_def queue_ok_def nexti_def BADINDEX_def)

lemma aba_region_ok: "wf_region aba_region {1, 2}"
  unfolding aba_region_def
  by (rule mini_ok [where fl = "[3]" and ch = "[0]"])
    (auto simp: free_ok_def queue_ok_def nexti_def BADINDEX_def)

lemma aba4_lost: "contents aba4 Qcomp = []" "free_of aba4 = [0, 2]" "color_of aba4 Qcomp = COLOR_NONE"
  by (simp_all add: contents_def chain_of_def free_of_def aba4_def color_of_def COLOR_NONE_def BADINDEX_def nexti_def walk_numeral)


section \<open>Two clients that allocate\<close>

definition two :: "mig_region \<Rightarrow> pc \<Rightarrow> pc \<Rightarrow> sys" where
  "two r c d = \<lparr>shm = r, pcs = (\<lambda>_. Idle)(0 := c, 1 := d), held = (\<lambda>_. {})\<rparr>"

lemma two_simps [simp]:
  "shm (two r c d) = r" "pcs (two r c d) 0 = c" "pcs (two r c d) (Suc 0) = d" "held (two r c d) i = {}"
  "(two r c d)\<lparr>pcs := (pcs (two r c d))(0 := c')\<rparr> = two r c' d"
  "(two r c d)\<lparr>pcs := (pcs (two r c d))(Suc 0 := d')\<rparr> = two r c d'"
  "(two r c d)\<lparr>shm := m, pcs := (pcs (two r c d))(0 := c')\<rparr> = two m c' d"
  "(two r c d)\<lparr>shm := m, pcs := (pcs (two r c d))(Suc 0 := d')\<rparr> = two m c d'"
  by (auto simp: two_def fun_eq_iff)

lemma two_start: "exec (idle_sys r) [] (two r Idle Idle)"
proof -
  have "two r Idle Idle = idle_sys r" by (auto simp: two_def idle_sys_def fun_eq_iff)
  then show ?thesis by (simp add: exec.start)
qed

lemma two_alloc:
  assumes "exec s es (two r c d)"
  shows "c = Idle \<Longrightarrow> exec s (es @ [Tau]) (two r (Rem_top To_client) d)"
    and "d = Idle \<Longrightarrow> exec s (es @ [Tau]) (two r c (Rem_top To_client))"
  using exec.more [OF assms sys_step.alloc [of _ 0]] exec.more [OF assms sys_step.alloc [of _ "Suc 0"]] by simp_all

lemma two_access:
  assumes "exec s es (two r c d)"
  shows "step c r = Inr (c', m) \<Longrightarrow> exec s (es @ [emits r c c']) (two m c' d)"
    and "step d r = Inr (d', m) \<Longrightarrow> exec s (es @ [emits r d d']) (two m c d')"
  using exec.more [OF assms sys_step.access [of _ 0]] exec.more [OF assms sys_step.access [of _ "Suc 0"]] by simp_all

text \<open>Both read the top of the list; the first one's swap wins, the second one tries again.\<close>

lemma two_clients:
  "\<exists>m. exec (idle_sys mini_fresh) [Tau, Tau, Tau, Tau, Tau, Tau, Take, Tau, Tau, Tau, Take]
     (two m (Done (Desc (Some 2))) (Done (Desc (Some 1))))"
proof -
  let ?m = "\<lambda>tp. mini tp 6 (lnk 3 0 0) (lnk 3 0 0)
     (dsc 0 (lnk 0xffff 0 0)) (dsc 0 (lnk 0 1 0)) (dsc 0 (lnk 1 2 0)) (dsc 0 (lnk 0xffff 3 0))"
  note steps = run_simps mini_fresh_def
  have "exec (idle_sys mini_fresh) [Tau, Tau] (two (?m (lnk 2 3 0)) (Rem_top To_client) (Rem_top To_client))"
    using two_alloc(2) [OF two_alloc(1) [OF two_start refl] refl, of mini_fresh] by (simp add: mini_fresh_def)
  from two_access(1) [OF this, of "Rem_next To_client (lnk 2 3 0)" "?m (lnk 2 3 0)"]
  have "exec (idle_sys mini_fresh) [Tau, Tau, Tau] (two (?m (lnk 2 3 0)) (Rem_next To_client (lnk 2 3 0)) (Rem_top To_client))"
    by (simp add: steps)
  from two_access(2) [OF this, of "Rem_next To_client (lnk 2 3 0)" "?m (lnk 2 3 0)"]
  have "exec (idle_sys mini_fresh) [Tau, Tau, Tau, Tau]
      (two (?m (lnk 2 3 0)) (Rem_next To_client (lnk 2 3 0)) (Rem_next To_client (lnk 2 3 0)))"
    by (simp add: steps)
  from two_access(1) [OF this, of "Rem_swap To_client (lnk 2 3 0) (lnk 1 2 0)" "?m (lnk 2 3 0)"]
  have "exec (idle_sys mini_fresh) [Tau, Tau, Tau, Tau, Tau]
      (two (?m (lnk 2 3 0)) (Rem_swap To_client (lnk 2 3 0) (lnk 1 2 0)) (Rem_next To_client (lnk 2 3 0)))"
    by (simp add: steps)
  from two_access(2) [OF this, of "Rem_swap To_client (lnk 2 3 0) (lnk 1 2 0)" "?m (lnk 2 3 0)"]
  have "exec (idle_sys mini_fresh) [Tau, Tau, Tau, Tau, Tau, Tau]
      (two (?m (lnk 2 3 0)) (Rem_swap To_client (lnk 2 3 0) (lnk 1 2 0)) (Rem_swap To_client (lnk 2 3 0) (lnk 1 2 0)))"
    by (simp add: steps)
  from two_access(1) [OF this, of "Done (Desc (Some 2))" "?m (lnk 1 2 0)"]
  have "exec (idle_sys mini_fresh) [Tau, Tau, Tau, Tau, Tau, Tau, Take]
      (two (?m (lnk 1 2 0)) (Done (Desc (Some 2))) (Rem_swap To_client (lnk 2 3 0) (lnk 1 2 0)))"
    by (simp add: steps)
  from two_access(2) [OF this, of "Rem_top To_client" "?m (lnk 1 2 0)"]
  have "exec (idle_sys mini_fresh) [Tau, Tau, Tau, Tau, Tau, Tau, Take, Tau]
      (two (?m (lnk 1 2 0)) (Done (Desc (Some 2))) (Rem_top To_client))"
    by (simp add: steps)
  from two_access(2) [OF this, of "Rem_next To_client (lnk 1 2 0)" "?m (lnk 1 2 0)"]
  have "exec (idle_sys mini_fresh) [Tau, Tau, Tau, Tau, Tau, Tau, Take, Tau, Tau]
      (two (?m (lnk 1 2 0)) (Done (Desc (Some 2))) (Rem_next To_client (lnk 1 2 0)))"
    by (simp add: steps)
  from two_access(2) [OF this, of "Rem_swap To_client (lnk 1 2 0) (lnk 0 1 0)" "?m (lnk 1 2 0)"]
  have "exec (idle_sys mini_fresh) [Tau, Tau, Tau, Tau, Tau, Tau, Take, Tau, Tau, Tau]
      (two (?m (lnk 1 2 0)) (Done (Desc (Some 2))) (Rem_swap To_client (lnk 1 2 0) (lnk 0 1 0)))"
    by (simp add: steps)
  from two_access(2) [OF this, of "Done (Desc (Some 1))" "?m (lnk 0 1 0)"]
  show ?thesis by (auto simp: steps)
qed

end
