(* ===== verification/DrvTest.thy ===== *)
theory DrvTest
  imports DrvIf
begin

text \<open>
  The three small kernel modules beside the driver.  \<^verbatim>\<open>test/kernel-driver/migrate-x86.c\<close> (names ending in
  \<open>t\<close>): the device files and the region without the engine, to test the queues.
  \<^verbatim>\<open>libsmm/kernel/migif.c\<close> (names ending in \<open>mf\<close>): the first version of the device files, with one region
  of 32 pages for the whole module.  \<^verbatim>\<open>libsmm/kernel/l2if.c\<close>: a file for the prefetch register of the
  second-level cache.  Functions that read as in the driver (\<^verbatim>\<open>mmap_open\<close>, \<^verbatim>\<open>mmap_close\<close>, the
  first module's \<^verbatim>\<open>mmap_fault\<close>) are not repeated.

  The lemmas: what opening a file and filling the queue leave behind.  The first module stops early enough for the
  queue to be emptied, the second does not.
\<close>

section \<open>The queue test module\<close>

text \<open>The loop stops when \<^verbatim>\<open>cnt\<close>, which starts at 1, is greater than 100.\<close>

definition test_fill_queue_t :: "addr \<Rightarrow> unit kern" where
  "test_fill_queue_t r = (seqK (assertK (r \<noteq> 0)) (
    bindK (fill_queue 100 1 r) (\<lambda>cnt.
    ret ())))"

definition test_fill_queue_always :: "addr \<Rightarrow> unit kern" where
  "test_fill_queue_always r = ret ()"

text \<open>The search for the file's name has no effect: its result is not used.\<close>

definition if_open_t :: "string \<Rightarrow> addr \<Rightarrow> int kern" where
  "if_open_t nm filp = (bindK (getK (\<lambda>s. filp_priv s filp)) (\<lambda>pd.
    if pd \<noteq> 0 then ret (-1)
     else (bindK (call ''__get_free_pages'' [NPAGEORDER]) (\<lambda>p.
       if p = 0 then ret (-1)
       else (let info = p + PAGE_SIZE * (NPAGES - 1) in
         seqK (upd_info info (\<lambda>i. i\<lparr>i_region := p\<rparr>)) (
         seqK (k_init_region p) (
         seqK (modK (\<lambda>s. s\<lparr>filp_priv := (filp_priv s)(filp := info)\<rparr>)) (
         ret 0))))))))"

definition if_close_t :: "addr \<Rightarrow> int kern" where
  "if_close_t filp = ret 0"

definition if_write_t :: "addr \<Rightarrow> addr \<Rightarrow> nat \<Rightarrow> int kern" where
  "if_write_t filp u sz = (bindK (getK (\<lambda>s. filp_priv s filp)) (\<lambda>info.
    if sz < 4 then ret (- EFAULT)
     else (bindK (callb ''copy_from_user'' [u, 4]) (\<lambda>bad.
       if bad then ret (- EFAULT)
       else (bindK (getK (\<lambda>s. umem s u)) (\<lambda>cmd.
         bindK (get_info info i_region) (\<lambda>r.
         seqK (if cmd = MIG_INIT_REGION then k_init_region r
          else if cmd = MIG_FILL_QREQ then test_fill_queue_t r
          else ret ()) (
         ret (int sz)))))))))"

definition if_mmap_t :: "addr \<Rightarrow> addr \<Rightarrow> int kern" where
  "if_mmap_t filp vma = (seqK (exec ''vma->vm_ops = &mmap_vm_ops'' [vma]) (
    seqK (exec ''vma->vm_flags |= VM_DONTEXPAND | VM_DONTDUMP'' [vma]) (
    bindK (getK (\<lambda>s. filp_priv s filp)) (\<lambda>pd.
    seqK (modK (\<lambda>s. s\<lparr>vma_priv := (vma_priv s)(vma := pd)\<rparr>)) (
    seqK (mmap_open vma) (
    ret 0))))))"

definition NR_DEVICES_t :: nat where "NR_DEVICES_t = 4"

text \<open>A file that could not be created is reported and left out.\<close>

definition migx86_module_init :: "int kern" where
  "migx86_module_init = (seqK (forK [0..<NR_DEVICES_t] (\<lambda>i. (bindK (call ''debugfs_create_file'' [int i]) (\<lambda>f.
       modK (\<lambda>s. s\<lparr>debugif := (debugif s)(int i := f)\<rparr>))))) (
    ret 0))"

definition migx86_module_exit :: "unit kern" where
  "migx86_module_exit = forK [0..<NR_DEVICES_t] (\<lambda>i. (bindK (getK (\<lambda>s. debugif s (int i))) (\<lambda>f.
    whenK (f \<noteq> 0) (exec ''debugfs_remove'' [f]))))"

section \<open>The first device file\<close>

text \<open>The module's variables \<^verbatim>\<open>region\<close>, \<^verbatim>\<open>ginfo\<close>, \<^verbatim>\<open>file\<close> and \<^verbatim>\<open>f_test\<close>.  The module's \<^verbatim>\<open>mmap_info\<close>
  holds \<^verbatim>\<open>data\<close>, the pages of the region, where the driver's holds \<^verbatim>\<open>region\<close>: it is \<open>i_region\<close> here.\<close>

record migif_vars =
  m_region :: addr
  m_ginfo :: addr
  m_file :: addr
  m_ftest :: addr

definition NPAGEORDER_mf :: int where "NPAGEORDER_mf = 5"
definition NPAGES_mf :: int where "NPAGES_mf = 32"

definition mmap_fault_mf :: "addr \<Rightarrow> nat \<Rightarrow> (int \<times> addr option) kern" where
  "mmap_fault_mf vma pgoff = (bindK (getK (\<lambda>s. vma_priv s vma)) (\<lambda>info.
    bindK (get_info info i_region) (\<lambda>d.
    if d = 0 then ret (0, None)
     else (bindK (call ''virt_to_page'' [d + int pgoff * 2 ^ PAGE_SHIFT]) (\<lambda>p.
       if p = 0 then ret (-1, None)
       else (seqK (exec ''get_page'' [p]) (
         ret (0, Some p))))))))"

definition op_mmap :: "addr \<Rightarrow> addr \<Rightarrow> int kern" where
  "op_mmap filp vma = (seqK (exec ''vma->vm_ops = &mmap_vm_ops'' [vma]) (
    seqK (exec ''vma->vm_flags |= VM_RESERVED'' [vma]) (
    bindK (getK (\<lambda>s. filp_priv s filp)) (\<lambda>pd.
    seqK (modK (\<lambda>s. s\<lparr>vma_priv := (vma_priv s)(vma := pd)\<rparr>)) (
    seqK (mmap_open vma) (
    ret 0))))))"

definition mmapfop_close :: "addr \<Rightarrow> int kern" where
  "mmapfop_close filp = (bindK (getK (\<lambda>s. filp_priv s filp)) (\<lambda>info.
    seqK (exec ''kfree'' [info]) (
    seqK (modK (\<lambda>s. s\<lparr>filp_priv := (filp_priv s)(filp := 0)\<rparr>)) (
    ret 0))))"

text \<open>\<^verbatim>\<open>test_fill_queue\<close>: this loop ends only when no descriptor is free.\<close>

fun fill_all :: "nat \<Rightarrow> nat \<Rightarrow> addr \<Rightarrow> nat kern" where
  "fill_all 0 cnt r = failK Spin"
| "fill_all (Suc k) cnt r = (bindK (fill_one cnt r) (\<lambda>more.
  if more then fill_all k (cnt + 1) r else ret cnt))"

definition test_fill_queue_mf :: "migif_vars \<Rightarrow> unit kern" where
  "test_fill_queue_mf g = (seqK (assertK (m_region g \<noteq> 0)) (
    bindK (getK (flush_fuel (m_region g))) (\<lambda>fuel.
    bindK (fill_all fuel 1 (m_region g)) (\<lambda>cnt.
    ret ()))))"

text \<open>\<^verbatim>\<open>test_empty_queue\<close> is the driver's, on \<^verbatim>\<open>region\<close>, without an \<^verbatim>\<open>assert\<close> that there is one.\<close>

definition test_empty_queue_mf :: "migif_vars \<Rightarrow> unit kern" where
  "test_empty_queue_mf g =
     (if m_region g = 0 then failK Bad_access else test_empty_queue (m_region g))"

definition f_test_write :: "addr \<Rightarrow> nat \<Rightarrow> migif_vars \<Rightarrow> (int \<times> migif_vars) kern" where
  "f_test_write u sz g =
     (if sz < 4 then ret (- EFAULT, g)
      else (bindK (callb ''copy_from_user'' [u, 4]) (\<lambda>bad.
        if bad then ret (- EFAULT, g)
        else (bindK (getK (\<lambda>s. umem s u)) (\<lambda>cmd.
          if cmd = MIG_INIT_REGION then
            (if m_ginfo g = 0 then failK Bad_access
             else (bindK (get_info (m_ginfo g) i_region) (\<lambda>d.
               seqK (assertK (d \<noteq> 0)) (
               seqK (k_init_bytes d (NPAGES_mf * PAGE_SIZE)) (
               ret (int sz, g\<lparr>m_region := d\<rparr>))))))
          else if cmd = MIG_FILL_QREQ then seqK (test_fill_queue_mf g) (ret (int sz, g))
          else if cmd = MIG_EMPTY_QREQ then seqK (test_empty_queue_mf g) (ret (int sz, g))
          else ret (int sz, g))))))"

text \<open>\<^verbatim>\<open>info->data\<close> is written without looking whether \<^verbatim>\<open>kmalloc\<close> has returned null.\<close>

definition mmapfop_open :: "addr \<Rightarrow> migif_vars \<Rightarrow> (int \<times> migif_vars) kern" where
  "mmapfop_open filp g = (bindK (call ''kmalloc(sizeof(struct mmap_info))'' []) (\<lambda>info.
    bindK (call ''__get_free_pages'' [NPAGEORDER_mf]) (\<lambda>p.
    if info = 0 then failK Bad_access
     else (seqK (upd_info info (\<lambda>i. i\<lparr>i_region := p\<rparr>)) (
       seqK (assertK (p \<noteq> 0)) (
       seqK (k_init_bytes p (NPAGES_mf * PAGE_SIZE)) (
       seqK (modK (\<lambda>s. s\<lparr>filp_priv := (filp_priv s)(filp := info)\<rparr>)) (
       ret (0, g\<lparr>m_ginfo := info, m_region := p\<rparr>)))))))))"

definition mmapexample_module_init :: "migif_vars \<Rightarrow> (int \<times> migif_vars) kern" where
  "mmapexample_module_init g = (bindK (call ''debugfs_create_file migif'' []) (\<lambda>f.
    bindK (call ''debugfs_create_file migtest'' []) (\<lambda>t.
    ret (0, g\<lparr>m_file := f, m_ftest := t\<rparr>))))"

definition mmapexample_module_exit :: "migif_vars \<Rightarrow> unit kern" where
  "mmapexample_module_exit g = (seqK (exec ''debugfs_remove'' [m_file g]) (
    exec ''debugfs_remove'' [m_ftest g]))"

section \<open>The prefetch register\<close>

text \<open>The coprocessor accesses are calls: \<^verbatim>\<open>MRC\<close> answers the register, \<^verbatim>\<open>MCR\<close> sets it.\<close>

definition write_reg :: "32 word \<Rightarrow> unit kern" where
  "write_reg value = (bindK (call ''MRC p15, 1, c15, c0, 3'' []) (\<lambda>oldv.
    seqK (exec ''MCR p15, 1, c15, c0, 3'' [uint value]) (
    bindK (call ''MRC p15, 1, c15, c0, 3'' []) (\<lambda>now.
    ret ()))))"

definition read_reg :: "32 word kern" where
  "read_reg = (bindK (call ''MRC p15, 1, c15, c0, 3'' []) (\<lambda>v.
    ret (of_int v)))"

text \<open>\<^verbatim>\<open>kstrtouint_from_user\<close> answers its error; the number it has read is a second answer.\<close>

definition l2_test_write :: "addr \<Rightarrow> nat \<Rightarrow> int kern" where
  "l2_test_write u sz =
     (if 20 < sz then ret (- EFAULT)
      else (bindK (callb ''kstrtouint_from_user'' [u, int sz, 0]) (\<lambda>err.
        if err then ret (- EFAULT)
        else (bindK (call ''cmd'' [u]) (\<lambda>cmd.
          seqK (write_reg (of_int cmd)) (
          ret (int sz)))))))"

text \<open>\<^verbatim>\<open>"%08x\n"\<close>\<close>

definition hex_digit :: "nat \<Rightarrow> char" where
  "hex_digit d = ''0123456789abcdef'' ! d"

definition hex8_line :: "32 word \<Rightarrow> string" where
  "hex8_line v = map (\<lambda>i. hex_digit (unat (drop_bit (4 * i) v) mod 16)) [7, 6, 5, 4, 3, 2, 1, 0] @ [CHR 0x0A]"

text \<open>The result, the text written to the user's buffer, and the new file position.\<close>

definition l2_test_read :: "nat \<Rightarrow> int \<Rightarrow> (int \<times> string \<times> int) kern" where
  "l2_test_read sz off =
     (if 0 < off then ret (0, [], off)
      else if sz < 20 then ret (- EFAULT, [], off)
      else (bindK read_reg (\<lambda>v.
        let line = hex8_line v in
        ret (int (length line), line, off + int (length line)))))"

definition l2_module_init :: "addr \<Rightarrow> (int \<times> addr) kern" where
  "l2_module_init file = (bindK (call ''debugfs_create_file l2prefetch'' []) (\<lambda>f.
    ret (0, f)))"

definition l2_module_exit :: "addr \<Rightarrow> unit kern" where
  "l2_module_exit file = exec ''debugfs_remove'' [file]"

section \<open>The queue test module: opening and filling\<close>

lemma if_open_t_ok:
  assumes f: "filp_priv s filp = 0" and a: "answer s (hist s) ''__get_free_pages'' [NPAGEORDER] = p" "p \<noteq> 0"
  shows "\<exists>s1. if_open_t nm filp s = Inr (0, s1) \<and> filp_priv s1 filp = region_to_mmap_info p
    \<and> i_region (infos s1 (region_to_mmap_info p)) = p \<and> sched s1 = sched s \<and> wf_region (regs s1 p) {}
    \<and> (\<forall>q\<in>set live_qs. contents (regs s1 p) q = []) \<and> nfree (regs s1 p) = 376"
proof -
  let ?i = "region_to_mmap_info p"
  define s1 where "s1 = s\<lparr>hist := hist s @ [(''__get_free_pages'', [NPAGEORDER], p)],
    infos := (infos s)(?i := (infos s ?i)\<lparr>i_region := p\<rparr>)\<rparr>"
  obtain R where R: "k_init_region p s1 = Inr ((), s1\<lparr>regs := (regs s1)(p := R)\<rparr>)" "wf_region R {}"
    "\<forall>q\<in>set live_qs. contents R q = []" "nfree R = 376"
    using k_init_region_ok [of p s1] by blast
  let ?s2 = "s1\<lparr>regs := (regs s1)(p := R), filp_priv := (filp_priv s1)(filp := ?i)\<rparr>"
  have "if_open_t nm filp s = Inr (0, ?s2)"
    using f a R(1)
    by (simp add: if_open_t_def bindK_run seqK_run call_run upd_info_def region_to_mmap_info_def s1_def Let_def)
  then show ?thesis using R(2-4) by (intro exI [of _ ?s2]) (simp add: s1_def)
qed

text \<open>The test fills the queue with the numbers 1 to 100, and the first of them can be taken off again.\<close>

lemma fill_t_ok:
  assumes wf: "wf_region (regs s r) {}" and "sched s r = []" and "100 < nfree (regs s r)" and "r \<noteq> 0"
    and e: "contents (regs s r) Qreq = []"
  shows "\<exists>s1 vs. test_fill_queue_t r s = Inr ((), s1) \<and> wf_region (regs s1 r) {} \<and> sched s1 r = []
    \<and> nfree (regs s1 r) = nfree (regs s r) - 100 \<and> contents (regs s1 r) Qreq = vs
    \<and> numbers vs = map of_nat [1..<101]"
proof -
  have m: "100 = min 100 (nfree (regs s r))" using assms(3) by simp
  obtain s1 vs where f: "fill_queue 100 1 r s = Inr (1 + 100, s1)" "wf_region (regs s1 r) {}"
    "nfree (regs s1 r) = nfree (regs s r) - 100" "sched s1 r = []" "contents (regs s1 r) Qreq = contents (regs s r) Qreq @ vs"
    "numbers vs = map (\<lambda>i. of_nat i AND mask 52) [1..<1 + 100]"
    using fill_queue_ok [OF wf assms(2) m, of 1] by blast
  have low: "(of_nat i AND mask 52 :: 64 word) = of_nat i" if "i < 101" for i
    using that by (intro less_mask_eq) (simp add: word_less_nat_alt unat_of_nat take_bit_nat_eq_self)
  have "numbers vs = map of_nat [1..<101]"
    unfolding f(6) by (intro map_cong refl low) auto
  then show ?thesis using f e assms(4) by (auto simp: test_fill_queue_t_def bindK_run seqK_run)
qed

lemma fill_t_then_dequeue:
  assumes "wf_region (regs s r) {}" and "sched s r = []" and "100 < nfree (regs s r)" and "r \<noteq> 0"
    and "contents (regs s r) Qreq = []"
  shows "\<exists>s1 d s2. test_fill_queue_t r s = Inr ((), s1) \<and> nfree (regs s1 r) = nfree (regs s r) - 100
    \<and> k_dequeue r Qreq s1 = Inr (Some d, s2) \<and> bf_get 0 52 (fst (payload (regs s2 r) d)) = 1
    \<and> length (contents (regs s2 r) Qreq) = 99"
proof -
  obtain s1 vs where f: "test_fill_queue_t r s = Inr ((), s1)" "wf_region (regs s1 r) {}" "sched s1 r = []"
    "nfree (regs s1 r) = nfree (regs s r) - 100" "contents (regs s1 r) Qreq = vs" "numbers vs = map of_nat [1..<101]"
    using fill_t_ok [OF assms] by blast
  have n: "length vs = 100" "numbers vs = 1 # map of_nat [2..<101]"
    using arg_cong [OF f(6), of length] f(6) by (simp_all add: numbers_def upt_conv_Cons del: upt_Suc)
  have ne: "contents (regs s1 r) Qreq \<noteq> []" "0 < nfree (regs s1 r)" using n(1) f(4,5) assms(3) by auto
  obtain d R where d: "mig_dequeue (regs s1 r) Qreq = Inr (Some d, R)" "contents (regs s1 r) Qreq = payload R d # contents R Qreq"
    using wf_dequeue [OF f(2) qs_live(1) ne] by blast
  have "k_dequeue r Qreq s1 = Inr (Some d, s1\<lparr>regs := (regs s1)(r := R)\<rparr>)"
    using d(1) interfere_none [OF f(3)] by (simp add: k_dequeue_def seqK_run lib_op_def)
  moreover have "bf_get 0 52 (fst (payload R d)) = 1" "length (contents R Qreq) = 99"
    using n d(2) f(5) by (auto simp: numbers_def)
  ultimately show ?thesis using f(1,4) by auto
qed

section \<open>The first device file: opening, filling, faults\<close>

lemma mmapfop_open_ok:
  assumes a: "\<And>h xs. answer s h ''kmalloc(sizeof(struct mmap_info))'' xs = i" "i \<noteq> 0"
    and b: "\<And>h xs. answer s h ''__get_free_pages'' xs = p" "p \<noteq> 0"
  shows "\<exists>s1. mmapfop_open filp g s = Inr ((0, g\<lparr>m_ginfo := i, m_region := p\<rparr>), s1) \<and> filp_priv s1 filp = i
    \<and> i_region (infos s1 i) = p \<and> sched s1 = sched s \<and> wf_region (regs s1 p) {}
    \<and> (\<forall>q\<in>set live_qs. contents (regs s1 p) q = []) \<and> unat (ndescs (regs s1 p)) = 4091 \<and> nfree (regs s1 p) = 4088"
proof -
  define s1 where "s1 = s\<lparr>hist := hist s @ [(''kmalloc(sizeof(struct mmap_info))'', [], i), (''__get_free_pages'', [NPAGEORDER_mf], p)],
    infos := (infos s)(i := (infos s i)\<lparr>i_region := p\<rparr>)\<rparr>"
  have "(1::int) \<le> 32" "(32::int) \<le> 512" by simp_all
  from k_init_bytes_ok [OF this, of p s1]
  obtain R where R: "k_init_bytes p (NPAGES_mf * PAGE_SIZE) s1 = Inr ((), s1\<lparr>regs := (regs s1)(p := R)\<rparr>)" "wf_region R {}"
    "\<forall>q\<in>set live_qs. contents R q = []" "unat (ndescs R) = 4091" "nfree R = 4088"
    by (auto simp: NPAGES_mf_def PAGE_SIZE_def)
  let ?s2 = "s1\<lparr>regs := (regs s1)(p := R), filp_priv := (filp_priv s1)(filp := i)\<rparr>"
  have "mmapfop_open filp g s = Inr ((0, g\<lparr>m_ginfo := i, m_region := p\<rparr>), ?s2)"
    using a b R(1) by (simp add: mmapfop_open_def bindK_run seqK_run call_run upd_info_def s1_def)
  then show ?thesis using R(2-5) by (intro exI [of _ ?s2]) (simp add: s1_def)
qed

text \<open>With enough rounds the loop without a bound is the one with a bound that is not reached.\<close>

lemma fill_all_eq:
  assumes "wf_region (regs s r) {}" and "sched s r = []" and "nfree (regs s r) < k"
  shows "fill_all k n r s = fill_queue k n r s"
  using assms
proof (induction k arbitrary: n s)
  case (Suc k)
  note one = fill_one_ok [OF Suc.prems(1,2), of n]
  show ?case
  proof (cases "nfree (regs s r) = 0")
    case True
    then show ?thesis using one(1) by (simp add: bindK_run)
  next
    case False
    then obtain R where R: "fill_one n r s = Inr (True, s\<lparr>regs := (regs s)(r := R)\<rparr>)" "wf_region R {}"
      "nfree (regs s r) = Suc (nfree R)"
      using one(2) by auto
    then show ?thesis using Suc.IH [of "s\<lparr>regs := (regs s)(r := R)\<rparr>" "Suc n"] Suc.prems by (simp add: bindK_run)
  qed
qed simp

lemma nfree_ndescs:
  assumes "wf_region R own"
  shows "nfree R \<le> unat (ndescs R)"
proof -
  have "length (placed R) \<le> unat (ndescs R)"
    using wf_regionD(5,7) [OF assms] by (intro length_le_if_distinct_bounded) auto
  then show ?thesis by (simp add: placed_def nfree_def)
qed

lemma fill_mf_then_empty:
  assumes wf: "wf_region (regs s (m_region g)) {}" and "sched s (m_region g) = []" and "0 < nfree (regs s (m_region g))" and "m_region g \<noteq> 0"
  shows "\<exists>s1. test_fill_queue_mf g s = Inr ((), s1) \<and> nfree (regs s1 (m_region g)) = 0 \<and> test_empty_queue_mf g s1 = Inl Bug"
proof -
  let ?r = "m_region g"
  have fuel: "nfree (regs s ?r) < flush_fuel ?r s" using nfree_ndescs [OF wf] by (simp add: flush_fuel_def)
  then have m: "nfree (regs s ?r) = min (flush_fuel ?r s) (nfree (regs s ?r))" by simp
  obtain s1 vs where f: "fill_queue (flush_fuel ?r s) 1 ?r s = Inr (1 + nfree (regs s ?r), s1)" "wf_region (regs s1 ?r) {}"
    "nfree (regs s1 ?r) = 0" "sched s1 ?r = []" "contents (regs s1 ?r) Qreq = contents (regs s ?r) Qreq @ vs"
    "numbers vs = map (\<lambda>i. of_nat i AND mask 52) [1..<1 + nfree (regs s ?r)]"
    using fill_queue_ok [OF wf assms(2) m, of 1] by auto
  have "vs \<noteq> []" using f(6) assms(3) by (auto simp: numbers_def)
  then have "test_empty_queue ?r s1 = Inl Bug" using empty_exhausted [OF f(2,4,3)] f(5) by simp
  then show ?thesis
    using f(1,3) fill_all_eq [OF wf assms(2) fuel, of 1] assms(4)
    by (simp add: test_fill_queue_mf_def test_empty_queue_mf_def bindK_run seqK_run)
qed

text \<open>A fault is served with whatever page lies at the offset, inside the region or not.\<close>

lemma mmap_fault_mf_any:
  assumes "i_region (infos s (vma_priv s vma)) = d" and "d \<noteq> 0" and "\<And>h xs. answer s h ''virt_to_page'' xs \<noteq> 0"
  shows "\<exists>s1. mmap_fault_mf vma n s = Inr ((0, Some (answer s (hist s) ''virt_to_page'' [d + 4096 * int n])), s1)"
  using assms by (auto simp: mmap_fault_mf_def bindK_run get_info_def call_run exec_run seqK_run PAGE_SHIFT_def mult.commute)

section \<open>The prefetch register\<close>

lemma l2_read_line:
  assumes "20 \<le> sz"
  shows "\<exists>s1 v. l2_test_read sz 0 s = Inr ((9, hex8_line v, 9), s1) \<and> l2_test_read sz 9 s1 = Inr ((0, [], 9), s1)"
proof -
  have "length (hex8_line v) = 9" for v by (simp add: hex8_line_def)
  then show ?thesis using assms by (auto simp: l2_test_read_def read_reg_def bindK_run call_run Let_def)
qed

end
