(* ===== verification/EdmaTypes.thy ===== *)
theory EdmaTypes
  imports Monad
begin

text \<open>
  The user-space DMA wrapper \<^verbatim>\<open>libsmm/edma3.c\<close>: data, transfer geometry, and the calls of TI's
  low-level driver it makes.  That driver and its constants are not part of the repository: the
  success of a call is an answer, and its documented effect on the parameter sets (one per
  channel) is written out.  \<open>hw_done\<close> is what the hardware leaves in the parameter set of a
  channel when a transfer started on it has run.  The wrapper runs on a 32-bit machine:
  \<^verbatim>\<open>unsigned long\<close> has 32 bits.
\<close>

section \<open>Data\<close>

record paramset =
  opt :: "32 word"
  srcAddr :: "32 word"
  aCnt :: "16 word"
  bCnt :: "16 word"
  destAddr :: "32 word"
  srcBIdx :: "16 word"
  destBIdx :: "16 word"
  linkAddr :: "16 word"
  bCntReload :: "16 word"
  srcCIdx :: "16 word"
  destCIdx :: "16 word"
  cCnt :: "16 word"

definition zero_pset :: paramset where
  "zero_pset = \<lparr>opt = 0, srcAddr = 0, aCnt = 0, bCnt = 0, destAddr = 0, srcBIdx = 0, destBIdx = 0,
     linkAddr = 0, bCntReload = 0, srcCIdx = 0, destCIdx = 0, cCnt = 0\<rparr>"

text \<open>An outstanding transfer, an open channel, an outstanding gather.\<close>

record edma_xfer =
  x_hEdma :: int
  x_chId :: int
  x_tcc :: int

text \<open>
  The pointers \<open>logic_chs_ptr\<close>, \<open>links_ptr\<close> and \<open>pset_ptr\<close> with the arrays and the set they
  point to.
\<close>

record dma_ch_info =
  hedma :: int
  ch :: int
  tcc :: int
  link :: "16 word"
  logic_chs_ptr :: int
  logic_chs :: "int list"
  links_ptr :: int
  links :: "16 word list"
  logic_cnt :: int
  pset_ptr :: int
  pset :: paramset
  xfer_size :: "32 word"
  last_brcnt_link :: "32 word"
  last_opt :: "32 word"

record edma_xfer_scatter =
  sc_chinfo :: dma_ch_info
  sc_cnt :: int
  sc_totalsize :: int

text \<open>
  \<open>globalRegs\<close>, \<open>tcRegs\<close> are the configuration that is mapped, \<open>g_phys_cfg\<close> the copy of the
  physical address of the registers; \<open>umem\<close> is the process's memory as words; the three
  constants are of the low-level driver's header.
\<close>

record est = env +
  psets :: "int \<Rightarrow> paramset"
  hw_done :: "(int \<Rightarrow> paramset) \<Rightarrow> int \<Rightarrow> paramset"
  globalRegs :: "32 word"
  tcRegs :: "32 word list"
  g_phys_cfg :: "32 word"
  umem :: "32 word \<Rightarrow> 32 word"
  mutex :: int
  TCC_ANY :: int
  CHANNEL_ANY :: int
  LINK_CHANNEL :: int

type_synonym 'a edma = "(est, 'a) prog"

section \<open>The option word\<close>

definition OPT_SYNCDIM_SHIFT :: nat where "OPT_SYNCDIM_SHIFT = 2"
definition OPT_TCC_MASK :: "32 word" where "OPT_TCC_MASK = 0x3F000"
definition OPT_TCC_SHIFT :: nat where "OPT_TCC_SHIFT = 12"
definition OPT_TCINTEN_SHIFT :: nat where "OPT_TCINTEN_SHIFT = 20"
definition OPT_ITCINTEN_SHIFT :: nat where "OPT_ITCINTEN_SHIFT = 21"
definition OPT_TCCHEN_SHIFT :: nat where "OPT_TCCHEN_SHIFT = 22"
definition OPT_ITCCHEN_SHIFT :: nat where "OPT_ITCCHEN_SHIFT = 23"

definition opt_set :: "nat \<Rightarrow> 32 word \<Rightarrow> 32 word" where "opt_set n w = w OR push_bit n 1"
definition opt_clr :: "nat \<Rightarrow> 32 word \<Rightarrow> 32 word" where "opt_clr n w = w AND NOT (push_bit n 1)"

definition opt_tcc :: "int \<Rightarrow> 32 word \<Rightarrow> 32 word" where
  "opt_tcc t w = w OR (push_bit OPT_TCC_SHIFT (of_int t) AND OPT_TCC_MASK)"

definition opt_incr :: "32 word \<Rightarrow> 32 word" where "opt_incr w = w AND 0xFFFFFFFC"

datatype sync_type = SYNC_A | SYNC_AB

definition opt_sync :: "sync_type \<Rightarrow> 32 word \<Rightarrow> 32 word" where
  "opt_sync st w = (case st of SYNC_A \<Rightarrow> w AND 0xFFFFFFFB | SYNC_AB \<Rightarrow> opt_set OPT_SYNCDIM_SHIFT w)"

text \<open>Interrupt and chaining bits of an inner set of a chain, and of the last.\<close>

definition opt_chain :: "32 word \<Rightarrow> 32 word" where
  "opt_chain w = opt_clr OPT_ITCCHEN_SHIFT (opt_set OPT_TCCHEN_SHIFT
     (opt_clr OPT_TCINTEN_SHIFT (opt_clr OPT_ITCINTEN_SHIFT w)))"

definition opt_last :: "32 word \<Rightarrow> 32 word" where
  "opt_last w = opt_clr OPT_ITCCHEN_SHIFT (opt_clr OPT_TCCHEN_SHIFT
     (opt_set OPT_TCINTEN_SHIFT (opt_clr OPT_ITCINTEN_SHIFT w)))"

section \<open>Geometry\<close>

record geometry =
  g_acnt :: int
  g_bcnt :: int
  g_ccnt :: int
  g_bidx :: int
  g_cidx :: int
  g_brcnt :: int
  g_sync :: sync_type

definition SZ_32K :: nat where "SZ_32K = 32 * 1024"
definition SZ_64K :: nat where "SZ_64K = 64 * 1024"

text \<open>
  The search doubles \<^verbatim>\<open>narrays\<close> while it is at most 32K; it starts at 1, so the test for 0 only
  serves the termination of the definition.
\<close>

function find_arrays :: "nat \<Rightarrow> nat \<Rightarrow> nat option" where
  "find_arrays sz n =
     (if n = 0 \<or> SZ_32K < n then None
      else if sz mod (n * 2) \<noteq> 0 \<or> SZ_32K \<le> sz div (n * 2) then find_arrays sz (n * 2)
      else Some (n * 2))"
  by pat_completeness auto

termination
  by (relation "measure (\<lambda>(sz, n). SZ_32K + 1 - n)") auto

text \<open>The product of the C ints \<^verbatim>\<open>acnt\<close> and \<^verbatim>\<open>bcnt\<close> wraps around.\<close>

definition int_mult :: "int \<Rightarrow> int \<Rightarrow> int" where
  "int_mult a b = sint (of_int (a * b) :: 32 word)"

definition get_xfer_geometry :: "32 word \<Rightarrow> fault + geometry" where
  "get_xfer_geometry sz =
     bindE (if unat sz < SZ_64K then Inr (SYNC_A, int (unat sz), 1)
            else case find_arrays (unat sz) 1 of None \<Rightarrow> Inl Assert_failed
              | Some n \<Rightarrow> Inr (SYNC_AB, int (unat sz div n), int n)) (\<lambda>(st, acnt, bcnt).
     let bidx = acnt;
         cidx = (case st of SYNC_A \<Rightarrow> acnt | SYNC_AB \<Rightarrow> int_mult acnt bcnt)
     in
     bindE (guardE Assert_failed (1 < bcnt \<longrightarrow> bidx \<le> 32767)) (\<lambda>_.
     Inr \<lparr>g_acnt = acnt, g_bcnt = bcnt, g_ccnt = 1, g_bidx = bidx, g_cidx = cidx,
          g_brcnt = bcnt, g_sync = st\<rparr>))"

definition geom :: "32 word \<Rightarrow> geometry edma" where
  "geom sz = (\<lambda>s. case get_xfer_geometry sz of Inl e \<Rightarrow> Inl e | Inr g \<Rightarrow> Inr (g, s))"

text \<open>The members of a parameter set are narrower than the variables they are assigned from.\<close>

definition load_geometry :: "geometry \<Rightarrow> paramset \<Rightarrow> paramset" where
  "load_geometry g P = P\<lparr>srcBIdx := of_int (g_bidx g), destBIdx := of_int (g_bidx g),
     srcCIdx := of_int (g_cidx g), destCIdx := of_int (g_cidx g), aCnt := of_int (g_acnt g),
     bCnt := of_int (g_bcnt g), cCnt := of_int (g_ccnt g), bCntReload := of_int (g_brcnt g)\<rparr>"

section \<open>Calls of the low-level driver\<close>

text \<open>Each returns whether the result was \<^verbatim>\<open>EDMA3_DRV_SOK\<close>.\<close>

definition setPaRAM :: "int \<Rightarrow> int \<Rightarrow> paramset \<Rightarrow> bool edma" where
  "setPaRAM h c P = (bindK (callb ''EDMA3_DRV_setPaRAM'' [h, c]) (\<lambda>ok.
    seqK (whenK ok (modK (\<lambda>s. s\<lparr>psets := (psets s)(c := P)\<rparr>))) (
    ret ok)))"

definition getPaRAM :: "int \<Rightarrow> int \<Rightarrow> (bool \<times> paramset) edma" where
  "getPaRAM h c = (bindK (callb ''EDMA3_DRV_getPaRAM'' [h, c]) (\<lambda>ok.
    bindK (getK (\<lambda>s. psets s c)) (\<lambda>P.
    ret (ok, P))))"

text \<open>The four entries of a set that the wrapper writes one at a time; an entry is a 32-bit word.\<close>

datatype param_entry = ENTRY_SRC | ENTRY_DST | ENTRY_LINK_BCNTRLD | ENTRY_OPT

definition set_entry :: "param_entry \<Rightarrow> 32 word \<Rightarrow> paramset \<Rightarrow> paramset" where
  "set_entry e v P = (case e of ENTRY_SRC \<Rightarrow> P\<lparr>srcAddr := v\<rparr> | ENTRY_DST \<Rightarrow> P\<lparr>destAddr := v\<rparr>
     | ENTRY_LINK_BCNTRLD \<Rightarrow> P\<lparr>linkAddr := ucast v, bCntReload := ucast (drop_bit 16 v)\<rparr>
     | ENTRY_OPT \<Rightarrow> P\<lparr>opt := v\<rparr>)"

definition setPaRAMEntry :: "int \<Rightarrow> int \<Rightarrow> param_entry \<Rightarrow> 32 word \<Rightarrow> unit edma" where
  "setPaRAMEntry h c e v = (bindK (callb ''EDMA3_DRV_setPaRAMEntry'' [h, c]) (\<lambda>ok.
    seqK (whenK ok (modK (\<lambda>s. s\<lparr>psets := (psets s)(c := set_entry e v (psets s c))\<rparr>))) (
    assertK ok)))"

text \<open>A channel and a completion code are asked for and returned through pointers.\<close>

definition requestChannel :: "int \<Rightarrow> int \<Rightarrow> int \<Rightarrow> (bool \<times> int \<times> int) edma" where
  "requestChannel h c t = (bindK (callb ''EDMA3_DRV_requestChannel'' [h, c, t]) (\<lambda>ok.
    bindK (call ''EDMA3_DRV_requestChannel.pLCh'' [h, c, t]) (\<lambda>c1.
    bindK (call ''EDMA3_DRV_requestChannel.pTcc'' [h, c, t]) (\<lambda>t1.
    ret (ok, c1, t1)))))"

definition freeChannel :: "int \<Rightarrow> int \<Rightarrow> unit edma" where
  "freeChannel h c = bindK (callb ''EDMA3_DRV_freeChannel'' [h, c]) assertK"

definition enableTransfer :: "int \<Rightarrow> int \<Rightarrow> bool edma" where
  "enableTransfer h c = (bindK (callb ''EDMA3_DRV_enableTransfer'' [h, c]) (\<lambda>ok.
    seqK (whenK ok (modK (\<lambda>s. s\<lparr>psets := (psets s)(c := hw_done s (psets s) c)\<rparr>))) (
    ret ok)))"

definition waitAndClearTcc :: "int \<Rightarrow> int \<Rightarrow> unit edma" where
  "waitAndClearTcc h t = bindK (callb ''EDMA3_DRV_waitAndClearTcc'' [h, t]) assertK"

text \<open>Memory: \<^verbatim>\<open>malloc\<close> must succeed, \<^verbatim>\<open>free\<close> of a pointer that is not null.\<close>

definition malloc :: "int \<Rightarrow> int edma" where
  "malloc n = (bindK (call ''malloc'' [n]) (\<lambda>p.
    seqK (assertK (p \<noteq> 0)) (
    ret p)))"

definition free_ptr :: "int \<Rightarrow> unit edma" where
  "free_ptr p = whenK (p \<noteq> 0) (exec ''free'' [p])"

end
