(* ===== verification/Edma.thy ===== *)
theory Edma
  imports EdmaTypes
begin

text \<open>
  The operations of \<^verbatim>\<open>libsmm/edma3.c\<close>: mapping the registers, opening and closing channels,
  single transfers, linked and chained transfers, gathers, and waiting.
\<close>

section \<open>Registers\<close>

text \<open>The result is 0 when the size or the address is not a multiple of the page size.\<close>

definition edma3_mmap :: "32 word \<Rightarrow> 32 word \<Rightarrow> 32 word edma" where
  "edma3_mmap addr sz = (bindK (call ''sysconf(_SC_PAGE_SIZE)'' []) (\<lambda>page_size.
    if sz mod of_int page_size \<noteq> 0 then ret 0
     else if addr mod of_int page_size \<noteq> 0 then ret 0
     else (bindK (call ''mmap'' [uint sz, uint addr]) (\<lambda>v.
       seqK (assertK (of_int v \<noteq> (-1 :: 32 word))) (
       ret (of_int v))))))"

definition setupEdmaConfig :: "int edma" where
  "setupEdmaConfig = (seqK (modK (\<lambda>s. s\<lparr>g_phys_cfg := globalRegs s\<rparr>)) (
    bindK (getK globalRegs) (\<lambda>a.
    bindK (edma3_mmap a 0x8000) (\<lambda>v.
    seqK (modK (\<lambda>s. s\<lparr>globalRegs := v\<rparr>)) (
    bindK (getK tcRegs) (\<lambda>tcs.
    bindK (foldK (\<lambda>acc t. if t \<noteq> 0 then bindK (edma3_mmap t 0x1000) (\<lambda>v. ret (acc @ [v]))
                    else ret (acc @ [t])) [] tcs) (\<lambda>vs.
    seqK (modK (\<lambda>s. s\<lparr>tcRegs := vs\<rparr>)) (
    ret 1))))))))"

text \<open>The range check joins two conditions that exclude each other with \<^verbatim>\<open>&&\<close>.\<close>

definition edma3_get_param_phys :: "int \<Rightarrow> int \<Rightarrow> 32 word edma" where
  "edma3_get_param_phys h chid = (bindK (getK globalRegs) (\<lambda>rv.
    bindK (getK g_phys_cfg) (\<lambda>rp.
    seqK (assertK (rv < 0xc0000000)) (
    bindK (callb ''EDMA3_DRV_getPaRAMPhyAddr'' [h, chid]) (\<lambda>ok.
    bindK (call ''EDMA3_DRV_getPaRAMPhyAddr.addr'' [h, chid]) (\<lambda>v.
    let pv = of_int v in
    seqK (assertK ok) (
    seqK (assertK (\<not> (pv < rv \<and> rv + 0x8000 \<le> pv))) (
    seqK (assertK (rp \<noteq> 0)) (
    seqK (assertK (rp < rv)) (
    ret (pv - rv + rp)))))))))))"

definition edma3_init :: "int edma" where
  "edma3_init = (bindK (call ''open(/dev/mem)'' []) (\<lambda>fd.
    seqK (assertK (fd \<noteq> -1)) (
    bindK setupEdmaConfig (\<lambda>v.
    seqK (exec ''EDMA3_DRV_create'' [0]) (
    bindK (call ''EDMA3_DRV_open'' [0]) (\<lambda>h.
    seqK (assertK (h \<noteq> 0)) (
    bindK (callb ''EDMA3_DRV_open.errorCode == EDMA3_DRV_SOK'' [0]) (\<lambda>ok.
    seqK (assertK ok) (
    bindK (callb ''EDMA3_DRV_setEvtQPriority'' (h # replicate 8 7)) (\<lambda>ok1.
    seqK (assertK ok1) (
    ret h)))))))))))"

definition edma3_fini :: "int edma" where
  "edma3_fini = (seqK (exec ''close(dev_mem_fd)'' []) (
    ret 0))"

section \<open>Channels\<close>

definition edma3_allocate_channel_linked :: "int \<Rightarrow> int \<Rightarrow> dma_ch_info edma" where
  "edma3_allocate_channel_linked h cnt = (bindK (malloc 44) (\<lambda>p.
    bindK (getK TCC_ANY) (\<lambda>any.
    bindK (getK CHANNEL_ANY) (\<lambda>chany.
    bindK (requestChannel h chany any) (\<lambda>(ok, c, t).
    seqK (assertK ok) (
    seqK (assertK (t \<noteq> any)) (
    seqK (assertK (c \<noteq> chany)) (
    bindK (call ''malloc'' [cnt * 4]) (\<lambda>lp.
    bindK (call ''malloc'' [cnt * 2]) (\<lambda>kp.
    seqK (assertK (lp \<noteq> 0)) (
    bindK (getK LINK_CHANNEL) (\<lambda>lnk.
    bindK (foldK (\<lambda>(chs, ids, t) i. (bindK (requestChannel h lnk t) (\<lambda>(ok, c1, t1).
       seqK (assertK ok) (
       bindK (edma3_get_param_phys h c1) (\<lambda>pa.
       ret (chs @ [c1], ids @ [ucast (pa AND 0xffff) :: 16 word], t1)))))) ([], [], any) [0..<nat cnt]) (\<lambda>(chs, ids, t2).
    if cnt \<le> 0 \<or> kp = 0 then failK Bad_access
     else ret \<lparr>hedma = h, ch = c, tcc = t, link = hd ids, logic_chs_ptr = lp, logic_chs = chs,
       links_ptr = kp, links = tl ids @ [0xffff], logic_cnt = cnt, pset_ptr = 0, pset = zero_pset,
       xfer_size = 0, last_brcnt_link = 0, last_opt = 0\<rparr>)))))))))))))"

text \<open>\<^verbatim>\<open>links\<close> is not initialised here: it holds what the allocated memory held.\<close>

definition edma3_allocate_channel :: "int \<Rightarrow> dma_ch_info edma" where
  "edma3_allocate_channel h = (bindK (malloc 44) (\<lambda>p.
    bindK (getK TCC_ANY) (\<lambda>any.
    bindK (getK CHANNEL_ANY) (\<lambda>chany.
    bindK (requestChannel h chany any) (\<lambda>(ok, c, t).
    seqK (assertK ok) (
    seqK (assertK (t \<noteq> any)) (
    seqK (assertK (c \<noteq> chany)) (
    bindK (call ''uninitialised links'' [p]) (\<lambda>garbage.
    ret \<lparr>hedma = h, ch = c, tcc = t, link = 0, logic_chs_ptr = 0, logic_chs = [],
       links_ptr = garbage, links = [], logic_cnt = 0, pset_ptr = 0, pset = zero_pset,
       xfer_size = 0, last_brcnt_link = 0, last_opt = 0\<rparr>)))))))))"

definition edma3_free_channel :: "dma_ch_info \<Rightarrow> unit edma" where
  "edma3_free_channel ci = (seqK (freeChannel (hedma ci) (ch ci)) (
    seqK (forK [0..<nat (logic_cnt ci)] (\<lambda>i. freeChannel (hedma ci) (logic_chs ci ! i))) (
    seqK (free_ptr (logic_chs_ptr ci)) (
    seqK (free_ptr (links_ptr ci)) (
    seqK (free_ptr (pset_ptr ci)) (
    exec ''free chinfo'' [ch ci]))))))"

section \<open>Single transfers\<close>

text \<open>The set of a transfer that interrupts when it is done, unlinked.\<close>

definition once_pset :: "32 word \<Rightarrow> 32 word \<Rightarrow> geometry \<Rightarrow> int \<Rightarrow> paramset" where
  "once_pset src dest g t =
     (load_geometry g zero_pset)\<lparr>srcAddr := src, destAddr := dest, linkAddr := 0xffff,
        opt := opt_sync (g_sync g) (opt_set OPT_TCINTEN_SHIFT (opt_set OPT_ITCINTEN_SHIFT
                 (opt_tcc t (opt_incr 0))))\<rparr>"

definition edma3_start_xfer_once1 :: "dma_ch_info \<Rightarrow> 32 word \<Rightarrow> 32 word \<Rightarrow> 32 word \<Rightarrow> edma_xfer edma" where
  "edma3_start_xfer_once1 ci src dest sz = (bindK (malloc 24) (\<lambda>p.
    bindK (geom sz) (\<lambda>g.
    bindK (setPaRAM (hedma ci) (ch ci) (once_pset src dest g (tcc ci))) (\<lambda>ok.
    seqK (assertK ok) (
    bindK (enableTransfer (hedma ci) (ch ci)) (\<lambda>ok1.
    seqK (assertK ok1) (
    ret \<lparr>x_hEdma = hedma ci, x_chId = ch ci, x_tcc = tcc ci\<rparr>)))))))"

definition edma3_start_xfer_once :: "int \<Rightarrow> 32 word \<Rightarrow> 32 word \<Rightarrow> 32 word \<Rightarrow> edma_xfer edma" where
  "edma3_start_xfer_once h src dest sz = (bindK (malloc 24) (\<lambda>p.
    bindK (geom sz) (\<lambda>g.
    bindK (getK TCC_ANY) (\<lambda>any.
    bindK (getK CHANNEL_ANY) (\<lambda>chany.
    bindK (requestChannel h chany any) (\<lambda>(ok, c, t).
    seqK (assertK ok) (
    bindK (setPaRAM h c (once_pset src dest g t)) (\<lambda>ok1.
    seqK (assertK ok1) (
    bindK (enableTransfer h c) (\<lambda>ok2.
    seqK (assertK ok2) (
    ret \<lparr>x_hEdma = h, x_chId = c, x_tcc = t\<rparr>)))))))))))"

definition edma3_wait_xfer :: "edma_xfer \<Rightarrow> unit edma" where
  "edma3_wait_xfer x = (seqK (waitAndClearTcc (x_hEdma x) (x_tcc x)) (
    freeChannel (x_hEdma x) (x_chId x)))"

definition edma3_wait_xfer1 :: "edma_xfer \<Rightarrow> unit edma" where
  "edma3_wait_xfer1 x = waitAndClearTcc (x_hEdma x) (x_tcc x)"

definition edma3_check_xfer :: "edma_xfer \<Rightarrow> int edma" where
  "edma3_check_xfer x = (bindK (callb ''EDMA3_DRV_checkAndClearTcc'' [x_hEdma x, x_chId x]) (\<lambda>ok.
    bindK (call ''EDMA3_DRV_checkAndClearTcc.status'' [x_hEdma x, x_chId x]) (\<lambda>st.
    seqK (assertK ok) (
    ret st))))"

section \<open>The same transfer many times\<close>

text \<open>One more set: linked from the previous one, and a copy of it.\<close>

definition link_copy :: "int \<Rightarrow> int \<times> int list \<times> int \<Rightarrow> nat \<Rightarrow> (int \<times> int list \<times> int) edma" where
  "link_copy h = (\<lambda>(prev, chs, t) i. (bindK (getK LINK_CHANNEL) (\<lambda>lnk.
    bindK (requestChannel h lnk t) (\<lambda>(ok, c, t1).
    seqK (assertK ok) (
    bindK (getPaRAM h prev) (\<lambda>(ok1, P).
    seqK (assertK ok1) (
    bindK (edma3_get_param_phys h c) (\<lambda>pa.
    bindK (setPaRAM h prev (P\<lparr>linkAddr := ucast (pa AND 0xffff)\<rparr>)) (\<lambda>ok2.
    seqK (assertK ok2) (
    bindK (setPaRAM h c (P\<lparr>linkAddr := 0xffff\<rparr>)) (\<lambda>ok3.
    ret (c, chs @ [c], t1))))))))))))"

text \<open>\<open>cnt\<close> is at least 1; with 1 the array of logical channels is empty.\<close>

definition edma3_start_xfer_multiple :: "int \<Rightarrow> 32 word \<Rightarrow> 32 word \<Rightarrow> 32 word \<Rightarrow> nat \<Rightarrow> int edma" where
  "edma3_start_xfer_multiple h src dest sz cnt = (bindK (malloc 24) (\<lambda>p.
    bindK (geom sz) (\<lambda>g.
    bindK (getK TCC_ANY) (\<lambda>any.
    bindK (getK CHANNEL_ANY) (\<lambda>chany.
    bindK (requestChannel h chany any) (\<lambda>(ok, c, t).
    seqK (assertK ok) (
    bindK (setPaRAM h c (once_pset src dest g t)) (\<lambda>ok1.
    seqK (assertK ok1) (
    bindK (edma3_get_param_phys h c) (\<lambda>pa.
    bindK (malloc (4 * (int cnt - 1))) (\<lambda>lp.
    bindK (foldK (link_copy h) (c, [], t) [0..<cnt - 1]) (\<lambda>(prev, chs, t1).
    bindK (enableTransfer h c) (\<lambda>ok2.
    seqK (assertK ok2) (
    seqK (waitAndClearTcc h t1) (
    bindK (edma3_get_param_phys h c) (\<lambda>pa1.
    bindK (getPaRAM h c) (\<lambda>(ok3, P).
    seqK (assertK ok3) (
    seqK (forK [0..<cnt - 1] (\<lambda>i. (bindK (enableTransfer h c) (\<lambda>ok4.
       seqK (assertK ok4) (
       seqK (waitAndClearTcc h t1) (
       bindK (edma3_get_param_phys h c) (\<lambda>pa2.
       bindK (getPaRAM h c) (\<lambda>(ok5, P1).
       ret ())))))))) (
    seqK (freeChannel h c) (
    seqK (forK [0..<cnt - 1] (\<lambda>i. freeChannel h (chs ! i))) (
    ret 0)))))))))))))))))))))"

section \<open>One transfer split into a self-chaining sequence\<close>

definition chain_pset :: "32 word \<Rightarrow> 32 word \<Rightarrow> geometry \<Rightarrow> int \<Rightarrow> paramset" where
  "chain_pset src dest g t =
     (load_geometry g zero_pset)\<lparr>srcAddr := src, destAddr := dest, linkAddr := 0xffff,
        opt := opt_sync (g_sync g) (opt_chain (opt_tcc t (opt_incr 0)))\<rparr>"

text \<open>The \<open>i\<close>-th further set: its slice of the transfer; the last one interrupts.\<close>

definition link_next ::
  "int \<Rightarrow> int \<Rightarrow> 32 word \<Rightarrow> 32 word \<Rightarrow> 32 word \<Rightarrow> nat \<Rightarrow> int \<times> int list \<times> int \<Rightarrow> nat
     \<Rightarrow> (int \<times> int list \<times> int) edma" where
  "link_next h c0 src dest sz cnt = (\<lambda>(prev, chs, t) i. (bindK (getK LINK_CHANNEL) (\<lambda>lnk.
    bindK (requestChannel h lnk t) (\<lambda>(ok, c, t1).
    seqK (assertK ok) (
    bindK (getPaRAM h prev) (\<lambda>(ok1, P).
    seqK (assertK ok1) (
    bindK (edma3_get_param_phys h c) (\<lambda>pa.
    bindK (setPaRAM h prev (P\<lparr>linkAddr := ucast (pa AND 0xffff)\<rparr>)) (\<lambda>ok2.
    seqK (assertK ok2) (
    bindK (setPaRAM h c (P\<lparr>srcAddr := src + of_nat (i + 1) * sz, destAddr := dest + of_nat (i + 1) * sz,
              linkAddr := 0xffff,
              opt := (if i + 2 \<noteq> cnt then opt_chain (opt_tcc c0 (opt P))
                      else opt_last (opt_tcc c0 (opt P)))\<rparr>)) (\<lambda>ok3.
    seqK (assertK ok3) (
    ret (c, chs @ [c], t1)))))))))))))"

definition edma3_start_xfer_multiple_selfchaining ::
  "int \<Rightarrow> 32 word \<Rightarrow> 32 word \<Rightarrow> 32 word \<Rightarrow> nat \<Rightarrow> int edma" where
  "edma3_start_xfer_multiple_selfchaining h src dest totalsize cnt = (let sz = totalsize div of_nat cnt in
    seqK (assertK (totalsize mod of_nat cnt = 0)) (
    bindK (malloc 24) (\<lambda>p.
    bindK (geom sz) (\<lambda>g.
    bindK (getK TCC_ANY) (\<lambda>any.
    bindK (requestChannel h 2 any) (\<lambda>(ok, c, t).
    seqK (assertK ok) (
    bindK (setPaRAM h c (chain_pset src dest g t)) (\<lambda>ok1.
    seqK (assertK ok1) (
    bindK (edma3_get_param_phys h c) (\<lambda>pa.
    bindK (malloc (4 * (int cnt - 1))) (\<lambda>lp.
    bindK (foldK (link_next h c src dest sz cnt) (c, [], t) [0..<cnt - 1]) (\<lambda>(prev, chs, t1).
    bindK (enableTransfer h c) (\<lambda>ok2.
    seqK (assertK ok2) (
    seqK (waitAndClearTcc h t1) (
    bindK (edma3_get_param_phys h c) (\<lambda>pa1.
    bindK (getPaRAM h c) (\<lambda>(ok3, P).
    seqK (freeChannel h c) (
    seqK (forK [0..<cnt - 1] (\<lambda>i. freeChannel h (chs ! i))) (
    ret 0)))))))))))))))))))"

section \<open>Gathers\<close>

text \<open>The strides of the arrays of buffers, offsets and sizes; a stride is 0 or at least a word.\<close>

record gather_args =
  srcs :: "32 word"
  src_stride :: "32 word"
  voffsets :: "32 word"
  voffset_stride :: "32 word"
  sizes :: "32 word"
  size_stride :: "32 word"

definition stride_ok :: "32 word \<Rightarrow> bool" where
  "stride_ok st \<longleftrightarrow> st = 0 \<or> (4 :: 32 word) \<le> st"

definition gather_chan :: "dma_ch_info \<Rightarrow> nat \<Rightarrow> int" where
  "gather_chan ci i = (if i = 0 then ch ci else logic_chs ci ! (i - 1))"

definition gather_link :: "dma_ch_info \<Rightarrow> nat \<Rightarrow> nat \<Rightarrow> 16 word" where
  "gather_link ci cnt i = (if i = 0 then link ci else if i = cnt - 1 then 0xffff else links ci ! (i - 1))"

text \<open>
  One buffer; the local parameter set, the size of the previous buffer and the offset in the
  destination are carried along.
\<close>

definition gather_one ::
  "dma_ch_info \<Rightarrow> gather_args \<Rightarrow> nat \<Rightarrow> 32 word \<Rightarrow> paramset \<times> 32 word \<times> 32 word \<Rightarrow> nat
     \<Rightarrow> (paramset \<times> 32 word \<times> 32 word) edma" where
  "gather_one ci a cnt dest = (\<lambda>(P, prev, off) i. (bindK (getK (\<lambda>s. umem s (voffsets a + of_nat i * voffset_stride a))) (\<lambda>voff.
    seqK (assertK (0 < voff)) (
    bindK (getK (\<lambda>s. umem s (sizes a + of_nat i * size_stride a))) (\<lambda>sz.
    bindK (getK (\<lambda>s. umem s (srcs a + of_nat i * src_stride a))) (\<lambda>v.
    bindK (if sz \<noteq> prev then bindK (geom sz) (\<lambda>g. ret ((load_geometry g P)\<lparr>opt := opt_sync (g_sync g) (opt P)\<rparr>))
            else seqK (assertK (i \<noteq> 0)) (ret P)) (\<lambda>P1.
    seqK (assertK (tcc ci = ch ci)) (
    let w = (if i = 0 then opt_tcc (ch ci) (opt_incr (opt P1) AND NOT OPT_TCC_MASK) else opt P1) in
    let P2 = P1\<lparr>srcAddr := v - voff, destAddr := dest + off, linkAddr := gather_link ci cnt i,
                opt := (if i \<noteq> cnt - 1 then opt_chain w else opt_last w)\<rparr> in
    bindK (setPaRAM (hedma ci) (gather_chan ci i) P2) (\<lambda>ok.
    seqK (assertK ok) (
    ret (P2, sz, off + sz)))))))))))"

definition edma3_start_gather ::
  "dma_ch_info \<Rightarrow> gather_args \<Rightarrow> nat \<Rightarrow> 32 word \<Rightarrow> edma_xfer_scatter edma" where
  "edma3_start_gather ci a cnt dest = (seqK (assertK (stride_ok (src_stride a))) (
    seqK (assertK (stride_ok (size_stride a))) (
    seqK (assertK (stride_ok (voffset_stride a))) (
    bindK (malloc 20) (\<lambda>p.
    seqK (assertK (int cnt \<le> logic_cnt ci + 1)) (
    bindK (foldK (gather_one ci a cnt dest) (zero_pset, 0, 0) [0..<cnt]) (\<lambda>(P, prev, off).
    bindK (enableTransfer (hedma ci) (ch ci)) (\<lambda>ok.
    seqK (assertK ok) (
    ret \<lparr>sc_chinfo = ci, sc_cnt = int cnt, sc_totalsize = sint off\<rparr>)))))))))"

text \<open>All sets of a channel get the geometry of one size; the local set becomes the default.\<close>

definition preload_psets :: "dma_ch_info \<Rightarrow> 32 word \<Rightarrow> dma_ch_info edma" where
  "preload_psets ci sz = (seqK (assertK (pset_ptr ci = 0)) (
    bindK (malloc 32) (\<lambda>p.
    bindK (geom sz) (\<lambda>g.
    seqK (assertK (tcc ci = ch ci)) (
    let P = load_geometry g zero_pset in
    let w = opt_chain (opt_tcc (tcc ci) (opt_incr (opt_sync (g_sync g) 0) AND NOT OPT_TCC_MASK)) in
    let P0 = P\<lparr>opt := w\<rparr> in
    bindK (setPaRAM (hedma ci) (ch ci) (P0\<lparr>linkAddr := link ci\<rparr>)) (\<lambda>ok.
    seqK (assertK ok) (
    seqK (forK [0..<nat (logic_cnt ci)] (\<lambda>i. (bindK (setPaRAM (hedma ci) (logic_chs ci ! i) (P0\<lparr>linkAddr := links ci ! i\<rparr>)) (\<lambda>ok.
       assertK ok)))) (
    ret (ci\<lparr>pset_ptr := p, pset := P0\<lparr>linkAddr := 0\<rparr>, xfer_size := sz,
       last_brcnt_link := (push_bit 16 (of_int (g_brcnt g)) OR 0xffff),
       last_opt := opt_last w\<rparr>)))))))))"

definition gather_one_preloaded ::
  "dma_ch_info \<Rightarrow> gather_args \<Rightarrow> nat \<Rightarrow> 32 word \<Rightarrow> 32 word \<Rightarrow> nat \<Rightarrow> 32 word edma" where
  "gather_one_preloaded ci a cnt dest off i = (bindK (getK (\<lambda>s. umem s (voffsets a + of_nat i * voffset_stride a))) (\<lambda>voff.
    seqK (assertK (0 < voff)) (
    bindK (getK (\<lambda>s. umem s (srcs a + of_nat i * src_stride a))) (\<lambda>v.
    seqK (setPaRAMEntry (hedma ci) (gather_chan ci i) ENTRY_SRC (v - voff)) (
    seqK (setPaRAMEntry (hedma ci) (gather_chan ci i) ENTRY_DST (dest + off)) (
    seqK (whenK (i = cnt - 1) (seqK (setPaRAMEntry (hedma ci) (gather_chan ci i) ENTRY_LINK_BCNTRLD (last_brcnt_link ci)) (
       setPaRAMEntry (hedma ci) (gather_chan ci i) ENTRY_OPT (last_opt ci)))) (
    ret (off + xfer_size ci))))))))"

definition edma3_start_gather_preloaded ::
  "dma_ch_info \<Rightarrow> gather_args \<Rightarrow> nat \<Rightarrow> 32 word \<Rightarrow> edma_xfer_scatter edma" where
  "edma3_start_gather_preloaded ci a cnt dest = (seqK (assertK (pset_ptr ci \<noteq> 0)) (
    seqK (assertK (stride_ok (src_stride a))) (
    seqK (assertK (stride_ok (voffset_stride a))) (
    bindK (malloc 20) (\<lambda>p.
    seqK (assertK (int cnt \<le> logic_cnt ci + 1)) (
    bindK (foldK (gather_one_preloaded ci a cnt dest) 0 [0..<cnt]) (\<lambda>off.
    bindK (enableTransfer (hedma ci) (ch ci)) (\<lambda>ok.
    seqK (assertK ok) (
    ret \<lparr>sc_chinfo = ci, sc_cnt = int cnt, sc_totalsize = sint off\<rparr>)))))))))"

definition edma3_wait_gather :: "edma_xfer_scatter \<Rightarrow> int edma" where
  "edma3_wait_gather x = (seqK (waitAndClearTcc (hedma (sc_chinfo x)) (tcc (sc_chinfo x))) (
    ret 0))"

text \<open>The sets that the hardware or the gather clobbered get their default values back.\<close>

definition edma3_wait_gather_preloaded :: "edma_xfer_scatter \<Rightarrow> dma_ch_info edma" where
  "edma3_wait_gather_preloaded x = (let ci = sc_chinfo x in
    seqK (waitAndClearTcc (hedma ci) (tcc ci)) (
    bindK (setPaRAM (hedma ci) (ch ci) ((pset ci)\<lparr>linkAddr := link ci\<rparr>)) (\<lambda>ok.
    seqK (assertK ok) (
    seqK (whenK (1 < sc_cnt x) (let j = nat (sc_cnt x - 2) in
       bindK (setPaRAM (hedma ci) (logic_chs ci ! j) ((pset ci)\<lparr>linkAddr := links ci ! j\<rparr>)) (\<lambda>ok.
       assertK ok))) (
    ret (ci\<lparr>pset := (pset ci)\<lparr>linkAddr := 0\<rparr>\<rparr>))))))"

section \<open>The semaphore of the low-level driver\<close>

text \<open>\<^verbatim>\<open>sem_wait\<close> blocks on 0: then \<open>edma3OsSemGive\<close> returns False.\<close>

definition edma3OsSemCreate :: "unit edma" where
  "edma3OsSemCreate = modK (\<lambda>s. s\<lparr>mutex := 1\<rparr>)"

definition edma3OsSemDelete :: "unit edma" where
  "edma3OsSemDelete = exec ''sem_destroy'' []"

definition edma3OsSemTake :: "unit edma" where
  "edma3OsSemTake = modK (\<lambda>s. s\<lparr>mutex := mutex s + 1\<rparr>)"

definition edma3OsSemGive :: "bool edma" where
  "edma3OsSemGive = (bindK (getK mutex) (\<lambda>m.
    if 0 < m then seqK (modK (\<lambda>s. s\<lparr>mutex := mutex s - 1\<rparr>)) (ret True) else ret False))"

end
