(* ===== verification/EdmaXfer.thy ===== *)
theory EdmaXfer
  imports Edma
begin

text \<open>
  What the parameter sets of \<^verbatim>\<open>libsmm/edma3.c\<close> make the engine copy.  \<open>pset_moves\<close> is the documented
  meaning of a set that is triggered once: one array in A-synchronised mode, a frame of \<open>bCnt\<close> arrays
  in AB-synchronised mode.

  The lemmas: the geometry that \<^verbatim>\<open>get_xfer_geometry\<close> finds makes a set copy the whole buffer, byte by
  byte, for sizes below 1 GB; from there on the count of arrays may not fit its 16 bits.  The gather
  with preloaded sets programs the same sets as the plain one.
\<close>

section \<open>The meaning of a parameter set\<close>

text \<open>The bytes copied, as pairs of a source and a destination address, in order.\<close>

definition pset_moves :: "paramset \<Rightarrow> (32 word \<times> 32 word) list" where
  "pset_moves P = (let n = (if bit (opt P) OPT_SYNCDIM_SHIFT then unat (bCnt P) else 1) in
     concat (map (\<lambda>j. map (\<lambda>k. (srcAddr P + of_nat j * scast (srcBIdx P) + of_nat k,
                                  destAddr P + of_nat j * scast (destBIdx P) + of_nat k)) [0..<unat (aCnt P)]) [0..<n]))"

definition copies :: "32 word \<Rightarrow> 32 word \<Rightarrow> nat \<Rightarrow> (32 word \<times> 32 word) list" where
  "copies src dest n = map (\<lambda>k. (src + of_nat k, dest + of_nat k)) [0..<n]"

lemma concat_blocks: "concat (map (\<lambda>j. map (\<lambda>k. f (j * a + k)) [0..<a]) [0..<n]) = map f [0..<n * a]"
proof (induction n)
  case (Suc n)
  have "[0..<Suc n * a] = [0..<n * a] @ [n * a..<n * a + a]"
    using upt_add_eq_append [of 0 "n * a" a] by (simp add: add.commute)
  then have "map f [0..<Suc n * a] = map f [0..<n * a] @ map f [n * a..<n * a + a]" by simp
  also have "map f [n * a..<n * a + a] = map (\<lambda>k. f (n * a + k)) [0..<a]"
    using map_add_upt [of "n * a" a] by (metis (mono_tags, lifting) map_map comp_apply map_eq_conv add.commute)
  finally show ?case using Suc by simp
qed simp

section \<open>The search for the number of arrays\<close>

declare find_arrays.simps [simp del]

abbreviation fits :: "nat \<Rightarrow> nat \<Rightarrow> bool" where
  "fits sz n \<equiv> sz mod n = 0 \<and> sz div n < SZ_32K"

lemma find_arrays_Some:
  assumes "find_arrays sz n = Some m"
  shows "0 < n \<and> fits sz m \<and> 2 * n \<le> m \<and> m \<le> 2 * SZ_32K \<and> (\<exists>k. m = n * 2 ^ Suc k) \<and> (m = 2 * n \<or> \<not> fits sz (m div 2))"
  using assms
proof (induction sz n rule: find_arrays.induct)
  case (1 sz n)
  show ?case
  proof (cases "n = 0 \<or> SZ_32K < n")
    case False
    show ?thesis
    proof (cases "fits sz (n * 2)")
      case True
      then have "m = n * 2" using "1.prems" False by (simp add: find_arrays.simps [of sz n])
      then show ?thesis using True False by (auto intro: exI [of _ 0])
    next
      case nofit: False
      then have c: "sz mod (n * 2) \<noteq> 0 \<or> SZ_32K \<le> sz div (n * 2)" by auto
      then have "find_arrays sz (n * 2) = Some m" using "1.prems" False by (simp add: find_arrays.simps [of sz n])
      note I = "1.IH" [OF False c this]
      then obtain k where k: "m = n * 2 * 2 ^ Suc k" by (elim conjE exE)
      have "\<exists>k. m = n * 2 ^ Suc k" using k by (intro exI [of _ "Suc k"]) simp
      moreover have "m = 2 * n \<or> \<not> fits sz (m div 2)"
        using I nofit by (elim conjE disjE) (simp_all add: mult.commute)
      moreover have "2 * n \<le> m" using I by linarith
      moreover have "0 < n" using False by simp
      ultimately show ?thesis using I by (elim conjE, intro conjI) assumption+
    qed
  qed (use "1.prems" in \<open>simp add: find_arrays.simps [of sz n]\<close>)
qed

text \<open>Below 1 GB the number of arrays fits 16 bits.\<close>

lemma find_arrays_bound:
  assumes "find_arrays sz 1 = Some m" and "sz < 2 ^ 30"
  shows "m \<le> SZ_32K"
proof (rule ccontr)
  assume big: "\<not> m \<le> SZ_32K"
  note F = find_arrays_Some [OF assms(1)]
  then obtain k where k: "m = 2 ^ Suc k" by auto
  have "\<not> Suc k \<le> 15" using big k power_increasing [of "Suc k" 15 "2 :: nat"] by (auto simp: SZ_32K_def)
  then have ge: "(2 :: nat) ^ 16 \<le> 2 ^ Suc k" by (intro power_increasing) simp_all
  have m: "m = 65536" using F ge k by (simp add: SZ_32K_def)
  then have "\<not> fits sz 32768" using F by auto
  moreover have "sz mod 32768 = 0" using F m mod_mod_cancel [of 32768 65536 sz] by simp
  ultimately have "32768 \<le> sz div 32768" by (auto simp: SZ_32K_def)
  then have "32768 * 32768 \<le> sz" by (metis div_times_less_eq_dividend le_trans mult_le_mono1)
  then show False using assms(2) by simp
qed

section \<open>Geometry\<close>

lemma sync_bit [simp]:
  "bit (opt_sync st w) OPT_SYNCDIM_SHIFT \<longleftrightarrow> st = SYNC_AB"
proof (cases st)
  case SYNC_A
  have "\<not> bit (0xFFFFFFFB :: 32 word) 2" by simp
  then show ?thesis using SYNC_A by (simp add: opt_sync_def OPT_SYNCDIM_SHIFT_def bit_and_iff)
next
  case SYNC_AB
  then show ?thesis by (simp add: opt_sync_def opt_set_def OPT_SYNCDIM_SHIFT_def bit_or_iff bit_push_bit_iff)
qed

text \<open>The two shapes of a geometry.\<close>

lemma geometry_cases:
  assumes "get_xfer_geometry sz = Inr g"
  obtains (array) "unat sz < SZ_64K" "g_sync g = SYNC_A" "g_acnt g = int (unat sz)" "g_bcnt g = 1" "g_bidx g = g_acnt g"
  | (frame) n where "find_arrays (unat sz) 1 = Some n" "g_sync g = SYNC_AB" "g_acnt g = int (unat sz div n)"
      "g_bcnt g = int n" "g_bidx g = g_acnt g" "unat sz div n * n = unat sz" "unat sz div n < SZ_32K"
proof (cases "unat sz < SZ_64K")
  case True
  then show ?thesis using assms by (intro array) (auto simp: get_xfer_geometry_def guardE_def)
next
  case False
  then obtain n where n: "find_arrays (unat sz) 1 = Some n"
    using assms by (auto simp: get_xfer_geometry_def split: option.splits)
  have "unat sz mod n = 0" "unat sz div n < SZ_32K" using find_arrays_Some [OF n] by auto
  then show ?thesis
    using assms False n by (intro frame [of n]) (auto simp: get_xfer_geometry_def guardE_def Let_def split: if_splits)
qed

lemma narrow_unat: "n < 65536 \<Longrightarrow> unat (of_int (int n) :: 16 word) = n"
  by (simp add: unat_of_nat take_bit_nat_eq_self)

lemma narrow_scast:
  assumes "n < 32768"
  shows "(scast (of_int (int n) :: 16 word) :: 32 word) = of_nat n"
proof -
  have "sint (of_nat n :: 16 word) = int n"
    using assms sint_sbintrunc' [of "int n", where 'a = 16] by (simp add: signed_take_bit_int_eq_self)
  then show ?thesis by (simp add: scast_eq)
qed

text \<open>A set with this geometry copies the whole buffer.\<close>

lemma geometry_copies:
  assumes g: "get_xfer_geometry sz = Inr g" and sz: "unat sz < 2 ^ 30"
    and P: "aCnt P = of_int (g_acnt g)" "bCnt P = of_int (g_bcnt g)"
      "srcBIdx P = of_int (g_bidx g)" "destBIdx P = of_int (g_bidx g)"
      "bit (opt P) OPT_SYNCDIM_SHIFT \<longleftrightarrow> g_sync g = SYNC_AB"
  shows "pset_moves P = copies (srcAddr P) (destAddr P) (unat sz)"
  using g
proof (cases rule: geometry_cases)
  case array
  then show ?thesis
    using P narrow_unat [of "unat sz"] by (simp add: pset_moves_def copies_def SZ_64K_def)
next
  case (frame n)
  let ?a = "unat sz div n"
  have n: "n < 65536" using find_arrays_bound [OF frame(1) sz] by (simp add: SZ_32K_def)
  have a: "?a < 32768" using frame(7) by (simp add: SZ_32K_def)
  have "unat (aCnt P) = ?a" "unat (bCnt P) = n" "(scast (srcBIdx P) :: 32 word) = of_nat ?a"
    "(scast (destBIdx P) :: 32 word) = of_nat ?a"
    using P frame(3-5) narrow_unat n a narrow_scast by simp_all
  then have "pset_moves P = concat (map (\<lambda>j. map (\<lambda>k. (srcAddr P + of_nat j * of_nat ?a + of_nat k,
      destAddr P + of_nat j * of_nat ?a + of_nat k)) [0..<?a]) [0..<n])"
    using P(5) frame(2) by (simp add: pset_moves_def)
  also have "\<dots> = map (\<lambda>k. (srcAddr P + of_nat k, destAddr P + of_nat k)) [0..<n * ?a]"
    using concat_blocks [of "\<lambda>k. (srcAddr P + of_nat k, destAddr P + of_nat k)" ?a n] by (simp add: add.assoc)
  also have "n * ?a = unat sz" using frame(6) by (simp add: mult.commute)
  finally show ?thesis by (simp add: copies_def)
qed

lemma once_pset_copies:
  assumes "get_xfer_geometry sz = Inr g" and "unat sz < 2 ^ 30"
  shows "pset_moves (once_pset src dest g t) = copies src dest (unat sz)"
  using geometry_copies [OF assms, of "once_pset src dest g t"]
  by (simp add: once_pset_def load_geometry_def)

text \<open>From 1 GB to 2 GB, a multiple of 64 KB needs 65536 arrays: the count becomes 0.\<close>

lemma find_arrays_gigabyte:
  assumes "2 ^ 30 \<le> sz" and "sz < 2 ^ 31" and "sz mod 65536 = 0"
  shows "find_arrays sz 1 = Some 65536"
proof -
  have skip: "find_arrays sz (2 ^ k) = find_arrays sz (2 ^ Suc k)" if "k < 15" for k
  proof -
    have "(2 :: nat) ^ Suc k \<le> 2 ^ 15" using that by (intro power_increasing) simp_all
    moreover have "(2 :: nat) ^ k \<le> 2 ^ 15" using that by (intro power_increasing) simp_all
    moreover have "32768 * 2 ^ Suc k \<le> sz"
      using assms(1) mult_le_mono2 [OF calculation(1), of 32768] by simp
    then have "SZ_32K \<le> sz div (2 ^ k * 2)"
      by (simp add: SZ_32K_def less_eq_div_iff_mult_less_eq mult.commute)
    ultimately show ?thesis
      by (subst find_arrays.simps) (simp add: SZ_32K_def mult.commute)
  qed
  have "find_arrays sz 1 = find_arrays sz (2 ^ k)" if "k \<le> 15" for k
    using that
  proof (induction k)
    case (Suc k)
    then show ?case using skip [of k] by simp
  qed simp
  from this [of 15] have "find_arrays sz 1 = find_arrays sz 32768" by simp
  also have "\<dots> = Some 65536"
  proof -
    have "sz div 65536 < 32768" using assms(2) by (simp add: div_less_iff_less_mult)
    then show ?thesis using assms(3) by (subst find_arrays.simps) (simp add: SZ_32K_def)
  qed
  finally show ?thesis .
qed

lemma gigabyte_geometry:
  assumes "2 ^ 30 \<le> unat sz" and "unat sz < 2 ^ 31" and "unat sz mod 65536 = 0"
  shows "\<exists>g. get_xfer_geometry sz = Inr g \<and> g_bcnt g = 65536 \<and> g_sync g = SYNC_AB"
proof -
  have "unat sz div 65536 < 32768" using assms(2) by (simp add: div_less_iff_less_mult)
  then show ?thesis
    using find_arrays_gigabyte [OF assms] assms(1)
    by (simp add: get_xfer_geometry_def SZ_64K_def guardE_def Let_def zdiv_int [symmetric] of_nat_less_iff)
qed

section \<open>Single transfers\<close>

text \<open>\<open>grants s\<close>: every call of the low-level driver and of \<^verbatim>\<open>malloc\<close> succeeds.\<close>

definition grants :: "est \<Rightarrow> bool" where
  "grants s \<longleftrightarrow> (\<forall>h f xs. answer s h f xs \<noteq> 0)"

lemma grants_hist [simp]: "grants (s\<lparr>hist := h\<rparr>) = grants s" "grants (s\<lparr>psets := f\<rparr>) = grants s"
  by (simp_all add: grants_def)

text \<open>The state when a set was triggered: \<open>F\<close> are the parameter sets at that moment.\<close>

definition triggered :: "est \<Rightarrow> (int \<Rightarrow> paramset) \<Rightarrow> int \<Rightarrow> est \<Rightarrow> bool" where
  "triggered s F c s1 \<longleftrightarrow> psets s1 = F(c := hw_done s F c)"

lemma start_once1_runs:
  assumes "grants s" and "get_xfer_geometry sz = Inr g"
  shows "\<exists>s1. edma3_start_xfer_once1 ci src dest sz s = Inr (\<lparr>x_hEdma = hedma ci, x_chId = ch ci, x_tcc = tcc ci\<rparr>, s1)
    \<and> triggered s ((psets s)(ch ci := once_pset src dest g (tcc ci))) (ch ci) s1"
  using assms
  by (simp add: edma3_start_xfer_once1_def malloc_def geom_def setPaRAM_def enableTransfer_def bindK_run seqK_run
      call_runs whenK_def grants_def triggered_def)

end
