(* ===== verification/EdmaGather.thy ===== *)
theory EdmaGather
  imports EdmaXfer
begin

text \<open>
  The two gathers of \<^verbatim>\<open>libsmm/edma3.c\<close>: \<^verbatim>\<open>edma3_start_gather\<close> computes every parameter set, and
  \<^verbatim>\<open>edma3_start_gather_preloaded\<close> writes only what differs from the sets that \<^verbatim>\<open>preload_psets\<close> left.

  \<open>preloaded\<close> is the state the second one relies on.  The lemmas: \<^verbatim>\<open>preload_psets\<close> establishes it,
  both gathers trigger the same sets, and \<^verbatim>\<open>edma3_wait_gather_preloaded\<close> re-establishes it.
\<close>

section \<open>The sets of a gather\<close>

definition gather_src :: "est \<Rightarrow> gather_args \<Rightarrow> nat \<Rightarrow> 32 word" where
  "gather_src s a i = umem s (srcs a + of_nat i * src_stride a) - umem s (voffsets a + of_nat i * voffset_stride a)"

definition inner_opt :: "dma_ch_info \<Rightarrow> geometry \<Rightarrow> 32 word" where
  "inner_opt ci g = opt_chain (opt_tcc (ch ci) (opt_incr (opt_sync (g_sync g) 0) AND NOT OPT_TCC_MASK))"

definition gather_pset :: "est \<Rightarrow> dma_ch_info \<Rightarrow> gather_args \<Rightarrow> nat \<Rightarrow> 32 word \<Rightarrow> 32 word \<Rightarrow> geometry \<Rightarrow> nat \<Rightarrow> paramset" where
  "gather_pset s ci a cnt dest sz g i = (load_geometry g zero_pset)\<lparr>srcAddr := gather_src s a i,
     destAddr := dest + of_nat i * sz, linkAddr := gather_link ci cnt i,
     opt := (if i \<noteq> cnt - 1 then inner_opt ci g else opt_last (inner_opt ci g))\<rparr>"

text \<open>The channel's sets are distinct, and there are as many as it says.\<close>

definition chan_ok :: "dma_ch_info \<Rightarrow> bool" where
  "chan_ok ci \<longleftrightarrow> distinct (ch ci # logic_chs ci) \<and> logic_cnt ci = int (length (logic_chs ci)) \<and> tcc ci = ch ci"

lemma gather_chan_nth: "gather_chan ci i = (ch ci # logic_chs ci) ! i"
  by (cases i) (simp_all add: gather_chan_def)

lemma gather_chan_eq:
  assumes "chan_ok ci" and "i \<le> nat (logic_cnt ci)" and "j \<le> nat (logic_cnt ci)"
  shows "gather_chan ci i = gather_chan ci j \<longleftrightarrow> i = j"
  using assms nth_eq_iff_index_eq [of "ch ci # logic_chs ci" i j] by (simp add: chan_ok_def gather_chan_nth)

section \<open>The option bits\<close>

lemma opt_bits [simp]:
  "opt_chain (opt_chain w) = opt_chain w" "opt_last (opt_chain w) = opt_last w"
  by (rule bit_word_eqI; auto simp: opt_chain_def opt_last_def opt_set_def opt_clr_def bit_simps
      OPT_ITCCHEN_SHIFT_def OPT_TCCHEN_SHIFT_def OPT_TCINTEN_SHIFT_def OPT_ITCINTEN_SHIFT_def)+

lemma chain_keeps_sync [simp]:
  "bit (opt_chain w) OPT_SYNCDIM_SHIFT = bit w OPT_SYNCDIM_SHIFT" "bit (opt_last w) OPT_SYNCDIM_SHIFT = bit w OPT_SYNCDIM_SHIFT"
  "bit (opt_incr w) OPT_SYNCDIM_SHIFT = bit w OPT_SYNCDIM_SHIFT"
  "bit (opt_tcc c (w AND NOT OPT_TCC_MASK)) OPT_SYNCDIM_SHIFT = bit w OPT_SYNCDIM_SHIFT"
  by (simp_all add: opt_chain_def opt_last_def opt_set_def opt_clr_def opt_incr_def opt_tcc_def bit_simps OPT_SYNCDIM_SHIFT_def
      OPT_ITCCHEN_SHIFT_def OPT_TCCHEN_SHIFT_def OPT_TCINTEN_SHIFT_def OPT_ITCINTEN_SHIFT_def OPT_TCC_SHIFT_def OPT_TCC_MASK_def)

lemma inner_opt_sync [simp]: "bit (inner_opt ci g) OPT_SYNCDIM_SHIFT \<longleftrightarrow> g_sync g = SYNC_AB"
  by (simp add: inner_opt_def)

lemma gather_pset_copies:
  assumes "get_xfer_geometry sz = Inr g" and "unat sz < 2 ^ 30"
  shows "pset_moves (gather_pset s ci a cnt dest sz g i) = copies (gather_src s a i) (dest + of_nat i * sz) (unat sz)"
  using geometry_copies [OF assms, of "gather_pset s ci a cnt dest sz g i"]
  by (simp add: gather_pset_def load_geometry_def)

section \<open>Writing a sequence of sets\<close>

primrec write_sets :: "(nat \<Rightarrow> int) \<Rightarrow> (nat \<Rightarrow> paramset) \<Rightarrow> nat \<Rightarrow> (int \<Rightarrow> paramset) \<Rightarrow> int \<Rightarrow> paramset" where
  "write_sets c P 0 F = F"
| "write_sets c P (Suc k) F = (write_sets c P k F)(c k := P k)"

lemma write_sets_other: "\<forall>i<k. c i \<noteq> x \<Longrightarrow> write_sets c P k F x = F x"
  by (induction k) auto

lemma write_sets_at:
  assumes "j < k" and "\<forall>i<k. c i = c j \<longrightarrow> i = j"
  shows "write_sets c P k F (c j) = P j"
  using assms
proof (induction k)
  case (Suc k)
  show ?case
  proof (cases "j = k")
    case False
    then have "c j \<noteq> c k" using Suc.prems(2) by (metis lessI)
    moreover have "write_sets c P k F (c j) = P j" using Suc False by (simp add: less_Suc_eq)
    ultimately show ?thesis by simp
  qed simp
qed simp

section \<open>The plain gather\<close>

text \<open>What a gather of \<open>cnt\<close> buffers of \<open>sz\<close> bytes asks of its arguments.\<close>

definition gather_ok :: "est \<Rightarrow> dma_ch_info \<Rightarrow> gather_args \<Rightarrow> nat \<Rightarrow> 32 word \<Rightarrow> bool" where
  "gather_ok s ci a cnt sz \<longleftrightarrow> stride_ok (src_stride a) \<and> stride_ok (size_stride a) \<and> stride_ok (voffset_stride a)
     \<and> 2 \<le> cnt \<and> int cnt \<le> logic_cnt ci + 1 \<and> sz \<noteq> 0
     \<and> (\<forall>i<cnt. 0 < umem s (voffsets a + of_nat i * voffset_stride a) \<and> umem s (sizes a + of_nat i * size_stride a) = sz)"

text \<open>What the loops leave alone.\<close>

definition gather_frame :: "est \<Rightarrow> (kevent list \<Rightarrow> string \<Rightarrow> int list \<Rightarrow> int) \<times> (32 word \<Rightarrow> 32 word)
    \<times> ((int \<Rightarrow> paramset) \<Rightarrow> int \<Rightarrow> paramset)" where
  "gather_frame s = (answer s, umem s, hw_done s)"

lemma setPaRAM_grants:
  assumes "grants s"
  shows "\<exists>s1. setPaRAM h c P s = Inr (True, s1) \<and> psets s1 = (psets s)(c := P) \<and> gather_frame s1 = gather_frame s"
  using assms by (simp add: setPaRAM_def bindK_run seqK_run call_runs whenK_def grants_def gather_frame_def)

lemma gather_frame_simps:
  assumes "gather_frame s1 = gather_frame s"
  shows "grants s1 = grants s" "gather_src s1 = gather_src s" "gather_ok s1 = gather_ok s"
  using assms by (simp_all add: gather_frame_def grants_def gather_src_def gather_ok_def fun_eq_iff)

lemma gather_pset_src: "gather_src s1 = gather_src s \<Longrightarrow> gather_pset s1 = gather_pset s"
  by (simp add: gather_pset_def fun_eq_iff)

lemma gather_one_runs:
  assumes ok: "gather_ok s ci a cnt sz" and gr: "grants s" and ch: "chan_ok ci" and g: "get_xfer_geometry sz = Inr g"
    and i: "i < cnt" and P: "if i = 0 then P = zero_pset \<and> prev = 0 else P = gather_pset s ci a cnt dest sz g (i - 1) \<and> prev = sz"
  shows "\<exists>s1. gather_one ci a cnt dest (P, prev, of_nat i * sz) i s
      = Inr ((gather_pset s ci a cnt dest sz g i, sz, of_nat (Suc i) * sz), s1)
    \<and> psets s1 = (psets s)(gather_chan ci i := gather_pset s ci a cnt dest sz g i) \<and> gather_frame s1 = gather_frame s"
proof -
  obtain s1 where s1: "setPaRAM (hedma ci) (gather_chan ci i) (gather_pset s ci a cnt dest sz g i) s = Inr (True, s1)"
    "psets s1 = (psets s)(gather_chan ci i := gather_pset s ci a cnt dest sz g i)" "gather_frame s1 = gather_frame s"
    using setPaRAM_grants [OF gr] by blast
  have m: "0 < umem s (voffsets a + of_nat i * voffset_stride a)" "umem s (sizes a + of_nat i * size_stride a) = sz" "sz \<noteq> 0"
    and t: "tcc ci = ch ci" and inner: "i \<noteq> 0 \<Longrightarrow> i - 1 \<noteq> cnt - 1"
    using ok i ch by (auto simp: gather_ok_def chan_ok_def)
  have "gather_one ci a cnt dest (P, prev, of_nat i * sz) i s
      = Inr ((gather_pset s ci a cnt dest sz g i, sz, of_nat (Suc i) * sz), s1)"
  proof (cases "i = 0")
    case True
    then show ?thesis
      using P m t g s1(1) ok
      by (simp add: gather_one_def bindK_run seqK_run geom_def gather_pset_def gather_src_def inner_opt_def Let_def
          load_geometry_def zero_pset_def gather_ok_def)
  next
    case False
    then show ?thesis
      using P m t s1(1) inner
      by (cases "i = cnt - 1")
        (simp_all add: gather_one_def bindK_run seqK_run gather_pset_def gather_src_def inner_opt_def Let_def
          load_geometry_def zero_pset_def algebra_simps)
  qed
  then show ?thesis using s1 by blast
qed

lemma gather_loop_runs:
  assumes ok: "gather_ok s ci a cnt sz" and gr: "grants s" and ch: "chan_ok ci" and g: "get_xfer_geometry sz = Inr g"
    and k: "k \<le> cnt"
  shows "\<exists>P prev s1. foldK (gather_one ci a cnt dest) (zero_pset, 0, 0) [0..<k] s = Inr ((P, prev, of_nat k * sz), s1)
    \<and> (if k = 0 then P = zero_pset \<and> prev = 0 else P = gather_pset s ci a cnt dest sz g (k - 1) \<and> prev = sz)
    \<and> psets s1 = write_sets (gather_chan ci) (gather_pset s ci a cnt dest sz g) k (psets s) \<and> gather_frame s1 = gather_frame s"
  using k
proof (induction k)
  case (Suc k)
  then obtain P prev s1 where 1: "foldK (gather_one ci a cnt dest) (zero_pset, 0, 0) [0..<k] s = Inr ((P, prev, of_nat k * sz), s1)"
    "if k = 0 then P = zero_pset \<and> prev = 0 else P = gather_pset s ci a cnt dest sz g (k - 1) \<and> prev = sz"
    "psets s1 = write_sets (gather_chan ci) (gather_pset s ci a cnt dest sz g) k (psets s)" "gather_frame s1 = gather_frame s"
    by auto
  note F = gather_frame_simps [OF 1(4)]
  have p1: "gather_pset s1 = gather_pset s" using F(2) by (rule gather_pset_src)
  have ok1: "gather_ok s1 ci a cnt sz" "grants s1" using F ok gr by simp_all
  obtain s2 where 2: "gather_one ci a cnt dest (P, prev, of_nat k * sz) k s1
      = Inr ((gather_pset s ci a cnt dest sz g k, sz, of_nat (Suc k) * sz), s2)"
    "psets s2 = (psets s1)(gather_chan ci k := gather_pset s ci a cnt dest sz g k)" "gather_frame s2 = gather_frame s1"
    using gather_one_runs [OF ok1 ch g, of k P prev dest] Suc.prems 1(2) unfolding p1 by (auto split: if_splits)
  have "[0..<Suc k] = [0..<k] @ [k]" by simp
  then have "foldK (gather_one ci a cnt dest) (zero_pset, 0, 0) [0..<Suc k] s
      = Inr ((gather_pset s ci a cnt dest sz g k, sz, of_nat (Suc k) * sz), s2)"
    using 1(1) 2(1) by (simp only: foldK_snoc bindK_Inr)
  moreover have "gather_frame s2 = gather_frame s" using 2(3) 1(4) by simp
  ultimately show ?case using 1(3) 2(2) by auto
qed (simp add: gather_frame_def)

definition gather_handle :: "dma_ch_info \<Rightarrow> nat \<Rightarrow> 32 word \<Rightarrow> edma_xfer_scatter" where
  "gather_handle ci cnt sz = \<lparr>sc_chinfo = ci, sc_cnt = int cnt, sc_totalsize = sint (of_nat cnt * sz)\<rparr>"

text \<open>Both gathers end by triggering the first set.\<close>

definition trigger :: "dma_ch_info \<Rightarrow> nat \<Rightarrow> 32 word \<Rightarrow> edma_xfer_scatter edma" where
  "trigger ci cnt off = bindK (enableTransfer (hedma ci) (ch ci)) (\<lambda>ok. seqK (assertK ok)
     (ret \<lparr>sc_chinfo = ci, sc_cnt = int cnt, sc_totalsize = sint off\<rparr>))"

lemma trigger_runs:
  assumes "grants s" and "gather_frame s = gather_frame s0"
  shows "\<exists>s1. trigger ci cnt (of_nat cnt * sz) s = Inr (gather_handle ci cnt sz, s1)
    \<and> triggered s0 (psets s) (ch ci) s1 \<and> gather_frame s1 = gather_frame s0"
  using assms
  by (simp add: trigger_def enableTransfer_def bindK_run seqK_run call_runs whenK_def grants_def triggered_def
      gather_frame_def gather_handle_def)

lemma start_gather_runs:
  assumes ok: "gather_ok s ci a cnt sz" and gr: "grants s" and ch: "chan_ok ci" and g: "get_xfer_geometry sz = Inr g"
  shows "\<exists>s1. edma3_start_gather ci a cnt dest s = Inr (gather_handle ci cnt sz, s1)
    \<and> triggered s (write_sets (gather_chan ci) (gather_pset s ci a cnt dest sz g) cnt (psets s)) (ch ci) s1"
proof -
  let ?s0 = "s\<lparr>hist := hist s @ [(''malloc'', [20], answer s (hist s) ''malloc'' [20])]\<rparr>"
  have f0: "gather_frame ?s0 = gather_frame s" by (simp add: gather_frame_def)
  note F = gather_frame_simps [OF f0]
  have p0: "gather_pset ?s0 = gather_pset s" using F(2) by (rule gather_pset_src)
  obtain P prev s1 where 1: "foldK (gather_one ci a cnt dest) (zero_pset, 0, 0) [0..<cnt] ?s0 = Inr ((P, prev, of_nat cnt * sz), s1)"
    "psets s1 = write_sets (gather_chan ci) (gather_pset s ci a cnt dest sz g) cnt (psets s)" "gather_frame s1 = gather_frame s"
    using gather_loop_runs [of ?s0 ci a cnt sz g cnt dest] F ok gr ch g f0 unfolding p0 by auto
  have gr1: "grants s1" using gather_frame_simps(1) [OF 1(3)] gr by simp
  obtain s2 where 2: "trigger ci cnt (of_nat cnt * sz) s1 = Inr (gather_handle ci cnt sz, s2)"
    "triggered s (psets s1) (ch ci) s2"
    using trigger_runs [OF gr1 1(3)] by blast
  have "edma3_start_gather ci a cnt dest s = trigger ci cnt (of_nat cnt * sz) s1"
    using ok gr 1(1)
    by (simp add: edma3_start_gather_def gather_ok_def malloc_def bindK_run seqK_run call_runs grants_def trigger_def)
  then show ?thesis using 1(2) 2 by auto
qed

section \<open>Preloaded sets\<close>

definition default_pset :: "dma_ch_info \<Rightarrow> nat \<Rightarrow> paramset" where
  "default_pset ci i = (pset ci)\<lparr>linkAddr := (if i = 0 then link ci else links ci ! (i - 1))\<rparr>"

definition blank :: "paramset \<Rightarrow> paramset" where
  "blank P = P\<lparr>srcAddr := 0, destAddr := 0\<rparr>"

text \<open>All sets of the channel have their default contents, but for the addresses of the last gather.\<close>

definition preloaded :: "dma_ch_info \<Rightarrow> geometry \<Rightarrow> 32 word \<Rightarrow> est \<Rightarrow> bool" where
  "preloaded ci g sz s \<longleftrightarrow> get_xfer_geometry sz = Inr g \<and> pset_ptr ci \<noteq> 0 \<and> xfer_size ci = sz
     \<and> pset ci = (load_geometry g zero_pset)\<lparr>opt := inner_opt ci g\<rparr>
     \<and> last_brcnt_link ci = (push_bit 16 (of_int (g_brcnt g)) OR 0xffff) \<and> last_opt ci = opt_last (inner_opt ci g)
     \<and> (\<forall>i\<le>nat (logic_cnt ci). blank (psets s (gather_chan ci i)) = default_pset ci i)"

lemma setPaRAMEntry_grants:
  assumes "grants s"
  shows "\<exists>s1. setPaRAMEntry h c e v s = Inr ((), s1) \<and> psets s1 = (psets s)(c := set_entry e v (psets s c))
    \<and> gather_frame s1 = gather_frame s"
  using assms by (simp add: setPaRAMEntry_def bindK_run seqK_run call_runs whenK_def grants_def gather_frame_def)

lemma brcnt_word:
  "(ucast (push_bit 16 x OR 0xffff :: 32 word) :: 16 word) = 0xffff"
  "(ucast (drop_bit 16 (push_bit 16 (of_int b :: 32 word))) :: 16 word) = of_int b"
proof -
  have m: "(0xffff :: 32 word) = mask 16" "(0xffff :: 16 word) = mask 16" by (simp_all add: mask_eq_exp_minus_1)
  show "(ucast (push_bit 16 x OR 0xffff :: 32 word) :: 16 word) = 0xffff"
    unfolding m by (rule bit_word_eqI) (auto simp: bit_simps)
  show "(ucast (drop_bit 16 (push_bit 16 (of_int b :: 32 word))) :: 16 word) = of_int b"
    by (rule bit_word_eqI) (auto simp: bit_simps)
qed

text \<open>The set that the preloaded gather leaves at place \<open>i\<close> is the one the plain gather writes.\<close>

lemma gather_preloaded_one_runs:
  assumes ok: "gather_ok s ci a cnt sz" and gr: "grants s" and g: "get_xfer_geometry sz = Inr g" and sz: "xfer_size ci = sz"
    and P: "pset ci = (load_geometry g zero_pset)\<lparr>opt := inner_opt ci g\<rparr>"
    and L: "last_brcnt_link ci = (push_bit 16 (of_int (g_brcnt g)) OR 0xffff)" "last_opt ci = opt_last (inner_opt ci g)"
    and i: "i < cnt" and D: "blank (psets s (gather_chan ci i)) = default_pset ci i"
  shows "\<exists>s1. gather_one_preloaded ci a cnt dest (of_nat i * sz) i s = Inr (of_nat (Suc i) * sz, s1)
    \<and> psets s1 = (psets s)(gather_chan ci i := gather_pset s ci a cnt dest sz g i) \<and> gather_frame s1 = gather_frame s"
proof -
  let ?c = "gather_chan ci i" and ?h = "hedma ci"
  obtain s1 where 1: "setPaRAMEntry ?h ?c ENTRY_SRC (gather_src s a i) s = Inr ((), s1)"
    "psets s1 = (psets s)(?c := set_entry ENTRY_SRC (gather_src s a i) (psets s ?c))" "gather_frame s1 = gather_frame s"
    using setPaRAMEntry_grants [OF gr] by blast
  have gr1: "grants s1" using gather_frame_simps(1) [OF 1(3)] gr by simp
  obtain s2 where 2: "setPaRAMEntry ?h ?c ENTRY_DST (dest + of_nat i * sz) s1 = Inr ((), s2)"
    "psets s2 = (psets s1)(?c := set_entry ENTRY_DST (dest + of_nat i * sz) (psets s1 ?c))" "gather_frame s2 = gather_frame s1"
    using setPaRAMEntry_grants [OF gr1] by blast
  have gr2: "grants s2" using gather_frame_simps(1) [OF 2(3)] gr1 by simp
  obtain s3 where 3: "setPaRAMEntry ?h ?c ENTRY_LINK_BCNTRLD (last_brcnt_link ci) s2 = Inr ((), s3)"
    "psets s3 = (psets s2)(?c := set_entry ENTRY_LINK_BCNTRLD (last_brcnt_link ci) (psets s2 ?c))" "gather_frame s3 = gather_frame s2"
    using setPaRAMEntry_grants [OF gr2] by blast
  have gr3: "grants s3" using gather_frame_simps(1) [OF 3(3)] gr2 by simp
  obtain s4 where 4: "setPaRAMEntry ?h ?c ENTRY_OPT (last_opt ci) s3 = Inr ((), s4)"
    "psets s4 = (psets s3)(?c := set_entry ENTRY_OPT (last_opt ci) (psets s3 ?c))" "gather_frame s4 = gather_frame s3"
    using setPaRAMEntry_grants [OF gr3] by blast
  have v: "0 < umem s (voffsets a + of_nat i * voffset_stride a)" "2 \<le> cnt" using ok i by (simp_all add: gather_ok_def)
  define s5 where "s5 = (if i = cnt - 1 then s4 else s2)"
  have "gather_one_preloaded ci a cnt dest (of_nat i * sz) i s = Inr (of_nat (Suc i) * sz, s5)"
    using v 1(1) 2(1) 3(1) 4(1) sz
    by (cases "i = cnt - 1") (simp_all add: gather_one_preloaded_def bindK_run seqK_run gather_src_def whenK_def s5_def algebra_simps)
  moreover have "psets s5 = (psets s)(?c := gather_pset s ci a cnt dest sz g i)"
  proof -
    have "blank (psets s ?c) = blank ((pset ci)\<lparr>linkAddr := (if i = 0 then link ci else links ci ! (i - 1))\<rparr>)"
      unfolding D default_pset_def by (simp add: blank_def P zero_pset_def load_geometry_def)
    then have c: "set_entry ENTRY_DST y (set_entry ENTRY_SRC x (psets s ?c))
        = (pset ci)\<lparr>linkAddr := (if i = 0 then link ci else links ci ! (i - 1)), srcAddr := x, destAddr := y\<rparr>" for x y
      by (cases "psets s ?c") (simp add: set_entry_def blank_def P zero_pset_def load_geometry_def)
    show ?thesis
    proof (cases "i = cnt - 1")
      case True
      then have "i \<noteq> 0" using v(2) by simp
      then show ?thesis
        using True 1(2) 2(2) 3(2) 4(2) c
        by (simp add: s5_def set_entry_def gather_pset_def gather_link_def P L brcnt_word load_geometry_def zero_pset_def)
    next
      case False
      then show ?thesis
        using 1(2) 2(2) c
        by (simp add: s5_def gather_pset_def gather_link_def P load_geometry_def zero_pset_def)
    qed
  qed
  moreover have "gather_frame s5 = gather_frame s" using 1(3) 2(3) 3(3) 4(3) by (simp add: s5_def)
  ultimately show ?thesis by blast
qed

lemma gather_preloaded_loop_runs:
  assumes ok: "gather_ok s ci a cnt sz" and gr: "grants s" and ch: "chan_ok ci" and pre: "preloaded ci g sz s" and k: "k \<le> cnt"
  shows "\<exists>s1. foldK (gather_one_preloaded ci a cnt dest) 0 [0..<k] s = Inr (of_nat k * sz, s1)
    \<and> psets s1 = write_sets (gather_chan ci) (gather_pset s ci a cnt dest sz g) k (psets s) \<and> gather_frame s1 = gather_frame s"
  using k
proof (induction k)
  case (Suc k)
  then obtain s1 where 1: "foldK (gather_one_preloaded ci a cnt dest) 0 [0..<k] s = Inr (of_nat k * sz, s1)"
    "psets s1 = write_sets (gather_chan ci) (gather_pset s ci a cnt dest sz g) k (psets s)" "gather_frame s1 = gather_frame s"
    by auto
  note F = gather_frame_simps [OF 1(3)]
  have p1: "gather_pset s1 = gather_pset s" using F(2) by (rule gather_pset_src)
  have ok1: "gather_ok s1 ci a cnt sz" "grants s1" using F ok gr by simp_all
  note G = pre [unfolded preloaded_def]
  have le: "k \<le> nat (logic_cnt ci)" using ok Suc.prems by (auto simp: gather_ok_def)
  have "psets s1 (gather_chan ci k) = psets s (gather_chan ci k)"
    unfolding 1(2) using gather_chan_eq [OF ch _ le] le by (intro write_sets_other) auto
  then have D: "blank (psets s1 (gather_chan ci k)) = default_pset ci k" using G le by simp
  obtain s2 where 2: "gather_one_preloaded ci a cnt dest (of_nat k * sz) k s1 = Inr (of_nat (Suc k) * sz, s2)"
    "psets s2 = (psets s1)(gather_chan ci k := gather_pset s ci a cnt dest sz g k)" "gather_frame s2 = gather_frame s1"
    using gather_preloaded_one_runs [OF ok1, of g k dest] G D Suc.prems unfolding p1 by auto
  have "[0..<Suc k] = [0..<k] @ [k]" by simp
  then have "foldK (gather_one_preloaded ci a cnt dest) 0 [0..<Suc k] s = Inr (of_nat (Suc k) * sz, s2)"
    using 1(1) 2(1) by (simp only: foldK_snoc bindK_Inr)
  moreover have "gather_frame s2 = gather_frame s" using 2(3) 1(3) by simp
  ultimately show ?case using 1(2) 2(2) by auto
qed (simp add: gather_frame_def)

lemma start_gather_preloaded_runs:
  assumes ok: "gather_ok s ci a cnt sz" and gr: "grants s" and ch: "chan_ok ci" and pre: "preloaded ci g sz s"
  shows "\<exists>s1. edma3_start_gather_preloaded ci a cnt dest s = Inr (gather_handle ci cnt sz, s1)
    \<and> triggered s (write_sets (gather_chan ci) (gather_pset s ci a cnt dest sz g) cnt (psets s)) (ch ci) s1
    \<and> grants s1"
proof -
  let ?s0 = "s\<lparr>hist := hist s @ [(''malloc'', [20], answer s (hist s) ''malloc'' [20])]\<rparr>"
  have f0: "gather_frame ?s0 = gather_frame s" by (simp add: gather_frame_def)
  note F = gather_frame_simps [OF f0]
  have p0: "gather_pset ?s0 = gather_pset s" using F(2) by (rule gather_pset_src)
  have pre0: "preloaded ci g sz ?s0" using pre by (simp add: preloaded_def)
  obtain s1 where 1: "foldK (gather_one_preloaded ci a cnt dest) 0 [0..<cnt] ?s0 = Inr (of_nat cnt * sz, s1)"
    "psets s1 = write_sets (gather_chan ci) (gather_pset s ci a cnt dest sz g) cnt (psets s)" "gather_frame s1 = gather_frame s"
    using gather_preloaded_loop_runs [of ?s0 ci a cnt sz g cnt dest] F ok gr ch pre0 f0 unfolding p0 by auto
  have gr1: "grants s1" using gather_frame_simps(1) [OF 1(3)] gr by simp
  obtain s2 where 2: "trigger ci cnt (of_nat cnt * sz) s1 = Inr (gather_handle ci cnt sz, s2)"
    "triggered s (psets s1) (ch ci) s2" "gather_frame s2 = gather_frame s"
    using trigger_runs [OF gr1 1(3)] by blast
  have "edma3_start_gather_preloaded ci a cnt dest s = trigger ci cnt (of_nat cnt * sz) s1"
    using ok gr 1(1) pre
    by (simp add: edma3_start_gather_preloaded_def gather_ok_def malloc_def bindK_run seqK_run call_runs grants_def
        trigger_def preloaded_def)
  then show ?thesis using 1(2) 2 gather_frame_simps(1) [OF 2(3)] gr by auto
qed

section \<open>Establishing and restoring the defaults\<close>

lemma wait_gather_preloaded_runs:
  assumes ok: "gather_ok s ci a cnt sz" and gr: "grants s1" and ch: "chan_ok ci" and pre: "preloaded ci g sz s"
    and tr: "triggered s (write_sets (gather_chan ci) (gather_pset s ci a cnt dest sz g) cnt (psets s)) (ch ci) s1"
  shows "\<exists>s2. edma3_wait_gather_preloaded (gather_handle ci cnt sz) s1 = Inr (ci, s2) \<and> preloaded ci g sz s2"
proof -
  note G = pre [unfolded preloaded_def]
  have c2: "2 \<le> cnt" "nat (int cnt - 2) = cnt - 2" "cnt - 1 \<le> nat (logic_cnt ci)" using ok by (auto simp: gather_ok_def)
  have lc: "logic_chs ci ! (cnt - 2) = gather_chan ci (cnt - 1)" using c2(1) by (simp add: gather_chan_def numeral_2_eq_2 Suc_diff_Suc)
  have p: "(pset ci)\<lparr>linkAddr := 0\<rparr> = pset ci" using G by (simp add: load_geometry_def zero_pset_def)
  define F where "F = (psets s1)(ch ci := (pset ci)\<lparr>linkAddr := link ci\<rparr>,
    gather_chan ci (cnt - 1) := (pset ci)\<lparr>linkAddr := links ci ! (cnt - 2)\<rparr>)"
  have run: "\<exists>s2. edma3_wait_gather_preloaded (gather_handle ci cnt sz) s1 = Inr (ci, s2) \<and> psets s2 = F"
    using gr c2(1,2) lc p
    by (simp add: edma3_wait_gather_preloaded_def gather_handle_def waitAndClearTcc_def setPaRAM_def bindK_run seqK_run
        call_runs whenK_def grants_def F_def Let_def)
  have "blank (F (gather_chan ci i)) = default_pset ci i" if i: "i \<le> nat (logic_cnt ci)" for i
  proof -
    have E: "gather_chan ci i = gather_chan ci j \<longleftrightarrow> i = j" if "j \<le> nat (logic_cnt ci)" for j
      using gather_chan_eq [OF ch i that] .
    have bl: "blank ((pset ci)\<lparr>linkAddr := x\<rparr>) = (pset ci)\<lparr>linkAddr := x\<rparr>" for x
      using G by (simp add: blank_def load_geometry_def zero_pset_def)
    have c0: "ch ci = gather_chan ci 0" by (simp add: gather_chan_def)
    consider "i = cnt - 1" | "i = 0" "i \<noteq> cnt - 1" | "i \<noteq> 0" "i < cnt - 1" | "cnt \<le> i" by linarith
    then show ?thesis
    proof cases
      case 1
      then have "i - 1 = cnt - 2" "i \<noteq> 0" using c2(1) by auto
      then show ?thesis using 1 bl by (simp add: F_def default_pset_def)
    next
      case 2
      have "gather_chan ci 0 \<noteq> gather_chan ci (cnt - 1)" using E [OF c2(3)] 2 by simp
      then show ?thesis using 2 bl by (simp add: F_def default_pset_def c0)
    next
      case 3
      have ne: "gather_chan ci i \<noteq> gather_chan ci (cnt - 1)" "gather_chan ci i \<noteq> gather_chan ci 0"
        using E [OF c2(3)] E [of 0] 3 by simp_all
      have "psets s1 (gather_chan ci i) = gather_pset s ci a cnt dest sz g i"
        using tr ne(2) 3 gather_chan_eq [OF ch _ i] c2(3) unfolding triggered_def c0
        by (simp, intro write_sets_at) auto
      then have "F (gather_chan ci i) = gather_pset s ci a cnt dest sz g i" using ne by (simp add: F_def c0)
      then show ?thesis using 3 G by (simp add: blank_def gather_pset_def default_pset_def gather_link_def load_geometry_def zero_pset_def)
    next
      case 4
      have ne: "gather_chan ci i \<noteq> gather_chan ci (cnt - 1)" "gather_chan ci i \<noteq> gather_chan ci 0"
        using E [OF c2(3)] E [of 0] 4 c2(1) by simp_all
      have "psets s1 (gather_chan ci i) = psets s (gather_chan ci i)"
        using tr ne(2) 4 gather_chan_eq [OF ch _ i] c2(3) unfolding triggered_def c0
        by (simp, intro write_sets_other) auto
      then have "F (gather_chan ci i) = psets s (gather_chan ci i)" using ne by (simp add: F_def c0)
      then show ?thesis using G i by simp
    qed
  qed
  then show ?thesis using run G by (auto simp: preloaded_def)
qed

lemma preload_loop_runs:
  fixes h :: int and c :: "nat \<Rightarrow> int" and P :: "nat \<Rightarrow> paramset"
  assumes "grants s"
  defines "f \<equiv> \<lambda>i. bindK (setPaRAM h (c i) (P i)) assertK"
  shows "\<exists>s1. forK [0..<k] f s = Inr ((), s1) \<and> psets s1 = write_sets c P k (psets s) \<and> gather_frame s1 = gather_frame s"
proof (induction k)
  case (Suc k)
  then obtain s1 where 1: "forK [0..<k] f s = Inr ((), s1)" "psets s1 = write_sets c P k (psets s)"
    "gather_frame s1 = gather_frame s" by blast
  have gr: "grants s1" using gather_frame_simps(1) [OF 1(3)] assms(1) by simp
  obtain s2 where 2: "setPaRAM h (c k) (P k) s1 = Inr (True, s2)" "psets s2 = (psets s1)(c k := P k)"
    "gather_frame s2 = gather_frame s1"
    using setPaRAM_grants [OF gr] by blast
  have "f k s1 = Inr ((), s2)" using 2(1) by (simp add: f_def)
  then have "forK [0..<Suc k] f s = Inr ((), s2)" using 1(1) by (simp add: forK_append)
  then show ?case using 1(2,3) 2(2,3) by (intro exI [of _ s2]) simp
qed (simp add: gather_frame_def)

lemma preload_psets_runs:
  assumes gr: "grants s" and ch: "chan_ok ci" and g: "get_xfer_geometry sz = Inr g" and n: "pset_ptr ci = 0"
  shows "\<exists>ci1 s1. preload_psets ci sz s = Inr (ci1, s1) \<and> preloaded ci1 g sz s1 \<and> chan_ok ci1 \<and> gather_frame s1 = gather_frame s
    \<and> gather_chan ci1 = gather_chan ci \<and> logic_cnt ci1 = logic_cnt ci"
proof -
  let ?m = "answer s (hist s) ''malloc'' [32]"
  let ?s0 = "s\<lparr>hist := hist s @ [(''malloc'', [32], ?m)]\<rparr>"
  define P0 where "P0 = (load_geometry g zero_pset)\<lparr>opt := inner_opt ci g\<rparr>"
  let ?n = "nat (logic_cnt ci)"
  have gr0: "grants ?s0" using gr by simp
  have f0: "gather_frame ?s0 = gather_frame s" by (simp add: gather_frame_def)
  obtain s1 where 1: "setPaRAM (hedma ci) (ch ci) (P0\<lparr>linkAddr := link ci\<rparr>) ?s0 = Inr (True, s1)"
    "psets s1 = (psets ?s0)(ch ci := P0\<lparr>linkAddr := link ci\<rparr>)" "gather_frame s1 = gather_frame ?s0"
    using setPaRAM_grants [OF gr0] by blast
  have gr1: "grants s1" using gather_frame_simps(1) [OF 1(3)] gr0 by simp
  obtain s2 where 2: "forK [0..<?n] (\<lambda>i. bindK (setPaRAM (hedma ci) (logic_chs ci ! i) (P0\<lparr>linkAddr := links ci ! i\<rparr>)) assertK) s1 = Inr ((), s2)"
    "psets s2 = write_sets (\<lambda>i. logic_chs ci ! i) (\<lambda>i. P0\<lparr>linkAddr := links ci ! i\<rparr>) ?n (psets s1)"
    "gather_frame s2 = gather_frame s1"
    using preload_loop_runs [OF gr1, where k = ?n and h = "hedma ci" and c = "\<lambda>i. logic_chs ci ! i"
        and P = "\<lambda>i. P0\<lparr>linkAddr := links ci ! i\<rparr>"] by blast
  define ci1 where "ci1 = ci\<lparr>pset_ptr := ?m, pset := P0\<lparr>linkAddr := 0\<rparr>, xfer_size := sz,
       last_brcnt_link := (push_bit 16 (of_int (g_brcnt g)) OR 0xffff), last_opt := opt_last (inner_opt ci g)\<rparr>"
  have t: "tcc ci = ch ci" using ch by (simp add: chan_ok_def)
  have m: "?m \<noteq> 0" using gr by (simp add: grants_def)
  have P0: "(load_geometry g zero_pset)\<lparr>opt := opt_chain (opt_tcc (ch ci) (opt_incr (opt_sync (g_sync g) 0) AND NOT OPT_TCC_MASK))\<rparr> = P0"
    by (simp add: P0_def inner_opt_def)
  have run: "preload_psets ci sz s = Inr (ci1, s2)"
    using n m t g 1(1) 2(1) unfolding P0_def
    by (simp add: preload_psets_def malloc_def bindK_run seqK_run call_runs geom_def Let_def ci1_def P0_def inner_opt_def [symmetric])
  have same: "gather_chan ci1 = gather_chan ci" "logic_cnt ci1 = logic_cnt ci" "chan_ok ci1 = chan_ok ci"
    "inner_opt ci1 = inner_opt ci" "pset_ptr ci1 = ?m" "xfer_size ci1 = sz" "link ci1 = link ci" "links ci1 = links ci"
    "last_brcnt_link ci1 = (push_bit 16 (of_int (g_brcnt g)) OR 0xffff)" "last_opt ci1 = opt_last (inner_opt ci g)"
    by (simp_all add: ci1_def gather_chan_def fun_eq_iff chan_ok_def inner_opt_def)
  have p1: "pset ci1 = P0" by (simp add: ci1_def P0_def load_geometry_def zero_pset_def)
  have "blank (psets s2 (gather_chan ci i)) = default_pset ci1 i" if i: "i \<le> ?n" for i
  proof -
    have bl: "blank (P0\<lparr>linkAddr := x\<rparr>) = P0\<lparr>linkAddr := x\<rparr>" for x
      by (simp add: blank_def P0_def load_geometry_def zero_pset_def)
    have lg: "logic_chs ci ! j = gather_chan ci (Suc j)" for j by (simp add: gather_chan_def)
    have E: "gather_chan ci i = gather_chan ci j \<longleftrightarrow> i = j" if "j \<le> ?n" for j
      using gather_chan_eq [OF ch i that] .
    show ?thesis
    proof (cases i)
      case 0
      have "psets s2 (gather_chan ci 0) = psets s1 (gather_chan ci 0)"
        unfolding 2(2) lg using E 0 by (intro write_sets_other) (metis Suc_leI Zero_not_Suc)
      then show ?thesis using 0 1(2) bl by (simp add: gather_chan_def default_pset_def p1 same)
    next
      case (Suc j)
      have "psets s2 (logic_chs ci ! j) = P0\<lparr>linkAddr := links ci ! j\<rparr>"
        unfolding 2(2)
      proof (intro write_sets_at allI impI)
        fix a assume "a < ?n" "logic_chs ci ! a = logic_chs ci ! j"
        then have "gather_chan ci i = gather_chan ci (Suc a)" "Suc a \<le> ?n" using Suc lg by simp_all
        then have "i = Suc a" using E by blast
        then show "a = j" using Suc by simp
      qed (use Suc i in simp)
      then show ?thesis using Suc bl by (simp add: lg default_pset_def p1 same)
    qed
  qed
  then have "preloaded ci1 g sz s2" using g m p1 by (simp add: preloaded_def same P0_def)
  then show ?thesis
    using run same(1-3) ch 1(3) 2(3) f0 by auto
qed

section \<open>A concrete engine\<close>

text \<open>Every call succeeds; a channel with one further set; all words of memory are 4096.\<close>

definition engine :: est where
  "engine = \<lparr>hist = [], answer = (\<lambda>_ _ _. 1), psets = (\<lambda>_. zero_pset), hw_done = (\<lambda>F c. F c), globalRegs = 0, tcRegs = [],
     g_phys_cfg = 0, umem = (\<lambda>_. 4096), mutex = 1, TCC_ANY = -1, CHANNEL_ANY = -1, LINK_CHANNEL = -2\<rparr>"

definition channel :: dma_ch_info where
  "channel = \<lparr>hedma = 1, ch = 5, tcc = 5, link = 0x40, logic_chs_ptr = 1, logic_chs = [9], links_ptr = 1, links = [0xffff],
     logic_cnt = 1, pset_ptr = 0, pset = zero_pset, xfer_size = 0, last_brcnt_link = 0, last_opt = 0\<rparr>"

definition word_args :: gather_args where
  "word_args = \<lparr>srcs = 0, src_stride = 4, voffsets = 0, voffset_stride = 0, sizes = 0, size_stride = 4\<rparr>"

lemma engine: "grants engine" "chan_ok channel" "pset_ptr channel = 0" "logic_cnt channel = 1" "umem engine x = 4096"
  by (simp_all add: engine_def channel_def grants_def chan_ok_def)

lemma page_geometry: "\<exists>g. get_xfer_geometry 4096 = Inr g"
  by (simp add: get_xfer_geometry_def SZ_64K_def)

end
