(* ===== verification/Tools.thy ===== *)
theory Tools
  imports Monad
begin

text \<open>
  The measuring and memory tools of the user library: the ring of timestamps of
  \<^verbatim>\<open>libsmm/measure.c\<close> (built for \<^verbatim>\<open>CONFIG_ARCH_OMAP4\<close>, as \<^verbatim>\<open>measure.h\<close> does), the DDR
  performance counters of \<^verbatim>\<open>libsmm/emif.c\<close>, the block allocator of \<^verbatim>\<open>libsmm/cmem.c\<close> and the
  cache size of \<^verbatim>\<open>libsmm/clearcache.c\<close>.  Printing is left out; what would be printed is a result.
\<close>

section \<open>Timestamps\<close>

definition NR_SAMPLES :: nat where "NR_SAMPLES = 256"

record perf_stat =
  cc_req :: "32 word"
  cc_serv :: "32 word"
  nw_suspend :: "32 word"
  nw_resume :: "32 word"
  mb_overflow :: "32 word"

record measure_sample =
  msg :: string
  ts :: "32 word"
  tod :: "32 word"
  stat :: perf_stat

text \<open>\<open>m_count\<close> is the number of samples since the last flush; \<open>samples\<close> has \<open>NR_SAMPLES\<close> elements.\<close>

record measure =
  m_count :: nat
  samples :: "measure_sample list"
  k2_perf_stat :: perf_stat

definition k2_perf_stat_snapshot :: "measure \<Rightarrow> perf_stat" where
  "k2_perf_stat_snapshot m = k2_perf_stat m"

definition k2_measure_clean :: "measure \<Rightarrow> nat \<times> measure" where
  "k2_measure_clean m = (m_count m, m\<lparr>m_count := 0\<rparr>)"

definition USEC_PER_SEC :: "32 word" where "USEC_PER_SEC = 1000000"

text \<open>\<open>sec\<close> and \<open>usec\<close> are the time of day; \<^verbatim>\<open>ts\<close> is never assigned.\<close>

definition k2_measure :: "string \<Rightarrow> 32 word \<Rightarrow> 32 word \<Rightarrow> measure \<Rightarrow> 32 word \<times> measure" where
  "k2_measure s sec usec m =
     (let i = m_count m mod NR_SAMPLES;
          st = (if i = NR_SAMPLES - 1
                then (k2_perf_stat m)\<lparr>mb_overflow := mb_overflow (k2_perf_stat m) + 1\<rparr>
                else k2_perf_stat m);
          us = sec * USEC_PER_SEC + usec
      in (us, m\<lparr>k2_perf_stat := st,
                samples := (samples m)[i := (samples m ! i)\<lparr>msg := s, tod := us, stat := st\<rparr>],
                m_count := m_count m + 1\<rparr>))"

text \<open>The lines of the report: message, time since the previous element of the ring, time.\<close>

definition measure_row :: "measure \<Rightarrow> nat \<Rightarrow> string \<times> 32 word \<times> 32 word" where
  "measure_row m i = (msg (samples m ! i), (if i = 0 then 0 else tod (samples m ! i) - tod (samples m ! (i - 1))),
     tod (samples m ! i))"

text \<open>
  The total is taken at the index left over from the loop, minus one; index \<open>-1\<close> is outside the
  ring.
\<close>

definition k2_flush_measure_format ::
  "measure \<Rightarrow> fault + ((string \<times> 32 word \<times> 32 word) list \<times> 32 word) \<times> measure" where
  "k2_flush_measure_format m =
     (let start = (if NR_SAMPLES < m_count m then m_count m mod NR_SAMPLES else 0);
          end = (if NR_SAMPLES < m_count m then start + NR_SAMPLES else m_count m);
          idx = map (\<lambda>j. j mod NR_SAMPLES) [start..<end];
          i = (if idx = [] then 0 else last idx)
      in if i = 0 then Inl Bad_access
         else Inr ((map (measure_row m) idx, tod (samples m ! (i - 1)) - tod (samples m ! 0)),
                   m\<lparr>m_count := 0\<rparr>))"

section \<open>DDR counters\<close>

text \<open>\<open>emif0\<close> is null until the registers are mapped; the counters are read from the hardware.\<close>

record emif = env +
  emif0 :: "32 word"
  emif_perf_cnt_cfg :: "32 word"
  start_tv :: "32 word \<times> 32 word"
  start_cnt1 :: "32 word"
  start_cnt2 :: "32 word"
  start_cycles :: "32 word"

type_synonym 'a emifK = "(emif, 'a) prog"

definition DDR_MHZ :: "32 word" where "DDR_MHZ = 800"
definition EMIF1_BASE :: "32 word" where "EMIF1_BASE = 0x21010000"

definition emif_mmap :: "32 word \<Rightarrow> 32 word \<Rightarrow> 32 word emifK" where
  "emif_mmap addr sz = (bindK (call ''open(/dev/mem)'' []) (\<lambda>fd.
    seqK (assertK (fd \<noteq> -1)) (
    bindK (call ''sysconf(_SC_PAGE_SIZE)'' []) (\<lambda>page_size.
    if sz mod of_int page_size \<noteq> 0 then ret 0
     else if addr mod of_int page_size \<noteq> 0 then ret 0
     else (bindK (call ''mmap'' [uint sz, uint addr]) (\<lambda>v.
       seqK (assertK (of_int v \<noteq> (-1 :: 32 word))) (
       ret (of_int v))))))))"

definition emif_config :: "unit emifK" where
  "emif_config = (bindK (getK emif0) (\<lambda>p.
    seqK (assertK (p \<noteq> 0)) (
    modK (\<lambda>s. s\<lparr>emif_perf_cnt_cfg := emif_perf_cnt_cfg s OR (push_bit 16 0xb OR push_bit 0 0xa)\<rparr>))))"

definition emif_perfcnt_init :: "int emifK" where
  "emif_perfcnt_init = (bindK (getK emif0) (\<lambda>p.
    seqK (assertK (p = 0)) (
    bindK (emif_mmap EMIF1_BASE 4096) (\<lambda>v.
    seqK (modK (\<lambda>s. s\<lparr>emif0 := v\<rparr>)) (
    seqK (assertK (v \<noteq> 0)) (
    seqK emif_config (
    ret 0)))))))"

text \<open>A register of the mapped block; reading through a null pointer is a fault.\<close>

definition emif_reg :: "string \<Rightarrow> 32 word emifK" where
  "emif_reg f = (bindK (getK emif0) (\<lambda>p.
    if p = 0 then failK Bad_access
     else (bindK (call f []) (\<lambda>v.
       ret (of_int v)))))"

definition gettimeofday :: "(32 word \<times> 32 word) emifK" where
  "gettimeofday = (bindK (call ''gettimeofday.tv_sec'' []) (\<lambda>s.
    bindK (call ''gettimeofday.tv_usec'' []) (\<lambda>u.
    ret (of_int s, of_int u))))"

definition emif_perfcnt_start :: "unit emifK" where
  "emif_perfcnt_start = (bindK (getK emif0) (\<lambda>p.
    seqK (whenK (p = 0) emif_config) (
    bindK gettimeofday (\<lambda>tv.
    seqK (modK (\<lambda>s. s\<lparr>start_tv := tv\<rparr>)) (
    bindK (emif_reg ''emif_perf_cnt_tim'') (\<lambda>cy.
    seqK (modK (\<lambda>s. s\<lparr>start_cycles := cy\<rparr>)) (
    bindK (emif_reg ''emif_perf_cnt_1'') (\<lambda>c1.
    seqK (modK (\<lambda>s. s\<lparr>start_cnt1 := c1\<rparr>)) (
    bindK (emif_reg ''emif_perf_cnt_2'') (\<lambda>c2.
    modK (\<lambda>s. s\<lparr>start_cnt2 := c2\<rparr>)))))))))))"

definition tv_us :: "32 word \<times> 32 word \<Rightarrow> 32 word" where
  "tv_us tv = fst tv * 1000000 + snd tv"

text \<open>The elapsed cycles: from the counter, or from the clock when the counter has overflowed.\<close>

definition elapsed :: "32 word \<Rightarrow> 32 word \<Rightarrow> 32 word \<Rightarrow> 32 word" where
  "elapsed us start cycles =
     (if 0xffffffff div (DDR_MHZ div 2) < us \<or> cycles < start then DDR_MHZ div 2 * us
      else cycles - start)"

text \<open>The busy and the elapsed cycles that are reported; None when the busy counter overflowed.\<close>

definition emif_perfcnt_end :: "(32 word \<times> 32 word) option emifK" where
  "emif_perfcnt_end = (bindK (emif_reg ''emif_perf_cnt_tim'') (\<lambda>cycles.
    bindK (emif_reg ''emif_perf_cnt_1'') (\<lambda>cnt1.
    bindK (emif_reg ''emif_perf_cnt_2'') (\<lambda>cnt2.
    bindK gettimeofday (\<lambda>tv.
    bindK (getK start_tv) (\<lambda>st.
    bindK (getK start_cycles) (\<lambda>s0.
    bindK (getK start_cnt1) (\<lambda>s1.
    let us = tv_us tv - tv_us st in
    if cnt1 < s1 then ret None else ret (Some (cnt1 - s1, elapsed us s0 cycles))))))))))"

section \<open>Physically contiguous memory\<close>

record cmem = env +
  is_init :: bool
  blk_ddr :: int
  blk_msmc :: int

type_synonym 'a cmemK = "(cmem, 'a) prog"

datatype mem_type = MEM_TYPE_DDR | MEM_TYPE_MSMC

definition is_phys_ddr :: "32 word \<Rightarrow> bool" where "is_phys_ddr p \<longleftrightarrow> 0x20000000 < p"
definition is_phys_msmc :: "32 word \<Rightarrow> bool" where "is_phys_msmc p \<longleftrightarrow> p < 0x10000000"

definition phys32_to_dma :: "32 word \<Rightarrow> 32 word" where
  "phys32_to_dma p = (if is_phys_ddr p then p + 0x80000000 else p)"

text \<open>One block: the first of each kind is remembered.\<close>

definition note_block :: "int \<Rightarrow> 32 word \<Rightarrow> int \<times> int \<Rightarrow> int \<times> int" where
  "note_block i base = (\<lambda>(d, m).
     (if d = -1 \<and> is_phys_ddr base then i else d, if m = -1 \<and> is_phys_msmc base then i else m))"

definition cmem_init :: "int cmemK" where
  "cmem_init = (bindK (call ''CMEM_init'' []) (\<lambda>r0.
    seqK (assertK (r0 = 0)) (
    bindK (call ''CMEM_getNumBlocks'' []) (\<lambda>r1.
    bindK (call ''CMEM_getNumBlocks.nblocks'' []) (\<lambda>n.
    seqK (assertK (r1 = 0)) (
    seqK (forK [0..<nat n] (\<lambda>i. (bindK (call ''CMEM_getBlockAttrs'' [int i]) (\<lambda>r2.
       bindK (call ''CMEM_getBlockAttrs.phys_base'' [int i]) (\<lambda>base.
       seqK (assertK (r2 = 0)) (
       modK (\<lambda>s. let (d, m) = note_block (int i) (of_int base) (blk_ddr s, blk_msmc s)
                 in s\<lparr>blk_ddr := d, blk_msmc := m\<rparr>))))))) (
    bindK (getK blk_msmc) (\<lambda>m.
    bindK (getK blk_ddr) (\<lambda>d.
    seqK (assertK (m \<noteq> -1 \<and> d \<noteq> -1)) (
    seqK (modK (\<lambda>s. s\<lparr>is_init := True\<rparr>)) (
    ret 0)))))))))))"

text \<open>The buffer and its bus address.\<close>

definition cmem_alloc :: "mem_type \<Rightarrow> 32 word \<Rightarrow> (int \<times> 32 word) cmemK" where
  "cmem_alloc mt bufsize = (bindK (getK is_init) (\<lambda>i.
    seqK (whenK (\<not> i) (seqK cmem_init (ret ()))) (
    bindK (getK (case mt of MEM_TYPE_DDR \<Rightarrow> blk_ddr | MEM_TYPE_MSMC \<Rightarrow> blk_msmc)) (\<lambda>blk.
    seqK (assertK (blk \<noteq> -1)) (
    bindK (call (case mt of MEM_TYPE_DDR \<Rightarrow> ''CMEM_alloc2 POOL'' | MEM_TYPE_MSMC \<Rightarrow> ''CMEM_alloc2 HEAP'')
            [blk, uint bufsize]) (\<lambda>p.
    seqK (assertK (p \<noteq> 0)) (
    bindK (call ''CMEM_getPhys'' [p]) (\<lambda>ph.
    ret (p, phys32_to_dma (of_int ph))))))))))"

definition cmem_cleanup :: "unit cmemK" where
  "cmem_cleanup = exec ''CMEM_exit'' []"

definition cmem_alloc_ddr :: "32 word \<Rightarrow> (int \<times> 32 word) cmemK" where
  "cmem_alloc_ddr sz = cmem_alloc MEM_TYPE_DDR sz"

definition cmem_alloc_msmc :: "32 word \<Rightarrow> (int \<times> 32 word) cmemK" where
  "cmem_alloc_msmc sz = cmem_alloc MEM_TYPE_MSMC sz"

section \<open>Cache size\<close>

text \<open>\<open>sizes\<close> are the sizes of the levels that the system knows.\<close>

definition cache_size :: "32 word list \<Rightarrow> 32 word" where
  "cache_size szs = (let cs = sum_list szs in if cs = 0 then 64 * 1024 * 1024 * 2 else cs * 2)"

end
