(* ===== verification/CacheFlush.thy ===== *)
theory CacheFlush
  imports Tools
begin

text \<open>
  Flushing the data cache from user space, \<^verbatim>\<open>libsmm/clearcache.c\<close>, on x86, on ARM and elsewhere (its ia64 branch is left out).
  The flushing instructions and the system call are calls.

  The lemmas: the loop reaches every byte of the buffer when the size of a cache line is known, and never
  ends when it is not: \<^verbatim>\<open>clearcache\<close> goes on after \<^verbatim>\<open>fallback_clearcache\<close> with a line of 0 bytes.
\<close>

section \<open>The loop\<close>

text \<open>\<^verbatim>\<open>for (i = 0; i < size; i += cl)\<close> on 32-bit integers: the values of \<open>i\<close>, none when it does not end.\<close>

partial_function (option) strides :: "32 word \<Rightarrow> 32 word \<Rightarrow> 32 word \<Rightarrow> 32 word list option" where
  "strides sz cl i =
     (if i < sz then Option.bind (strides sz cl (i + cl)) (\<lambda>is. Some (i # is)) else Some [])"

declare strides.simps [code]

definition for_strides :: "32 word \<Rightarrow> 32 word \<Rightarrow> (32 word \<Rightarrow> ('s, unit) prog) \<Rightarrow> ('s, unit) prog" where
  "for_strides sz cl body = (case strides sz cl 0 of None \<Rightarrow> failK Spin | Some is \<Rightarrow> forK is body)"

section \<open>Clearing\<close>

record cache_env = env +
  clearmem :: int

type_synonym 'a cacheK = "(cache_env, 'a) prog"

text \<open>\<open>levels\<close> are the cache levels that the C library can be asked for.\<close>

definition fallback_clearcache :: "int list \<Rightarrow> unit cacheK" where
  "fallback_clearcache levels = (bindK (foldK (\<lambda>acc l. (bindK (call ''sysconf'' [l]) (\<lambda>v.
       ret (acc @ [of_int v])))) [] levels) (\<lambda>szs.
    let cs = cache_size szs in
    bindK (getK clearmem) (\<lambda>m.
    seqK (whenK (m = 0) (bindK (call ''malloc'' [uint cs]) (\<lambda>p.
       modK (\<lambda>s. s\<lparr>clearmem := p\<rparr>)))) (
    bindK (getK clearmem) (\<lambda>m1.
    whenK (m1 \<noteq> 0) (for_strides cs 32 (\<lambda>i. exec ''clearmem[i] = 1'' [m1 + uint i])))))))"

text \<open>On x86: \<^verbatim>\<open>cpuid\<close> tells whether there is a flush instruction, and the size of a line in units of 8 bytes.\<close>

definition clearcache_x86 :: "int list \<Rightarrow> int \<Rightarrow> 32 word \<Rightarrow> unit cacheK" where
  "clearcache_x86 levels mem sz = (bindK (call ''cpuid.ebx'' [1]) (\<lambda>ebx.
    bindK (call ''cpuid.edx'' [1]) (\<lambda>feat.
    seqK (whenK (\<not> bit (of_int feat :: 32 word) 19) (fallback_clearcache levels)) (
    let cl = (drop_bit 8 (of_int ebx :: 32 word) AND 0xff) * 8 in
    for_strides sz cl (\<lambda>i. exec ''clflush'' [mem + uint i])))))"

definition clearcache_arm :: "int \<Rightarrow> 32 word \<Rightarrow> unit cacheK" where
  "clearcache_arm mem sz = exec ''syscall(__ARM_NR_cacheflush)'' [mem, mem + uint sz, 0]"

definition clearcache_other :: "int list \<Rightarrow> unit cacheK" where
  "clearcache_other levels = fallback_clearcache levels"

section \<open>The loop ends, or not\<close>

text \<open>From \<open>i\<close> on, the multiples of the line below the size, when the last step does not wrap around.\<close>

lemma strides_eq:
  assumes cl: "0 < unat cl" and w: "unat sz + unat cl \<le> 2 ^ 32" and n: "(unat sz - unat i + (unat cl - 1)) div unat cl = n"
  shows "strides sz cl i = Some (map (\<lambda>k. i + of_nat k * cl) [0..<n])"
  using n
proof (induction n arbitrary: i)
  case 0
  then have "\<not> i < sz" using cl by (auto simp: word_less_nat_alt div_eq_0_iff)
  then show ?case by (subst strides.simps) simp
next
  case (Suc n)
  have lt: "i < sz"
  proof (rule ccontr)
    assume "\<not> i < sz"
    then have "unat sz - unat i = 0" by (simp add: word_less_nat_alt)
    then show False using Suc.prems cl by simp
  qed
  then have i: "unat (i + cl) = unat i + unat cl" using w by (intro unat_plus_simple [THEN iffD1])
      (simp add: word_le_nat_alt unat_word_ariths word_less_nat_alt)
  have "(unat sz - unat (i + cl) + (unat cl - 1)) div unat cl = n"
  proof (cases "unat (i + cl) \<le> unat sz")
    case True
    then have "unat sz - unat i + (unat cl - 1) = (unat sz - unat (i + cl) + (unat cl - 1)) + unat cl" using i by simp
    then have "(unat sz - unat i + (unat cl - 1)) div unat cl = Suc ((unat sz - unat (i + cl) + (unat cl - 1)) div unat cl)"
      using cl by (metis Suc_eq_plus1 div_add_self2 less_irrefl)
    then show ?thesis using Suc.prems by simp
  next
    case False
    then have "unat sz - unat i + (unat cl - 1) < 2 * unat cl" using i cl by linarith
    then have "(unat sz - unat i + (unat cl - 1)) div unat cl < 2" by (simp add: less_mult_imp_div_less)
    then show ?thesis using Suc.prems cl False by simp
  qed
  from Suc.IH [OF this] have "strides sz cl i = Some (i # map (\<lambda>k. i + cl + of_nat k * cl) [0..<n])"
    using lt by (subst strides.simps) simp
  moreover have "i # map (\<lambda>k. i + cl + of_nat k * cl) [0..<n] = map (\<lambda>k. i + of_nat k * cl) [0..<Suc n]"
    by (simp add: upt_conv_Cons map_Suc_upt [symmetric] algebra_simps del: upt_Suc)
  ultimately show ?case by simp
qed

text \<open>Every byte of the buffer lies on a line that is flushed.\<close>

lemma strides_cover:
  assumes cl: "0 < unat cl" and w: "unat sz + unat cl \<le> 2 ^ 32"
  shows "\<exists>is. strides sz cl 0 = Some is \<and> (\<forall>b < unat sz. \<exists>i\<in>set is. unat i \<le> b \<and> b < unat i + unat cl)"
proof -
  let ?n = "(unat sz - unat (0 :: 32 word) + (unat cl - 1)) div unat cl"
  let ?is = "map (\<lambda>k. 0 + of_nat k * cl) [0..<?n]"
  have "\<exists>i\<in>set ?is. unat i \<le> b \<and> b < unat i + unat cl" if b: "b < unat sz" for b
  proof
    let ?k = "b div unat cl"
    have "?k * unat cl \<le> b" by simp
    moreover have "unat sz < 2 ^ LENGTH(32)" by (rule unsigned_less)
    ultimately have lt: "?k * unat cl < 2 ^ 32" using b by (auto intro: le_less_trans [OF div_times_less_eq_dividend])
    have "of_nat ?k * cl = of_nat (?k * unat cl)" by simp
    then have u: "unat (of_nat ?k * cl) = ?k * unat cl"
      using lt by (simp only: unat_of_nat) (simp add: take_bit_nat_eq_self)
    show "unat (0 + of_nat ?k * cl) \<le> b \<and> b < unat (0 + of_nat ?k * cl) + unat cl"
      using cl dividend_less_div_times [of "unat cl" b] by (simp add: u)
    have "b + 1 \<le> unat sz" using b by simp
    then have "(b + unat cl) div unat cl \<le> ?n" using cl by (intro div_le_mono) simp
    moreover have "(b + unat cl) div unat cl = Suc ?k" using cl by (simp add: div_add_self2)
    ultimately have "?k < ?n" by simp
    then show "0 + of_nat ?k * cl \<in> set ?is" by auto
  qed
  then show ?thesis using strides_eq [OF cl w refl, of 0] by blast
qed

text \<open>With a line of 0 bytes the loop never ends.\<close>

lemma strides_zero:
  assumes "0 < sz"
  shows "strides sz 0 0 = None"
proof (rule ccontr)
  assume "strides sz 0 0 \<noteq> None"
  then obtain xs where x: "strides sz 0 0 = Some xs" by auto
  then have "\<exists>ys. strides sz 0 0 = Some ys \<and> xs = 0 # ys"
    using assms by (subst (asm) strides.simps) (auto simp: bind_eq_Some_conv)
  then show False using x by auto
qed

lemma clearcache_without_clflush:
  assumes "\<not> bit (of_int (answer s (hist s @ [(''cpuid.ebx'', [1], b)]) ''cpuid.edx'' [1]) :: 32 word) 19"
    and "answer s (hist s) ''cpuid.ebx'' [1] = b" and "drop_bit 8 (of_int b :: 32 word) AND 0xff = 0" and "0 < sz"
  shows "\<exists>e. clearcache_x86 levels mem sz s = Inl e"
proof -
  have "for_strides sz 0 body s1 = Inl Spin" for body :: "32 word \<Rightarrow> unit cacheK" and s1
    by (simp add: for_strides_def strides_zero [OF assms(4)] failK_def)
  then have z: "seqK m (for_strides sz 0 body) s1 = (case m s1 of Inl e \<Rightarrow> Inl e | Inr _ \<Rightarrow> Inl Spin)" for m :: "unit cacheK" and body s1
    by (simp add: seqK_run split: sum.splits)
  show ?thesis
    using assms(1-3) by (simp add: clearcache_x86_def bindK_run call_run Let_def z whenK_def split: sum.splits)
qed

end
