(* ===== verification/Spec2Isabelle.thy ===== *)
theory Spec2Isabelle
  imports Example AbaTrace DrvArmNuma DrvTest EdmaGather CacheFlush
begin

text \<open>
  A verification development of memif, a memory-move service for heterogeneous memory: user
  threads put requests (\<^verbatim>\<open>mig_desc\<close>) on lock-free queues in pages they share with a kernel driver,
  the driver replicates or migrates the pages with a DMA engine and puts the requests on a
  completion queue.

  \<^bold>\<open>The program and its model.\<close>
  \<^item> \<^verbatim>\<open>libsmm/mig.h\<close>: \<open>MigTypes\<close> (descriptors as two content words with bit fields, 64-bit links,
    queues, the region).
  \<^item> \<^verbatim>\<open>libsmm/migqueue.c\<close>: \<open>FreeList\<close> (the free list), \<open>MigQueue\<close> (the coloured queue), \<open>MigRegion\<close>
    (\<^verbatim>\<open>init_migregion\<close>, the invariant \<open>wf_region\<close> of a whole region).  \<open>QueueSpec\<close> states what
    clients rely on as locales (\<open>desc_pool\<close>, \<open>colored_pool\<close>, \<open>alloc_pool\<close>); \<open>MigRegion\<close> interprets
    them on the modelled operations (\<open>mq\<close>, \<open>mqc\<close>, \<open>mqa\<close>).  \<open>Steps\<close> has the same operations one shared
    access at a time, \<open>Interleave\<close> any number of threads that run them, \<open>AbaTrace\<close> one bad history.
  \<^item> \<^verbatim>\<open>libsmm/migusr.c\<close>: \<open>MigUsr\<close> (\<^verbatim>\<open>memif_start_replication\<close>, \<^verbatim>\<open>memif_open\<close>, and what a user thread
    does to a region).
  \<^item> \<^verbatim>\<open>migrate-x86/migrate-x86.c\<close>: \<open>Kernel\<close> (the driver's state and its access to memory and queues),
    \<open>DrvUsers\<close> (users running between the driver's queue operations), \<open>DrvIssue\<close> (submitting one
    descriptor), \<open>DrvPage\<close> and \<open>DrvMove\<close> (moving one page: ptes, buffers, mapping, copy, locks,
    completion), \<open>DrvQueue\<close> (\<^verbatim>\<open>user_flush\<close>, \<^verbatim>\<open>kernel_flush_work\<close>, callbacks), \<open>DrvWorker\<close> (the system call and the worker
    over the interface \<open>submission\<close>), \<open>Session\<close> (from the system call to the last completion, over the
    interface \<open>session\<close>), \<open>DrvFlush\<close> (flushing the
    whole queue into one transfer), \<open>DrvIf\<close> (device files, commands, module), \<open>DrvNuma\<close> (queries and
    NUMA balancing).
  \<^item> \<^verbatim>\<open>migrate-x86/migrate-x86-multi-chan.c\<close>: \<open>DrvMulti\<close> (what differs from \<^verbatim>\<open>migrate-x86.c\<close>: submission
    over 16 channels, the counting callback, 16 device files; it interprets \<open>session\<close>, too).
  \<^item> \<^verbatim>\<open>migrate-ks2.c\<close>, the ARM original: \<open>DrvArm\<close> (submission, completion, the third interpretation of
    \<open>session\<close>, the charges of a migration), \<open>DrvArmMove\<close> (moving a page, with its charge), \<open>DrvArmNuma\<close>.
  \<^item> \<^verbatim>\<open>test/kernel-driver/migrate-x86.c\<close>, \<^verbatim>\<open>libsmm/kernel/migif.c\<close>, \<^verbatim>\<open>l2if.c\<close>: \<open>DrvTest\<close> (the queue test
    module, the first device file, the file of the prefetch register).
  \<^item> What the three drivers do differently is a value of \<open>variant\<close> (\<open>DrvQueue\<close>): \<open>x86_driver\<close>,
    \<open>multi_driver\<close>, \<open>ks2_driver\<close>.  A function \<open>f_by\<close> is the common text with the variant, or the one
    function that differs, as an argument; \<open>f\<close>, \<open>f_multi\<close>, \<open>f_ks2\<close> and \<open>f_arm\<close> are the function in the three
    files (\<open>f_arm\<close> where the source's name ends in \<open>ks2\<close> in all of them).
  \<^item> \<open>EndToEnd\<close>: the library's API on top of the driver, from loading the module on.  The library sees the region
    through the interface \<open>shared_pages\<close> (\<open>MigUsr\<close>), which \<open>EndToEnd\<close> interprets on the driver's state; its
    \<^verbatim>\<open>write\<close> puts the command into the caller's memory (\<open>umem\<close>), looks the descriptor up among the open files
    (\<open>files\<close>) and runs the driver's \<^verbatim>\<open>if_write\<close>, which reads the command back.  \<open>MultiLoad\<close>: the same on the
    16-channel driver, when the kernel has fewer channels.
  \<^item> \<^verbatim>\<open>libsmm/edma3.c\<close>: \<open>EdmaTypes\<close>, \<open>Edma\<close> (the user-space wrapper of the EDMA3 engine);
    \<open>EdmaXfer\<close> (what a parameter set copies, the geometry of a transfer) and \<open>EdmaGather\<close> (the two gathers).
  \<^item> \<^verbatim>\<open>libsmm/measure.c\<close>, \<^verbatim>\<open>emif.c\<close>, \<^verbatim>\<open>cmem.c\<close>, \<^verbatim>\<open>clearcache.c\<close>: \<open>Tools\<close>, \<open>CacheFlush\<close>.
  \<^item> \<open>Example\<close>: a concrete device, on which the properties are applied.

  \<^bold>\<open>Conventions.\<close>  Functions of \<^verbatim>\<open>migqueue.c\<close> map a region to \<open>fault + result \<times> region\<close>; a failed
  \<^verbatim>\<open>assert\<close>, a \<^verbatim>\<open>BUG\<close> and an access outside an array are values of \<open>fault\<close> (\<open>Prelude\<close>).  Driver
  functions are programs of the state monad \<open>prog\<close> (\<open>Monad\<close>).  Functions of the kernel proper, of
  TI's low-level driver and of the C library are not part of the repository: each is a call, recorded
  in \<open>hist\<close> with its arguments and its result, and the result is an answer of an arbitrary function
  \<open>answer\<close> of the history.  What \<^verbatim>\<open>copy_from_user\<close> copies is a state of its own (\<open>umem\<close>).  Statements about what a run calls are sums over the history
  (\<open>weight\<close>, \<open>shifts\<close>); statements that need the kernel to cooperate name what they need
  (\<open>kernel_collects\<close>: all that collecting the pages of a request takes; \<open>kernel_copies\<close>: also an engine that
  accepts every transfer, empty ones included; \<open>takes_transfers\<close>: one that accepts those that are not empty).  Machine integers have their C width; \<^verbatim>\<open>unsigned long\<close> has 64 bits in the queue
  library and the driver and 32 bits in \<^verbatim>\<open>edma3.c\<close>.

  \<^bold>\<open>Concurrency.\<close>  In the driver's model a queue operation runs without interruption; between any two
  queue operations of the driver an arbitrary chunk of user actions runs on the same region
  (\<open>interfere\<close>).  \<open>flows\<close> says that the sequence of requests (taken, completed, in the driver's hands,
  issued, requested) only grows at its end.  \<open>Steps\<close> justifies this from below: a thread that runs alone
  is the operation, and in \<open>Interleave\<close> any interleaving of enqueues, colour changes, allocations and
  returns keeps the region's invariant and refines lists, step by step.  Accesses are sequentially
  consistent there, and its threads do not dequeue: with a dequeue the claim is false, and \<open>AbaTrace\<close>
  has the history in which a request is lost.

  \<^bold>\<open>What is shown.\<close>  The queue library: initialisation, every operation on every branch, the invariant
  under interleaving, and the lost request.  The driver: the submission transfers the range that was
  asked for, the locks and references of the page paths balance, the worker and a whole session
  return and complete every request in order; the errors it runs into.  The 16-channel driver: which
  requests it copies, which it does not, what its callbacks count, and what it does with
  fewer channels.  The
  ARM driver: what its port to x86 submits differently, the session, what a migration leaves behind and
  which charge it loses.  Library and driver together: from loading the module to the completion of a
  replication requested through the API.  The DMA wrapper: the set it
  programs copies the buffer, the sizes for which it does not, and the gather with preloaded sets as
  an optimisation of the plain one.

  \<^bold>\<open>Fuel.\<close>  A queue loop has as many rounds as there are descriptors plus two: a round that does not
  finish moves the lagging tail by one node.  The driver's loops over the request queue are bounded
  by the descriptors plus the requests users still submit (\<open>todo\<close>).  \<open>user_flush\<close> and
  \<open>kernel_flush_work\<close> are proved to return with this fuel.  Walks over rings of buffers take their
  bound \<open>n\<close> as an argument.

  \<^bold>\<open>Not modelled.\<close>  \<^verbatim>\<open>#if 0\<close> and \<^verbatim>\<open>EMU_HUGETLB\<close> code; printing and measurement calls inside the driver; the
  copies, in the other two driver files, of functions that read as in \<^verbatim>\<open>migrate-x86.c\<close> word for word, which
  are modelled from there; \<^verbatim>\<open>mm-internal.h\<close>, a header of the kernel; the user-space test programs; board
  configuration tables.
\<close>

section \<open>The region and its queues\<close>

text \<open>C1. An initialised region: \<^verbatim>\<open>init_migregion\<close> on \<open>sz\<close> bytes, a positive multiple of the page
  size and at most 2 MB, succeeds whatever the memory held; the three queues are empty, the
  request queue has the users' colour, and all descriptors but the three dummies are free.\<close>

theorem init_region_ready:
  assumes "4096 \<le> sint sz" and "sint sz \<le> 2 ^ 21" and "sint sz mod 4096 = 0"
  shows "\<exists>r. init_migregion mem r0 sz = Inr r \<and> wf_region r {} \<and> (\<forall>q\<in>set live_qs. contents r q = [])
    \<and> color_of r Qreq = COLOR_USR \<and> unat (ndescs r) = (nat (sint sz) - 152) div 32 \<and> nfree r + 3 = unat (ndescs r)"
  using init_migregion_ok [OF assms] by blast

theorem init_region_ready_witness:
  "\<exists>r. init_migregion (\<lambda>_. null_desc) raw_region 4096 = Inr r \<and> nfree r = 120"
  using init_region_ready [of 4096 "\<lambda>_. null_desc" raw_region] by auto

text \<open>C2. \<^verbatim>\<open>mig_enqueue\<close> of a descriptor that the caller holds, on a well-formed region: the request is
  the last of its queue, the result is the queue's colour, no other queue, colour, descriptor
  content or free descriptor changes, and the region stays well formed without the caller's
  descriptor.\<close>

theorem enqueue_appends:
  assumes "wf_region r own" and "q \<in> set live_qs" and "p \<in> own"
  shows "\<exists>r'. mig_enqueue r q p = Inr (color_of r q, r') \<and> wf_region r' (own - {p})
    \<and> contents r' q = contents r q @ [payload r p] \<and> (\<forall>q'\<in>set live_qs - {q}. contents r' q' = contents r q')
    \<and> (\<forall>q'\<in>set live_qs. color_of r' q' = color_of r q') \<and> nfree r' = nfree r \<and> payload r' = payload r"
  using wf_enqueue [OF assms] by (auto simp: fun_eq_iff)

theorem enqueue_appends_witness:
  "\<exists>r'. mig_enqueue (fst taken_region) Qcomp (snd taken_region) = Inr (color_of (fst taken_region) Qcomp, r')
    \<and> length (contents r' Qcomp) = 1"
  using enqueue_appends [OF taken_region(1), of Qcomp "snd taken_region"] taken_region(3) [of Qcomp] by auto

text \<open>C3. \<^verbatim>\<open>mig_dequeue\<close> of a queue that is not empty, with a free descriptor for the replica: the
  caller gets a descriptor of its own that carries the oldest request and the queue's colour, the
  rest of the queue stays in order, and as many descriptors are free as before.\<close>

theorem dequeue_oldest:
  assumes "wf_region r own" and "q \<in> set live_qs" and "contents r q = w # ws" and "0 < nfree r"
  shows "\<exists>p r'. mig_dequeue r q = Inr (Some p, r') \<and> p \<notin> own \<and> wf_region r' (insert p own)
    \<and> payload r' p = w \<and> contents r' q = ws \<and> mp_color (nxt (desc_at r' p)) = color_of r q
    \<and> (\<forall>q'\<in>set live_qs - {q}. contents r' q' = contents r q')
    \<and> (\<forall>q'\<in>set live_qs. color_of r' q' = color_of r q') \<and> nfree r' = nfree r"
proof -
  have "contents r q \<noteq> []" using assms(3) by simp
  from wf_dequeue [OF assms(1,2) this assms(4)] show ?thesis using assms(3) by auto
qed

theorem dequeue_oldest_witness:
  "\<exists>p r'. mig_dequeue one_request Qreq = Inr (Some p, r') \<and> contents r' Qreq = [] \<and> nfree r' = 375"
proof -
  obtain w where "contents one_request Qreq = [w]" using one_request(2) by (auto simp: length_Suc_conv)
  with dequeue_oldest [OF one_request(1), of Qreq] one_request(6) show ?thesis by auto
qed

text \<open>C4. The two other outcomes of \<^verbatim>\<open>mig_dequeue\<close>: an empty queue gives \<^verbatim>\<open>NULL\<close> and changes nothing;
  a queue that is not empty while no descriptor is free for the replica is a BUG, so a user who
  takes all descriptors crashes whoever dequeues next.\<close>

theorem dequeue_empty_or_exhausted:
  assumes "wf_region r own" and "q \<in> set live_qs" and "contents r q = [] \<or> nfree r = 0"
  shows "mig_dequeue r q = (if contents r q = [] then Inr (None, r) else Inl Bug)"
  using wf_dequeue_empty [OF assms(1,2)] wf_dequeue_exhausted [OF assms(1,2)] assms(3) by auto

theorem dequeue_empty_or_exhausted_witness: "mig_dequeue fresh_region Qcomp = Inr (None, fresh_region)"
  using dequeue_empty_or_exhausted [OF fresh_region(1), of Qcomp] fresh_region(2) [of Qcomp] by simp

text \<open>C5. \<^verbatim>\<open>migqueue_set_color_if_empty\<close> is an atomic test-and-set: on an empty queue it returns the
  old colour and sets the new one, on any other it returns -1 and changes nothing; the contents of
  all queues and the other queues' colours stay.\<close>

theorem set_color_if_empty:
  assumes "wf_region r own" and "q \<in> set live_qs" and "0 \<le> sint c"
  shows "\<exists>r'. migqueue_set_color_if_empty r q c = Inr (if contents r q = [] then color_of r q else - 1, r')
    \<and> wf_region r' own \<and> color_of r' q = (if contents r q = [] then c else color_of r q)
    \<and> (\<forall>q'\<in>set live_qs. contents r' q' = contents r q' \<and> (q' \<noteq> q \<longrightarrow> color_of r' q' = color_of r q'))
    \<and> nfree r' = nfree r \<and> payload r' = payload r"
proof (cases "contents r q = []")
  case True
  then show ?thesis using wf_set_color [OF assms(1,2) True assms(3)] by (auto simp: fun_eq_iff)
qed (use wf_set_color_busy [OF assms(1,2)] assms(1) in simp)

theorem set_color_if_empty_witness:
  "\<exists>r'. migqueue_set_color_if_empty fresh_region Qreq COLOR_KER = Inr (COLOR_USR, r') \<and> color_of r' Qreq = COLOR_KER"
  using set_color_if_empty [OF fresh_region(1), of Qreq COLOR_KER] fresh_region(2) [of Qreq] fresh_region(3)
  by (auto simp: COLOR_KER_def)

text \<open>C6. Moving one queue behind another with \<^verbatim>\<open>while ((d = mig_dequeue(a))) mig_enqueue(b, d)\<close>
  implements the concatenation of lists: with fuel above the length of \<open>a\<close> the loop returns, \<open>a\<close> is
  empty, \<open>b\<close> holds its old contents followed by those of \<open>a\<close> in order, and nothing else changes.\<close>

theorem drain_concatenates:
  assumes "wf_region r own" and "a \<in> set live_qs" "b \<in> set live_qs" "a \<noteq> b"
    and "length (contents r a) < n" and "0 < nfree r"
  shows "\<exists>r'. drain n Spin mig_dequeue mig_enqueue a b r = Inr r' \<and> wf_region r' own \<and> contents r' a = []
    \<and> contents r' b = contents r b @ contents r a
    \<and> (\<forall>q'\<in>set live_qs - {a, b}. contents r' q' = contents r q')
    \<and> (\<forall>q'\<in>set live_qs. color_of r' q' = color_of r q') \<and> nfree r' = nfree r"
  using mq.drain_all [OF assms, of Spin] by auto

theorem drain_concatenates_witness:
  "\<exists>r'. drain 2 Spin mig_dequeue mig_enqueue Qreq Qissued one_request = Inr r' \<and> length (contents r' Qissued) = 1"
proof -
  have "length (contents one_request Qreq) < 2" "(0::nat) < nfree one_request" using one_request by simp_all
  with drain_concatenates [OF one_request(1), of Qreq Qissued 2] show ?thesis
    using one_request(2,3) by auto
qed

text \<open>C7. The free list: \<^verbatim>\<open>freelist_remove\<close> of a region with free descriptors gives one that nobody
  holds and leaves every queue and content as it is; giving it back with \<^verbatim>\<open>freelist_add\<close> restores
  the number of free descriptors; an exhausted list gives \<^verbatim>\<open>NULL\<close>.\<close>

theorem freelist_remove_add:
  assumes "wf_region r own"
  shows "if nfree r = 0 then freelist_remove r = Inr (None, r)
    else \<exists>p r1 r2. freelist_remove r = Inr (Some p, r1) \<and> p \<notin> own \<and> wf_region r1 (insert p own)
      \<and> nfree r = Suc (nfree r1) \<and> freelist_add r1 p = Inr r2 \<and> wf_region r2 own \<and> nfree r2 = nfree r
      \<and> (\<forall>q\<in>set live_qs. contents r2 q = contents r q \<and> color_of r2 q = color_of r q) \<and> payload r2 = payload r"
proof (cases "nfree r = 0")
  case True
  then show ?thesis using wf_freelist_remove_none [OF assms] by simp
next
  case False
  then obtain p r1 where p: "freelist_remove r = Inr (Some p, r1)" "p \<notin> own" "wf_region r1 (insert p own)"
    "nfree r = Suc (nfree r1)" "\<forall>q\<in>set live_qs. contents r1 q = contents r q \<and> color_of r1 q = color_of r q"
    "\<forall>x. payload r1 x = payload r x" using wf_freelist_remove [OF assms] by blast
  obtain r2 where "freelist_add r1 p = Inr r2" "wf_region r2 (insert p own - {p})" "nfree r2 = Suc (nfree r1)"
    "\<forall>q\<in>set live_qs. contents r2 q = contents r1 q \<and> color_of r2 q = color_of r1 q" "\<forall>x. payload r2 x = payload r1 x"
    using wf_freelist_add [OF p(3), of p] by blast
  moreover have "insert p own - {p} = own" using p(2) by auto
  ultimately show ?thesis using False p by auto
qed

theorem freelist_remove_add_witness: "\<exists>p r1. freelist_remove fresh_region = Inr (Some p, r1) \<and> nfree r1 = 375"
  using freelist_remove_add [OF fresh_region(1)] fresh_region(4) by (auto split: if_splits)

text \<open>C8. Addresses in a descriptor: \<^verbatim>\<open>base_to_virt\<close> of the stored source address, or destination address, is
  the address without its offset in the page, cut to 52 bits, for the shift is done in the 52 bits of the
  bit field: it is the page's address exactly when the address is less than \<open>2^52\<close>.  Storing either leaves the
  other members of its word and the other address as they are.\<close>

theorem virt_base_roundtrip:
  "base_to_virt (virt_base (set_virt_base (virt_to_base x) d)) = take_bit 52 (MIG_BLOCK_ROUND_DOWN x)
   \<and> base_to_virt (virt_base_dest (set_virt_base_dest (virt_to_base x) d)) = take_bit 52 (MIG_BLOCK_ROUND_DOWN x)
   \<and> (base_to_virt (virt_base (set_virt_base (virt_to_base x) d)) = MIG_BLOCK_ROUND_DOWN x) = (unat x < 2 ^ 52)
   \<and> order (set_virt_base (virt_to_base x) d) = order d \<and> node (set_virt_base (virt_to_base x) d) = node d
   \<and> huge_page (set_virt_base (virt_to_base x) d) = huge_page d \<and> flag (set_virt_base (virt_to_base x) d) = flag d
   \<and> virt_base_dest (set_virt_base (virt_to_base x) d) = virt_base_dest d
   \<and> virt_base (set_virt_base_dest (virt_to_base x) d) = virt_base d"
  by (simp add: virt_to_base_fits base_to_virt_virt_to_base round_down_fits virt_base_dest_def [of "set_virt_base _ _"]
      virt_base_def [of "set_virt_base_dest _ _"])
     (simp add: virt_base_dest_def set_virt_base_def virt_base_def set_virt_base_dest_def)

section \<open>Concurrent clients\<close>

text \<open>C9. The library one shared access at a time: a thread that runs alone from the start of an operation
  ends with the result and the memory of the operation's uninterrupted model, faults included; the
  two models of enqueue, dequeue, recolouring and the free list agree.\<close>

theorem thread_alone_is_operation:
  assumes "wf_region r own" and "q \<in> set live_qs" and "p \<in> own" and "0 \<le> sint c"
  shows "finishes (Enq_start q p) r (outcome Color (mig_enqueue r q p))
    \<and> finishes (Deq_head q None) r (outcome Desc (mig_dequeue r q))
    \<and> finishes (Col_head q c) r (outcome Color (migqueue_set_color_if_empty r q c))
    \<and> finishes (Rem_top To_client) r (outcome Desc (freelist_remove r))
    \<and> finishes (Add_count To_client p) r (bindE (freelist_add r p) (\<lambda>r1. Inr (Added, r1)))"
  using wf_no_spin [OF assms(1,2)] assms(3,4)
  by (intro conjI mig_enqueue_alone mig_dequeue_alone set_color_if_empty_alone freelist_remove_alone freelist_add_alone) blast+

theorem thread_alone_is_operation_witness:
  "finishes (Deq_head Qcomp None) (fst taken_region) (Inr (Desc None, fst taken_region))"
proof -
  have "mig_dequeue (fst taken_region) Qcomp = Inr (None, fst taken_region)"
    using wf_dequeue_empty [OF taken_region(1), of Qcomp] taken_region(3) [of Qcomp] by simp
  then show ?thesis using thread_alone_is_operation [OF taken_region(1), of Qcomp "snd taken_region" 0] by auto
qed

text \<open>C10. Clients that allocate, fill and enqueue descriptors and recolour queues, their accesses interleaved in
  any order: the region stays well formed, no descriptor is in two places or lost, and no client runs
  into an assertion or a BUG at its next access.\<close>

theorem interleaving_keeps_region:
  assumes "wf_region r {}" and "exec (idle_sys r) es s"
  shows "wf_region (shm s) (\<Union>i. hand s i) \<and> (\<forall>i j. i \<noteq> j \<longrightarrow> hand s i \<inter> hand s j = {})
    \<and> (\<forall>i. \<exists>c m. step (pcs s i) (shm s) = Inr (c, m))"
proof -
  have "sys_ok s" using exec_ok [OF assms(2) sys_ok_idle [OF assms(1)]] by blast
  then show ?thesis using sys_ok_no_fault sys_okD(1,4) by blast
qed

theorem interleaving_keeps_region_witness:
  "\<exists>m s. exec (idle_sys mini_fresh) [Tau, Tau, Tau, Tau, Tau, Tau, Take, Tau, Tau, Tau, Take] s
    \<and> s = two m (Done (Desc (Some 2))) (Done (Desc (Some 1))) \<and> wf_region m (\<Union>i. hand s i)"
proof -
  obtain m where m: "exec (idle_sys mini_fresh) [Tau, Tau, Tau, Tau, Tau, Tau, Take, Tau, Tau, Tau, Take]
     (two m (Done (Desc (Some 2))) (Done (Desc (Some 1))))" using two_clients by blast
  show ?thesis using interleaving_keeps_region [OF mini_fresh_ok m] m by auto
qed

text \<open>C11. The same clients refine lists with a colour and a number of free descriptors: the accesses of any
  interleaving are, in their order, silent or one abstract operation each (append with the colour
  returned, recolour an empty queue, refuse a queue that is not empty, take a descriptor, find none),
  and the lists at the end are those in the memory.\<close>

theorem interleaving_refines_lists:
  assumes "wf_region r {}" and "exec (idle_sys r) es s"
  shows "abs_run (view r) es (view (shm s))"
  using exec_ok [OF assms(2) sys_ok_idle [OF assms(1)]] by simp

theorem interleaving_refines_lists_witness:
  "\<exists>m. abs_run (view mini_fresh) [Tau, Tau, Tau, Tau, Tau, Tau, Take, Tau, Tau, Tau, Take] (view m)"
proof -
  obtain m where m: "exec (idle_sys mini_fresh) [Tau, Tau, Tau, Tau, Tau, Tau, Take, Tau, Tau, Tau, Take]
     (two m (Done (Desc (Some 2))) (Done (Desc (Some 1))))" using two_clients by blast
  show ?thesis using interleaving_refines_lists [OF mini_fresh_ok m] by auto
qed

text \<open>C12. A dequeue breaks this: on a region that initialisation, three allocations and one request produce, an
  enqueue that stops before its compare-and-swap, while another client enqueues and a third dequeues,
  succeeds on a node that is already on the free list; it returns as if all were well, the queue is
  empty, the request is nowhere, and its descriptor is on the free list.\<close>

theorem aba_loses_request:
  "history = Inr aba_region \<and> wf_region aba_region {1, 2}
   \<and> run 5 (Enq_start Qcomp 2) aba_region = Inr (stalled, aba1)
   \<and> run 7 (Enq_start Qcomp 1) aba1 = Inr (Done (Color COLOR_NONE), aba2)
   \<and> run 15 (Deq_head Qcomp None) aba2 = Inr (Done (Desc (Some 3)), aba3)
   \<and> run 2 stalled aba3 = Inr (Done (Color COLOR_NONE), aba4)
   \<and> contents aba4 Qcomp = [] \<and> free_of aba4 = [0, 2]"
  using history_run aba_region_ok aba_stall aba_enqueue aba_dequeue aba_resume aba4_lost(1,2) by blast

section \<open>Submission and completion\<close>

text \<open>C13. The kernel worker \<^verbatim>\<open>kernel_flush_work\<close>, when memory, mappings and the engine cooperate (\<open>kernel_copies\<close>),
  the freed table is not overwritten, the engine's status is complete (\<open>work_env\<close>) and users go on submitting and reaping at every step:
  it returns, with both queues drained, the request queue handed back to the users, and every
  request completed in the order of submission.\<close>

theorem worker_completes_all:
  assumes "dev_ok r own s" and "clr s r = COLOR_KER" and "work_env A old r s" and "t_region (tables s old) = r"
    and "kernel_copies A pt phys"
  shows "\<exists>s1. kernel_flush_work old s = Inr ((), s1) \<and> dev_ok r own s1 \<and> clr s1 r = COLOR_USR
    \<and> on_q s1 r Qissued = [] \<and> on_q s1 r Qreq = [] \<and> flows r [] s [] s1"
  by (rule x86_work_ok [OF assms])

theorem worker_completes_all_witness:
  "\<exists>s1. kernel_flush_work 1 (machine kernel_region 0) = Inr ((), s1) \<and> clr s1 1 = COLOR_USR"
proof -
  have "dev_ok 1 {} (machine kernel_region 0)" by (rule machine_ok) (simp_all add: kernel_region)
  from worker_completes_all [OF this _ machine_work_env _ good_answer(1)]
  show ?thesis by (auto simp: machine_queues kernel_region)
qed

text \<open>C14. \<^verbatim>\<open>user_flush\<close> when the users have the colour and there is a request: it moves all requests to
  the issued queue, gives the request queue to the kernel, takes the oldest request and submits it
  with the interrupt on.  The issued queue then holds all the other requests in order, and behind them what users
  submitted meanwhile (\<open>us\<close>); the request queue holds only what they submitted after that (\<open>vs\<close>).  No
  request is lost or overtaken.\<close>

theorem user_flush_submits_first:
  assumes "dev_ok r own s" and "clr s r \<noteq> COLOR_KER" and "on_q s r Qissued @ on_q s r Qreq = w # ws"
  shows "\<exists>p s2 us vs. user_flush r mm parent f s = bindK (issue_one_desc f r p True mm) (\<lambda>_. ret 0) s2
    \<and> p \<notin> own \<and> dev_ok r (insert p own) s2 \<and> clr s2 r = COLOR_KER \<and> payload (regs s2 r) p = w
    \<and> on_q s2 r Qissued = ws @ us \<and> on_q s2 r Qreq = vs \<and> log_sub s2 r = log_sub s r @ us @ vs
    \<and> length us + length vs \<le> todo s r \<and> flows r [] s [w] s2 \<and> tables s2 = tables s"
proof -
  have ne: "on_q s r Qissued @ on_q s r Qreq \<noteq> []" unfolding assms(3) by simp
  obtain p s2 us vs where "user_flush r mm parent f s = bindK (issue_one_desc f r p True mm) (\<lambda>_. ret 0) s2"
    "p \<notin> own" "dev_ok r (insert p own) s2" "clr s2 r = COLOR_KER" "flows r [] s [payload (regs s2 r) p] s2"
    "payload (regs s2 r) p = w" "on_q s2 r Qissued = ws @ us" "on_q s2 r Qreq = vs" "log_sub s2 r = log_sub s r @ us @ vs"
    "length us + length vs \<le> todo s r" "tables s2 = tables s"
    using x86_flush_runs [OF assms(1,2) ne, of mm parent f] unfolding assms(3) list.sel by blast
  then show ?thesis by auto
qed

theorem user_flush_submits_first_witness:
  "\<exists>p s2. user_flush 1 1 (-1) Issue_copy (machine one_request 0)
     = bindK (issue_one_desc Issue_copy 1 p True 1) (\<lambda>_. ret 0) s2 \<and> clr s2 1 = COLOR_KER
   \<and> on_q s2 1 Qissued = [] \<and> on_q s2 1 Qreq = []"
proof -
  have d: "dev_ok 1 {} (machine one_request 0)" by (rule machine_ok) (simp_all add: one_request)
  have c: "clr (machine one_request 0) 1 \<noteq> COLOR_KER"
    by (simp add: machine_queues one_request COLOR_USR_def COLOR_KER_def)
  obtain w where "contents one_request Qreq = [w]" using one_request(2) by (auto simp: length_Suc_conv)
  then have "on_q (machine one_request 0) 1 Qissued @ on_q (machine one_request 0) 1 Qreq = w # []"
    by (simp add: machine_queues one_request)
  from user_flush_submits_first [OF d c this, of 1 "-1" Issue_copy] show ?thesis by simp blast
qed

text \<open>C15. A submission request on a device without requests is a BUG of the kernel: a user who issues
  \<^verbatim>\<open>MIG_MOVE_SINGLE_NOREMAP\<close> or \<^verbatim>\<open>MIG_MOVE_SINGLE_MIG\<close> on an empty device stops the machine.\<close>

theorem user_flush_empty_bug:
  assumes "dev_ok r own s" and "clr s r \<noteq> COLOR_KER" and "on_q s r Qissued = []" and "on_q s r Qreq = []" and "todo s r = 0"
  shows "user_flush r mm parent f s = Inl Bug"
  by (rule x86_flush_nothing [OF assms])

theorem user_flush_empty_bug_witness: "user_flush 1 1 (-1) Issue_mig (machine fresh_region 0) = Inl Bug"
proof -
  have "dev_ok 1 {} (machine fresh_region 0)" by (rule machine_ok) (simp_all add: fresh_region)
  from user_flush_empty_bug [OF this] show ?thesis
    by (simp add: machine_queues fresh_region COLOR_USR_def COLOR_KER_def)
qed

text \<open>C16. \<^verbatim>\<open>issue_one_desc_copy\<close>: when the kernel cooperates, it returns a table that describes the
  transfer, and the scatter lists it gave to the engine are exactly the pages of the source and the
  destination range, in order, with the page size the descriptor asks for.\<close>

theorem issue_copy_transfers_range:
  assumes "kernel_copies A pt phys" and "page_count_of (desc_at (R r) d) < N"
  shows "succeeds A R N (issue_one_desc_copy r d irq mm)
    (\<lambda>t s. issue_one_desc_func (tables s t) = Issue_copy \<and> migdesc (tables s t) = Some d
      \<and> (let D = desc_at (R r) d; n = page_count_of D; huge = (huge_page D \<noteq> 0) in
         num_pages (tables s t) = int n
         \<and> (\<exists>chan tx. (''device_prep_dma_sg'', chan # int n # int n # of_bool irq
              # sg_args (range_sg pt phys False huge (uint (base_to_virt (virt_base_dest D))) n)
              @ sg_args (range_sg pt phys True huge (uint (base_to_virt (virt_base D))) n), tx) \<in> set (hist s))))"
  using issue_copy_succeeds [where R = R, OF assms] by (rule succeeds_weaken) (auto simp: submitted_def Let_def)

theorem issue_copy_transfers_range_witness:
  "\<exists>t s1. issue_one_desc_copy 1 (snd taken_region) True 1 (machine (fst taken_region) 0) = Inr (t, s1)
    \<and> migdesc (tables s1 t) = Some (snd taken_region)"
proof -
  let ?R = "\<lambda>_ :: addr. fst taken_region"
  have n: "page_count_of (desc_at (?R 1) (snd taken_region)) < 200" using page_count_of_bounds(2) [of "desc_at (?R 1) (snd taken_region)"] by simp
  have e: "env_is good_answer ?R 200 (machine (fst taken_region) 0)" by (simp add: env_is_def)
  from succeedsD [OF issue_copy_transfers_range [where R = ?R, OF good_answer(1) n] e] show ?thesis by metis
qed

text \<open>C17. Both submission routines, called through the function pointer, leave \<^verbatim>\<open>mmap_sem\<close> as they found
  it, whatever the kernel answers.\<close>

theorem issue_balances_mmap_sem:
  assumes "issue_one_desc f r d irq mm s = Inr (t, s1)"
  shows "weight (sem_w mm) s1 = weight (sem_w mm) s"
proof -
  have "quiet (sem_w mm) (issue_one_desc f r d irq mm)" by (cases f) (simp_all add: issue_one_desc_def)
  from shiftsD [OF this assms] show ?thesis by simp
qed

theorem issue_balances_mmap_sem_witness:
  "\<exists>t s1. issue_one_desc Issue_copy 1 (snd taken_region) True 1 (machine (fst taken_region) 0) = Inr (t, s1)
    \<and> weight (sem_w 1) s1 = weight (sem_w 1) (machine (fst taken_region) 0)"
proof -
  let ?R = "\<lambda>_ :: addr. fst taken_region" and ?s = "machine (fst taken_region) 0"
  have n: "page_count_of (desc_at (?R 1) (snd taken_region)) < 200" using page_count_of_bounds(2) [of "desc_at (?R 1) (snd taken_region)"] by simp
  have e: "env_is good_answer ?R 200 ?s" by (simp add: env_is_def)
  obtain t s1 where "issue_one_desc_copy 1 (snd taken_region) True 1 ?s = Inr (t, s1)"
    using succeedsD [OF issue_copy_succeeds [where R = ?R, OF good_answer(1) n] e] by metis
  then have i: "issue_one_desc Issue_copy 1 (snd taken_region) True 1 ?s = Inr (t, s1)" by (simp add: issue_one_desc_def)
  show ?thesis using i issue_balances_mmap_sem [OF i] by blast
qed

text \<open>C18. A whole session: with the kernel cooperating and users going on at every step, the submission of a
  replication registers the callback and returns 0, the callback returns, the worker it schedules
  returns, and then the users own the request queue again, nothing is requested or issued, and every
  request has been completed in the order of submission.\<close>

theorem session_completes:
  assumes "dev_ok r {} s" and "clr s r \<noteq> COLOR_KER" and "on_q s r Qissued @ on_q s r Qreq \<noteq> []"
    and "r \<noteq> 0" and "roomy A s" and "kernel_copies A pt phys"
    and "\<And>h. A h ''device_tx_status == DMA_COMPLETE'' [i_chan (infos s (region_to_mmap_info r))] \<noteq> 0"
  shows "\<exists>t s1 s2 s3. user_flush r mm parent Issue_copy s = Inr (0, s1)
    \<and> (\<exists>tx v. (''tx->callback = dma_callback_kthread'', [tx, t], v) \<in> set (hist s1))
    \<and> dma_callback_kthread t s1 = Inr ((), s2) \<and> kernel_flush_work t s2 = Inr ((), s3)
    \<and> dev_ok r {} s3 \<and> clr s3 r = COLOR_USR \<and> on_q s3 r Qissued = [] \<and> on_q s3 r Qreq = []
    \<and> flows r [] s [] s3"
  using x86_session_ok [OF assms(1-7), of mm parent] by (simp add: called_back_def)

theorem session_completes_witness:
  "\<exists>t s1 s2 s3. user_flush 1 1 (-1) Issue_copy (machine one_request 0) = Inr (0, s1)
    \<and> dma_callback_kthread t s1 = Inr ((), s2) \<and> kernel_flush_work t s2 = Inr ((), s3) \<and> clr s3 1 = COLOR_USR"
proof -
  have d: "dev_ok 1 {} (machine one_request 0)" by (rule machine_ok) (simp_all add: one_request)
  have c: "clr (machine one_request 0) 1 \<noteq> COLOR_KER"
    by (simp add: machine_queues one_request COLOR_USR_def COLOR_KER_def)
  have q: "on_q (machine one_request 0) 1 Qissued @ on_q (machine one_request 0) 1 Qreq \<noteq> []"
    using one_request(2) by (auto simp: machine_queues)
  have m: "roomy good_answer (machine one_request 0)" by (simp add: roomy_def)
  from session_completes [OF d c q _ m good_answer(1) good_answer(2)] show ?thesis by fastforce
qed

text \<open>C19. From the library to the completion queue: a user calls \<^verbatim>\<open>memif_start_replication\<close> with a file that is
  open on a sound device whose request queue the users own.  The library writes the request and the command, and its
  \<^verbatim>\<open>write\<close> enters the driver, which reads the command, submits a replication and returns; the library
  returns the descriptor; the engine is to call back; the callback and then the worker return; and the request,
  with the caller's addresses rounded down to their pages in 52 bits and the low three bits of the order, is
  completed right behind all those submitted before it, whatever other users do meanwhile.\<close>

theorem replication_end_to_end:
  assumes "dev_ok r {} s" and "Suc (todo s r) < nfree (regs s r)" and "clr s r = COLOR_USR" and "r \<noteq> 0"
    and "opened s fd u r" and "roomy A s" and "kernel_copies A pt phys"
    and "\<And>h. A h ''device_tx_status == DMA_COMPLETE'' [i_chan (infos s (region_to_mmap_info r))] \<noteq> 0"
  shows "\<exists>d w s1 t s2 s3 us. memif_start_replication region_at set_region (sys_write n u) fd r src dst ord s = Inr (d, s1)
    \<and> called_back t s1 \<and> issue_one_desc_func (tables s1 t) = Issue_copy
    \<and> dma_callback_kthread t s1 = Inr ((), s2) \<and> kernel_flush_work t s2 = Inr ((), s3)
    \<and> req_src w = take_bit 52 (MIG_BLOCK_ROUND_DOWN src) \<and> req_dst w = take_bit 52 (MIG_BLOCK_ROUND_DOWN dst)
    \<and> req_order w = ucast ord AND mask 3
    \<and> log_reap s3 r @ on_q s3 r Qcomp = log_reap s r @ on_q s r Qcomp @ on_q s r Qissued @ on_q s r Qreq @ w # us
    \<and> clr s3 r = COLOR_USR \<and> dev_ok r {} s3"
  by (rule replication_end_to_end_ok [OF assms])

theorem replication_end_to_end_witness:
  "\<exists>d w s1 t s2 s3 us. memif_start_replication region_at set_region (sys_write 1 5) 3 1 0x10000 0x20000 2 user_machine = Inr (d, s1)
    \<and> issue_one_desc_func (tables s1 t) = Issue_copy
    \<and> dma_callback_kthread t s1 = Inr ((), s2) \<and> kernel_flush_work t s2 = Inr ((), s3)
    \<and> req_src w = 0x10000 \<and> req_dst w = 0x20000 \<and> log_reap s3 1 @ on_q s3 1 Qcomp = w # us"
proof -
  have r: "take_bit 52 (MIG_BLOCK_ROUND_DOWN 0x10000) = 0x10000" "take_bit 52 (MIG_BLOCK_ROUND_DOWN 0x20000) = 0x20000"
    by (simp_all add: MIG_BLOCK_ROUND_DOWN_def)
  from replication_end_to_end [OF user_machine(1-3) _ user_machine(5,4) write_answer, of 1 "0x10000" "0x20000" 2]
  show ?thesis unfolding user_machine(6) user_machine(7) [OF qs_live(1)] user_machine(7) [OF qs_live(2)]
      user_machine(7) [OF qs_live(3)] r append_Nil by (simp del: split_paired_Ex) metis
qed

text \<open>C20. From loading the module on: the module is loaded, a device file opened, which gets the channel that was
  requested for it, and a user requests a replication on the fresh region through the library, with the
  descriptor of that file.  System call, callback and worker return, and the request is the first that is
  completed, unless other users were faster.\<close>

theorem load_to_completion:
  assumes "\<And>h xs. A h ''debugfs_create_file'' xs \<noteq> 0" and "\<And>h xs. A h ''dma_request_channel DMA_MEMCPY'' xs \<noteq> 0"
    and "roomy A s" and "kernel_copies A pt phys" and "\<And>h xs. A h ''device_tx_status == DMA_COMPLETE'' xs \<noteq> 0"
    and "find_device nm 0 debug_fnames = Some (int i)" and "i < length debug_fnames" and "filp_priv s filp = 0"
    and "\<And>r. todo s r < 375" and "0 < fd" and "files s fd = filp" and "filp \<noteq> 0"
    and "\<And>h. A h ''copy_from_user'' [u, 4] = 0"
  shows "\<exists>s1 s2 r. migks2_module_init s = Inr (0, s1) \<and> if_open nm filp s1 = Inr (0, s2)
    \<and> i_region (infos s2 (filp_priv s2 filp)) = r \<and> i_chan (infos s2 (filp_priv s2 filp)) = chans s1 (int i)
    \<and> (\<exists>d w s3 t s4 s5 us. memif_start_replication region_at set_region (sys_write n u) fd r src dst ord s2 = Inr (d, s3)
      \<and> called_back t s3 \<and> issue_one_desc_func (tables s3 t) = Issue_copy
      \<and> dma_callback_kthread t s3 = Inr ((), s4) \<and> kernel_flush_work t s4 = Inr ((), s5)
      \<and> req_src w = take_bit 52 (MIG_BLOCK_ROUND_DOWN src) \<and> req_dst w = take_bit 52 (MIG_BLOCK_ROUND_DOWN dst)
      \<and> req_order w = ucast ord AND mask 3
      \<and> log_reap s5 r @ on_q s5 r Qcomp = log_reap s r @ w # us \<and> clr s5 r = COLOR_USR \<and> dev_ok r {} s5)"
  by (rule load_to_completion_ok [OF assms])

theorem load_to_completion_witness:
  "\<exists>s1 s2 r d s3. migks2_module_init user_machine = Inr (0, s1) \<and> if_open ''migif2'' 7 s1 = Inr (0, s2)
    \<and> i_chan (infos s2 (filp_priv s2 7)) = chans s1 2 \<and> i_region (infos s2 (filp_priv s2 7)) = r
    \<and> memif_start_replication region_at set_region (sys_write 1 5) 3 r 0x10000 0x20000 2 s2 = Inr (d, s3)"
proof -
  have A: "write_answer h ''debugfs_create_file'' xs \<noteq> 0" "write_answer h ''dma_request_channel DMA_MEMCPY'' xs \<noteq> 0"
    "write_answer h ''copy_from_user'' [5, 4] = 0" for h xs
    by (simp_all add: write_answer_def good_answer_def)
  have d: "find_device ''migif2'' 0 debug_fnames = Some (int 2)" "2 < length debug_fnames"
    by (simp_all add: debug_fnames_def strn_eq_def)
  have u: "todo user_machine r < 375" for r by (simp add: user_machine(10))
  show ?thesis
    using load_to_completion [OF A(1,2) user_machine(4) write_answer d user_machine(9) u _ user_machine(8) _ A(3),
      of 1 "0x10000" "0x20000" 2] by fastforce
qed

section \<open>The driver with 16 channels\<close>

text \<open>C21. \<^verbatim>\<open>issue_one_desc_copy\<close> of the 16-channel driver, for 16 pages or more: every channel is asked for
  one transfer, and the source and destination lists of the 16 transfers, put together in the order
  of the channels, are exactly the pages of the two ranges.\<close>

theorem multi_channels_cover_range:
  assumes "kernel_copies (answer s) pt phys" and "128 < max_nr_sg s" and "chans_ready s"
    and "desc_at (regs s r) p = D" and "4 \<le> unat (order D)"
  shows "\<exists>t s1 src dst n. issue_one_desc_copy_multi r p irq mm s = Inr (t, s1)
    \<and> transfers (hist s1) = transfers (hist s)
        @ map (\<lambda>i. chans s (int i) # n # n # of_bool irq # sg_args (dst i) @ sg_args (src i)) [0..<16]
    \<and> (\<forall>i<16. int (length (src i)) = n \<and> int (length (dst i)) = n) \<and> n = int (page_count_of D div 16)
    \<and> concat (map src [0..<16]) = copy_src pt phys D \<and> concat (map dst [0..<16]) = copy_dst pt phys D"
proof -
  let ?n = "page_count_of D div NR_CHANS"
  obtain t s1 where s1: "issue_one_desc_copy_multi r p irq mm s = Inr (t, s1)" "transfers (hist s1) = transfers (hist s)
      @ map (chan_args s irq ?n (copy_src pt phys D) (copy_dst pt phys D)) [0..<16]"
    using issue_copy_multi_runs [OF refl assms(1-3), of r p irq mm] unfolding assms(4) NR_CHANS_def by blast
  have dv: "NR_CHANS dvd page_count_of D" unfolding page_count_of_def by (rule chans_divide [OF assms(5)])
  note cover = parts_cover [of "copy_src pt phys D"] parts_cover [of "copy_dst pt phys D"]
  show ?thesis
    using s1 cover dv length_chan_part [of _ "copy_src pt phys D"] length_chan_part [of _ "copy_dst pt phys D"]
    by (intro exI [of _ t] exI [of _ s1] exI [of _ "chan_part ?n (copy_src pt phys D)"]
        exI [of _ "chan_part ?n (copy_dst pt phys D)"] exI [of _ "int ?n"])
      (simp add: chan_args_def fun_eq_iff NR_CHANS_def)
qed

theorem multi_channels_cover_range_witness:
  "\<exists>t s1. issue_one_desc_copy_multi 1 0 True 1 (machine16 (sized_region 5) 0) = Inr (t, s1)
    \<and> length (transfers (hist s1)) = 16 \<and> (\<forall>x\<in>set (transfers (hist s1)). x ! 1 = 2)"
proof -
  have k: "kernel_copies (answer (machine16 (sized_region 5) 0)) (\<lambda>_ a. 1 + \<bar>a\<bar>) (\<lambda>p. p)" by (simp add: first_done)
  have "4 \<le> unat (order (desc_at (sized_region 5) 0))" by (simp add: sized_region)
  then obtain t s1 src dst where r: "issue_one_desc_copy_multi 1 0 True 1 (machine16 (sized_region 5) 0) = Inr (t, s1)"
    "transfers (hist s1) = map (\<lambda>i. (int i + 1) # 2 # 2 # 1 # sg_args (dst i) @ sg_args (src i)) [0..<16]"
    using multi_channels_cover_range [OF k _ machine16_ready, of 1 0 "desc_at (sized_region 5) 0" True 1]
    by (auto simp: page_count_of_def sized_region)
  have "length (transfers (hist s1)) = 16 \<and> (\<forall>x\<in>set (transfers (hist s1)). x ! 1 = 2)" unfolding r(2) by simp
  with r(1) show ?thesis by blast
qed

text \<open>C22. The same routine for fewer than 16 pages never copies one of them: each of the 16 channels is asked to
  transfer an empty list.  When the engine accepts all of these, the routine returns a table for the pages as if
  all were well; when it refuses one, that is a BUG.\<close>

theorem multi_small_request_not_copied:
  assumes "kernel_collects (answer s) pt phys" and "128 < max_nr_sg s" and "chans_ready s"
    and "desc_at (regs s r) p = D" and "unat (order D) < 4"
  shows "case issue_one_desc_copy_multi r p irq mm s of
      Inr (t, s1) \<Rightarrow> num_pages (tables s1 t) = int (page_count_of D) \<and> 0 < page_count_of D
        \<and> transfers (hist s1) = transfers (hist s) @ map (\<lambda>i. [chans s (int i), 0, 0, of_bool irq]) [0..<16]
        \<and> (\<forall>i<16. \<exists>h. answer s h ''device_prep_dma_sg'' [chans s (int i), 0, 0, of_bool irq] \<noteq> 0)
    | Inl e \<Rightarrow> e = Bug \<and> (\<exists>i<16. \<exists>h. answer s h ''device_prep_dma_sg'' [chans s (int i), 0, 0, of_bool irq] = 0)"
proof -
  have z: "page_count_of D div NR_CHANS = 0" unfolding page_count_of_def by (rule chans_small [OF assms(5)])
  have a: "chan_args s irq 0 src dst = (\<lambda>i. [chans s (int i), 0, 0, of_bool irq])" for src dst
    by (simp add: fun_eq_iff chan_args_def chan_part_def sg_args_def)
  show ?thesis
    using issue_copy_multi_cases [OF refl assms(1-3), where r = r and p = p and irq = irq and mm = mm] page_count_of_bounds(1) [of D]
    unfolding assms(4) z a asked_def unfolding NR_CHANS_def
    by (cases "issue_one_desc_copy_multi r p irq mm s") auto
qed

theorem multi_small_request_not_copied_witness:
  "(\<exists>t s1. issue_one_desc_copy_multi 1 0 True 1 (machine16 (sized_region 2) 0) = Inr (t, s1)
      \<and> num_pages (tables s1 t) = 4 \<and> transfers (hist s1) = map (\<lambda>i. [int i + 1, 0, 0, 1]) [0..<16])
    \<and> issue_one_desc_copy_multi 1 0 True 1 (picky16 (sized_region 2) 0) = Inl Bug"
proof -
  have k: "kernel_collects (answer (machine16 (sized_region 2) 0)) (\<lambda>_ a. 1 + \<bar>a\<bar>) (\<lambda>p. p)"
    "kernel_collects (answer (picky16 (sized_region 2) 0)) (\<lambda>_ a. 1 + \<bar>a\<bar>) (\<lambda>p. p)"
    using kernel_copiesD(1) [OF first_done(1)] picky_answer by simp_all
  have o: "unat (order (desc_at (sized_region 2) 0)) < 4" by (simp add: sized_region)
  have n: "page_count_of (desc_at (sized_region 2) 0) = 4" by (simp add: page_count_of_def sized_region)
  have a: "first_done h ''device_prep_dma_sg'' xs \<noteq> 0" for h xs using kernel_copiesD(3) [OF first_done(1)] .
  have "case issue_one_desc_copy_multi 1 0 True 1 (machine16 (sized_region 2) 0) of
      Inr (t, s1) \<Rightarrow> num_pages (tables s1 t) = 4 \<and> transfers (hist s1) = map (\<lambda>i. [int i + 1, 0, 0, 1]) [0..<16]
    | Inl e \<Rightarrow> False"
    using multi_small_request_not_copied [OF k(1) _ machine16_ready, of 1 0 _ True 1] o n a
    by (auto split: sum.splits)
  moreover have "case issue_one_desc_copy_multi 1 0 True 1 (picky16 (sized_region 2) 0) of Inr (t, s1) \<Rightarrow> False | Inl e \<Rightarrow> e = Bug"
    using multi_small_request_not_copied [OF k(2) _ picky16_ready, of 1 0 _ True 1] o
    by (auto simp: picky_answer_def split: sum.splits dest: spec [of _ "0 :: nat"])
  ultimately show ?thesis by (auto split: sum.splits)
qed

text \<open>C23. The callbacks of the 16-channel driver, from the state that a submission leaves: whatever tables the
  first 15 carry, they only count; the 16th completes the request of its own table, and no other;
  one more callback, which a second submission before the 16th allows, writes past the array of
  completion times.\<close>

theorem multi_sixteenth_callback:
  assumes "dev_ok r own s" and "p \<in> own" and "r \<noteq> 0" and "t_region (tables s t) = r"
    and "migdesc (tables s t) = Some p" and "issue_one_desc_func (tables s t) = Issue_copy"
    and "my_counter s = 16" and "test_flag s = 0" and "length tabs = 15"
  shows "\<exists>s1. forK (tabs @ [t]) dma_callback_kthread_multi s = Inr ((), s1) \<and> dev_ok r (own - {p}) s1
    \<and> flows r [payload (regs s r) p] s [] s1 \<and> (\<forall>t'. dma_callback_kthread_multi t' s1 = Inl Bad_access)"
proof -
  obtain s0 where s0: "forK (tabs @ [t]) dma_callback_kthread_multi s = dma_callback_kthread t s0"
    "tables s0 = tables s" "qview s0 = qview s" "test_flag s0 = 16"
    using sixteen_callbacks [OF assms(7-9)] by (auto simp: device_view_def)
  note Q = qview_device [OF s0(3)]
  obtain s1 where s1: "dma_callback_kthread t s0 = Inr ((), s1)" "dev_ok r (own - {p}) s1"
    "flows r [payload (regs s0 r) p] s0 [] s1"
    using dma_callback_kthread_copy_ok [of r own s0 p t] assms(1-6) Q(1) s0(2) by auto
  have "test_flag s1 = 16" using callback_copy_test_flag [OF s1(1)] assms(6) s0(2,4) by simp
  then show ?thesis
    using s0(1) s1 flows_trans [OF Q(4) s1(3)] Q(5) seventeenth_callback by auto
qed

theorem multi_sixteenth_callback_witness:
  "\<exists>s1. forK (replicate 16 1) dma_callback_kthread_multi (machine16 (fst taken_region) (snd taken_region)) = Inr ((), s1)
    \<and> dma_callback_kthread_multi 1 s1 = Inl Bad_access"
proof -
  have "dev_ok 1 {snd taken_region} (machine16 (fst taken_region) (snd taken_region))"
    by (rule machine16_ok) (simp_all add: taken_region)
  from multi_sixteenth_callback [OF this, of "snd taken_region" 1 "replicate 15 1"]
  show ?thesis by (auto simp: replicate_append_same [symmetric] numeral_eq_Suc)
qed

text \<open>C24. A whole session of the 16-channel driver, in which the engine accepts every transfer and reports the
  device's own channel as done and all other channels as busy: the worker asks for the status of that one channel only,
  so it completes every request and hands the queue back to the users all the same.\<close>

theorem multi_session_ignores_other_channels:
  assumes "dev_ok r {} s" and "clr s r \<noteq> COLOR_KER" and "on_q s r Qissued @ on_q s r Qreq \<noteq> []"
    and "r \<noteq> 0" and "roomy A s" and "chans_ready s" and "kernel_copies A pt phys"
    and "\<And>h c. (A h ''device_tx_status == DMA_COMPLETE'' [c] \<noteq> 0) = (c = i_chan (infos s (region_to_mmap_info r)))"
  shows "\<exists>t s1 s2 s3. user_flush_multi r mm parent Issue_copy s = Inr (0, s1)
    \<and> (\<exists>tabs. callbacks (hist s1) = tabs @ replicate 16 t) \<and> fire_all t s1 = Inr ((), s2)
    \<and> kernel_flush_work_multi t s2 = Inr ((), s3) \<and> dev_ok r {} s3 \<and> clr s3 r = COLOR_USR
    \<and> on_q s3 r Qissued = [] \<and> on_q s3 r Qreq = [] \<and> flows r [] s [] s3"
proof -
  have st: "A h ''device_tx_status == DMA_COMPLETE'' [i_chan (infos s (region_to_mmap_info r))] \<noteq> 0" for h
    using assms(8) by simp
  from multi.session_ok [OF assms(1-6) can_copyI [OF assms(7)], unfolded multi_driver, OF st, of mm parent] show ?thesis
    unfolding called_back_multi_def NR_CHANS_def user_flush_multi_def kernel_flush_work_multi_def by blast
qed

theorem multi_session_ignores_other_channels_witness:
  "\<exists>t s1 s2 s3. user_flush_multi 1 1 (-1) Issue_copy (machine16 one_request 0) = Inr (0, s1)
    \<and> fire_all t s1 = Inr ((), s2) \<and> kernel_flush_work_multi t s2 = Inr ((), s3) \<and> clr s3 1 = COLOR_USR"
proof -
  have d: "dev_ok 1 {} (machine16 one_request 0)" by (rule machine16_ok) (simp_all add: one_request)
  have c: "clr (machine16 one_request 0) 1 \<noteq> COLOR_KER"
    by (simp add: machine16_queues one_request COLOR_USR_def COLOR_KER_def)
  have q: "on_q (machine16 one_request 0) 1 Qissued @ on_q (machine16 one_request 0) 1 Qreq \<noteq> []"
    using one_request(2) by (auto simp: machine16_queues)
  have m: "roomy first_done (machine16 one_request 0)" by (simp add: roomy_def)
  from multi_session_ignores_other_channels [OF d c q _ m machine16_ready first_done(1), of 1 "-1"]
  show ?thesis by (simp add: first_done(2)) blast
qed


text \<open>C25. Loading the 16-channel driver when the kernel has only \<open>k\<close> DMA channels to give, fewer than 16: it
  succeeds, since the result of a request is not looked at, and the first \<open>k\<close> channels are there; a file of one of
  these is opened, which only looks at its own channel; and the first replication of 16 pages or more that a user
  requests on it through the library follows the null pointer of a channel that is not there.\<close>

theorem multi_load_unchecked:
  assumes "\<And>h xs. A h ''debugfs_create_file'' xs \<noteq> 0" and "gives_channels k A" and "requests (hist s) = 0" and "k < NR_CHANS"
    and "roomy A s" and "kernel_collects A pt phys" and "takes_transfers A"
    and "find_device nm 0 debug_fnames16 = Some (int i)" and "i < k" and "filp_priv s filp = 0"
    and "\<And>r. todo s r < 375" and "0 < fd" and "files s fd = filp" and "filp \<noteq> 0"
    and "\<And>h. A h ''copy_from_user'' [u, 4] = 0" and "4 \<le> unat (ucast ord AND mask 3 :: 64 word)"
  shows "\<exists>s1 s2 r. migks2_module_init_multi s = Inr (0, s1) \<and> (\<forall>j<NR_CHANS. (chans s1 (int j) \<noteq> 0) = (j < k))
    \<and> if_open_multi nm filp s1 = Inr (0, s2) \<and> i_region (infos s2 (filp_priv s2 filp)) = r
    \<and> memif_start_replication region_at set_region (sys_write_by multi_driver n u) fd r src dst ord s2 = Inl Bad_access"
  by (rule few_channels_replication [OF assms])

theorem multi_load_unchecked_witness:
  "\<exists>s1 s2 r. migks2_module_init_multi (few_channels 8) = Inr (0, s1) \<and> if_open_multi ''migif2'' 7 s1 = Inr (0, s2)
    \<and> i_region (infos s2 (filp_priv s2 7)) = r
    \<and> memif_start_replication region_at set_region (sys_write_by multi_driver 1 5) 3 r 0x10000 0x20000 4 s2 = Inl Bad_access"
proof -
  have d: "find_device ''migif2'' 0 debug_fnames16 = Some (int 2)"
    using find_device16 [of 2] by (simp add: NR_CHANS_def debug_fnames16_def)
  have k: "(8::nat) < NR_CHANS" "(2::nat) < 8" "todo (few_channels 8) r < 375" "4 \<le> unat (ucast (4 :: 32 word) AND mask 3 :: 64 word)" for r
    by (simp_all add: NR_CHANS_def few_channels mask_eq_exp_minus_1)
  from multi_load_unchecked [OF few_answer(1,2) few_channels(2) k(1) few_channels(1) few_answer(3,4) d k(2) few_channels(3) k(3)
      _ few_channels(4) _ few_answer(5) [where u = 5] k(4), of 1 "0x10000" "0x20000"]
  show ?thesis by auto
qed

section \<open>The ARM driver\<close>

text \<open>C26. The x86 driver is a port of the ARM driver \<^verbatim>\<open>migrate-ks2.c\<close>: under a kernel that serves both, a
  replication of ordinary pages is submitted by both, with a table that says the same, and the engine is
  given the same pages in the same order; the ARM driver has passed their addresses through
  \<^verbatim>\<open>phys40_to_dma32\<close> and leaves the elements' \<^verbatim>\<open>dma_length\<close> alone.\<close>

theorem port_submits_same_pages:
  assumes "kernel_copies_ks2 A pt phys dma32" and "page_count_of (desc_at (R r) d) < N"
    and "huge_page (desc_at (R r) d) = 0"
  shows "\<exists>src dst. length src = page_count_of (desc_at (R r) d) \<and> length dst = page_count_of (desc_at (R r) d)
    \<and> succeeds A R N (issue_one_desc_copy r d irq mm)
        (submitted Issue_copy r d irq mm (page_count_of (desc_at (R r) d)) (src, dst))
    \<and> succeeds A R N (issue_one_desc_copy_ks2 r d irq mm)
        (submitted Issue_copy r d irq mm (page_count_of (desc_at (R r) d)) (map (to_ks2 dma32) src, map (to_ks2 dma32) dst))"
proof -
  have K: "kernel_copies A pt phys" using assms(1) by (simp add: kernel_copies_ks2_def)
  show ?thesis
    using issue_copy_succeeds [where R = R and irq = irq and mm = mm, OF K assms(2)]
      issue_copy_ks2_succeeds [where R = R and irq = irq and mm = mm, OF assms(1,2)] assms(3)
    by (intro exI conjI) (simp_all del: map_map)
qed

theorem port_submits_same_pages_witness:
  "\<exists>src dst. length src = 1
    \<and> succeeds (ks2_answer False) (\<lambda>_. sized_region 0) 200 (issue_one_desc_copy 1 0 True 1) (submitted Issue_copy 1 0 True 1 1 (src, dst))
    \<and> succeeds (ks2_answer False) (\<lambda>_. sized_region 0) 200 (issue_one_desc_copy_ks2 1 0 True 1)
        (submitted Issue_copy 1 0 True 1 1 (map (to_ks2 (\<lambda>a. a mod 2 ^ 32)) src, map (to_ks2 (\<lambda>a. a mod 2 ^ 32)) dst))"
proof -
  have n: "page_count_of (desc_at ((\<lambda>_. sized_region 0) (1 :: addr)) 0) < 200" "huge_page (desc_at ((\<lambda>_. sized_region 0) (1 :: addr)) 0) = 0"
    by (simp_all add: one_page)
  from port_submits_same_pages [where r = 1 and irq = True and mm = 1, OF ks2_answer(1) [of False] n] show ?thesis unfolding one_page by auto
qed

text \<open>C27. A whole session of the ARM driver: system call, callback and worker return, every request is completed
  in order and the users own the queue again, as for \<^verbatim>\<open>migrate-x86.c\<close>, with the tables of four pages and the
  engine's status of that kernel.\<close>

theorem ks2_session_completes:
  assumes "dev_ok r {} s" and "clr s r \<noteq> COLOR_KER" and "on_q s r Qissued @ on_q s r Qreq \<noteq> []"
    and "r \<noteq> 0" and "roomy A s" and "kernel_copies_ks2 A pt phys dma32"
    and "\<And>h. A h ''device_tx_status == DMA_SUCCESS'' [i_chan (infos s (region_to_mmap_info r))] \<noteq> 0"
  shows "\<exists>t s1 s2 s3. user_flush_ks2 r mm parent Issue_copy s = Inr (0, s1) \<and> called_back t s1
    \<and> dma_callback_kthread_ks2 t s1 = Inr ((), s2) \<and> kernel_flush_work_ks2 t s2 = Inr ((), s3)
    \<and> dev_ok r {} s3 \<and> clr s3 r = COLOR_USR \<and> on_q s3 r Qissued = [] \<and> on_q s3 r Qreq = []
    \<and> flows r [] s [] s3"
  by (rule ks2_session_ok [OF assms])

theorem ks2_session_completes_witness:
  "\<exists>t s1 s2 s3. user_flush_ks2 1 1 (-1) Issue_copy (machine_ks2 False one_request) = Inr (0, s1)
    \<and> dma_callback_kthread_ks2 t s1 = Inr ((), s2) \<and> kernel_flush_work_ks2 t s2 = Inr ((), s3) \<and> clr s3 1 = COLOR_USR"
proof -
  have d: "dev_ok 1 {} (machine_ks2 False one_request)" by (rule machine_ks2_ok) (simp_all add: one_request)
  have c: "clr (machine_ks2 False one_request) 1 \<noteq> COLOR_KER"
    by (simp add: machine_ks2_queues one_request COLOR_USR_def COLOR_KER_def)
  have q: "on_q (machine_ks2 False one_request) 1 Qissued @ on_q (machine_ks2 False one_request) 1 Qreq \<noteq> []"
    using one_request(2) by (auto simp: machine_ks2_queues)
  have room: "roomy (ks2_answer False) (machine_ks2 False one_request)" by (simp add: roomy_def)
  from ks2_session_completes [OF d c q _ room ks2_answer, of 1 "-1"] show ?thesis by auto
qed

text \<open>C28. The direct migration of the ARM driver: over the submission of a descriptor and the completion of all its
  pages, two page locks and one memory-cgroup charge are left over for every page on which the race was
  detected, and nothing else: without a race the migration balances, with one the charge leaks, too.\<close>

theorem ks2_migration_settles:
  assumes "issue_one_desc_mig_ks2 r d irq mm s = Inr (t, s1)" and "complete_pages ks2_driver t s1 = Inr ((), s2)"
  shows "weight locks_w s2 - weight locks_w s = 2 * (weight races_w s2 - weight races_w s)
    \<and> weight charges_w s2 - weight charges_w s = weight races_w s2 - weight races_w s"
  using migration_settles [OF assms, of 0 1] migration_settles [OF assms, of 1 0] by (simp add: weight_owed)

theorem ks2_migration_settles_witness:
  "\<exists>t s1 s2. issue_one_desc_mig_ks2 1 0 True 1 (machine_ks2 True (sized_region 0)) = Inr (t, s1)
    \<and> complete_pages ks2_driver t s1 = Inr ((), s2) \<and> weight locks_w s2 = 2 \<and> weight charges_w s2 = 1"
proof -
  obtain t s1 s2 where r: "issue_one_desc_mig_ks2 1 0 True 1 (machine_ks2 True (sized_region 0)) = Inr (t, s1)"
    "complete_pages ks2_driver t s1 = Inr ((), s2)" "weight races_w s2 = 1"
    using ks2_lost_page by blast
  have "weight w (machine_ks2 True (sized_region 0)) = 0" for w by (simp add: weight_def)
  then show ?thesis using r ks2_migration_settles [OF r(1,2)] by auto
qed

text \<open>C29. The other migration of the ARM driver, through \<^verbatim>\<open>__unmap_and_move_ks2\<close>: a move that is pending has opened
  the charge of one memory cgroup, whose pointer it has in a local variable only; the completion of the
  page, \<^verbatim>\<open>dma_complete_one\<close>, ends the charge of whatever pointer the table entry held before the move.\<close>

theorem ks2_pending_charge_lost:
  assumes "do_unmap_and_move_arm n p np force mode t i s = Inr (PENDING, s1)"
    and "pg_desc (tables s2 t) i = pg_desc (tables s1 t) i" and "dma_complete_one_arm t i s2 = Inr ((), s3)"
  shows "\<exists>cg. \<forall>m. weight (charge_w m) s1 = weight (charge_w m) s + of_bool (cg = m)
    \<and> weight (charge_w m) s3 = weight (charge_w m) s2 - of_bool (pg_mem (pg_desc (tables s t) i) = m)"
proof -
  have "entry_charge t i s2 = pg_mem (pg_desc (tables s t) i)"
    using pending_opens_charge(2) [OF assms(1)] assms(2) by (simp add: entry_charge_def)
  with completion_ends_charge [OF assms(3)] pending_opens_charge(1) [OF assms(1)] show ?thesis by metis
qed

theorem ks2_pending_charge_lost_witness:
  "\<exists>s1 s3 cg. do_unmap_and_move_arm 1 3 4 True MIGRATE_SYNC 1 0 unmapped = Inr (PENDING, s1)
    \<and> dma_complete_one_arm 1 0 s1 = Inr ((), s3) \<and> (\<forall>m. weight (charge_w m) s3 = of_bool (cg = m) - of_bool (0 = m))"
proof -
  obtain s1 where s1: "do_unmap_and_move_arm 1 3 4 True MIGRATE_SYNC 1 0 unmapped = Inr (PENDING, s1)"
    "answer s1 = unmapped_answer" "max_nr_sg s1 = 200"
    using pending_run by blast
  obtain s3 where s3: "dma_complete_one_arm 1 0 s1 = Inr ((), s3)"
    using pending_completes [of s1 1] s1(2,3) by auto
  have "pg_mem (pg_desc (tables unmapped 1) 0) = 0" "weight (charge_w m) unmapped = 0" for m
    by (simp_all add: copy_table_def blank_entry_def weight_def)
  with ks2_pending_charge_lost [OF s1(1) refl s3] s1(1) s3 show ?thesis by auto
qed

section \<open>Flushing the whole queue\<close>

text \<open>C30. The callback of a flushed replication: it marks everything on the issued queue completed and
  appends it to the completion queue in order, keeps the device sound and schedules the worker.\<close>

theorem callback_noremap_completes_issued:
  assumes "dev_ok r own s" and "r \<noteq> 0" and "t_region (tables s t) = r"
  shows "\<exists>s1 v. dma_callback_noremap t s = Inr ((), s1) \<and> dev_ok r own s1 \<and> on_q s1 r Qissued = []
    \<and> finished r s1 = finished r s @ map comp_words (on_q s r Qissued) \<and> last (hist s1) = (''schedule_work'', [t], v)"
  by (rule dma_callback_noremap_ok [OF assms])

theorem callback_noremap_completes_issued_witness:
  "\<exists>s1. dma_callback_noremap 1 (machine fresh_region 0) = Inr ((), s1) \<and> on_q s1 1 Qissued = []"
proof -
  have "dev_ok 1 {} (machine fresh_region 0)" by (rule machine_ok) (simp_all add: fresh_region)
  from callback_noremap_completes_issued [OF this, of 1] show ?thesis by auto
qed

text \<open>C31. \<^verbatim>\<open>flush_single_qreq_noremap2\<close>, whenever it returns: \<^verbatim>\<open>mmap_sem\<close> is balanced, and the reference to
  the address space is dropped exactly when no request was flushed (otherwise the transfer keeps it).\<close>

theorem flush_noremap_balances:
  assumes "flush_single_qreq_noremap2 r user mm s = Inr (i, s1)"
  shows "weight (sem_w mm) s1 = weight (sem_w mm) s \<and> weight (put_w mm) s1 = weight (put_w mm) s + (if i = 0 then 1 else 0)"
  using shiftsD [OF flush_noremap_sem assms] shiftsD [OF flush_noremap_put assms] by simp

theorem flush_noremap_balances_witness:
  "\<exists>s1. flush_single_qreq_noremap2 1 True 1 (machine fresh_region 0) = Inr (0, s1)
    \<and> weight (put_w 1) s1 = weight (put_w 1) (machine fresh_region 0) + 1"
proof -
  obtain s1 where s1: "flush_single_qreq_noremap2 1 True 1 (machine fresh_region 0) = Inr (0, s1)"
    using flush_empty_run by blast
  show ?thesis using s1 flush_noremap_balances [OF s1] by auto
qed

section \<open>Page locks\<close>

text \<open>C32. An attempt of \<^verbatim>\<open>__unmap_and_move_ks2\<close>: on every path the locks of the two pages are back where
  they were, except that a pending move leaves both locked; the table entry then names the two
  pages, so that the completion can unlock them.\<close>

theorem unmap_and_move_locks:
  assumes "do_unmap_and_move_ks2 n p np force mode t i s = Inr (rc, s1)"
  shows "weight (lock_w q) s1 = weight (lock_w q) s + (if rc = PENDING then of_bool (np = q) + of_bool (p = q) else 0)
    \<and> (rc = PENDING \<longrightarrow> page (pg_desc (tables s1 t) i) = p \<and> newpage (pg_desc (tables s1 t) i) = np)"
  using shiftsD [OF lock_do_unmap_and_move assms] ends_do_unmap_and_move [of n p np force mode t i] assms
  by (auto simp: pending_locks_def ends_def entry_is_def)

theorem unmap_and_move_locks_witness:
  "\<exists>s1. do_unmap_and_move_ks2 1 3 4 False MIGRATE_ASYNC 1 0 (machine fresh_region 0) = Inr (EBUSY, s1)
    \<and> weight (lock_w 3) s1 = weight (lock_w 3) (machine fresh_region 0)"
proof -
  obtain s1 where s1: "do_unmap_and_move_ks2 1 3 4 False MIGRATE_ASYNC 1 0 (machine fresh_region 0) = Inr (EBUSY, s1)"
    by (simp add: do_unmap_and_move_ks2_def do_unmap_and_move_by_def unmap_locked_def uncharge_def bindK_run callb_run seqK_run exec_run good_answer_def)
  show ?thesis using s1 unmap_and_move_locks [OF s1, of 3] by simp
qed

text \<open>C33. The completion of a direct migration, \<^verbatim>\<open>dma_complete_one_mig\<close>: when the compare-and-swap on the
  pte fails it leaves both pages locked, otherwise it releases both; its callers ignore the result.\<close>

theorem complete_one_mig_race_keeps_locks:
  assumes "dma_complete_one_mig t i s = Inr (ok, s1)"
  shows "weight (lock_w q) s1 = weight (lock_w q) s
    - (if ok then of_bool (newpage (pg_desc (tables s t) i) = q) + of_bool (page (pg_desc (tables s t) i) = q) else 0)"
  using lock_dma_complete_one_mig [OF assms, of q] by (simp add: entry_locks_def)

theorem complete_one_mig_race_keeps_locks_witness:
  "\<exists>s1. dma_complete_one_mig 1 0 (silent fresh_region) = Inr (False, s1)
    \<and> weight (lock_w 0) s1 = weight (lock_w 0) (silent fresh_region)"
proof -
  obtain s1 where s1: "dma_complete_one_mig 1 0 (silent fresh_region) = Inr (False, s1)"
    by (simp add: dma_complete_one_mig_def bindK_run get_pg_def call_run callb_run Let_def)
  show ?thesis using s1 complete_one_mig_race_keeps_locks [OF s1, of 0] by simp
qed

section \<open>The device files\<close>

text \<open>C34. The tests of the queue.  In the driver and in \<^verbatim>\<open>migif.c\<close>, filling the request queue takes every free
  descriptor (the driver's bound of 8000, which should leave some, is never reached, the other has none), so
  emptying it afterwards is a BUG.  The test module stops at 100: it leaves the rest free, and request 1 can be taken off.\<close>

theorem fill_test_breaks_empty_test:
  assumes "wf_region (regs s r) {}" and "sched s r = []" and "0 < nfree (regs s r)" "nfree (regs s r) \<le> 7999" and "r \<noteq> 0"
    and "m_region g = r"
  shows "(\<exists>s1. test_fill_queue r s = Inr ((), s1) \<and> nfree (regs s1 r) = 0 \<and> test_empty_queue r s1 = Inl Bug)
    \<and> (\<exists>s1. test_fill_queue_mf g s = Inr ((), s1) \<and> nfree (regs s1 r) = 0 \<and> test_empty_queue_mf g s1 = Inl Bug)
    \<and> (100 < nfree (regs s r) \<and> contents (regs s r) Qreq = [] \<longrightarrow>
        (\<exists>s1 d s2. test_fill_queue_t r s = Inr ((), s1) \<and> nfree (regs s1 r) = nfree (regs s r) - 100
          \<and> k_dequeue r Qreq s1 = Inr (Some d, s2) \<and> bf_get 0 52 (fst (payload (regs s2 r) d)) = 1
          \<and> length (contents (regs s2 r) Qreq) = 99))"
proof (intro conjI impI)
  show "\<exists>s1. test_fill_queue r s = Inr ((), s1) \<and> nfree (regs s1 r) = 0 \<and> test_empty_queue r s1 = Inl Bug"
    by (rule fill_then_empty [OF assms(1-5)])
  show "\<exists>s1. test_fill_queue_mf g s = Inr ((), s1) \<and> nfree (regs s1 r) = 0 \<and> test_empty_queue_mf g s1 = Inl Bug"
    using fill_mf_then_empty [of s g] assms by simp
qed (use fill_t_then_dequeue [OF assms(1,2) _ assms(5)] in blast)

theorem fill_test_breaks_empty_test_witness:
  "(\<exists>s1. test_fill_queue 1 (machine fresh_region 0) = Inr ((), s1) \<and> test_empty_queue 1 s1 = Inl Bug)
    \<and> (\<exists>s1. test_fill_queue_t 1 (machine fresh_region 0) = Inr ((), s1) \<and> nfree (regs s1 1) = 276)"
  using fill_test_breaks_empty_test [of "machine fresh_region 0" 1 "\<lparr>m_region = 1, m_ginfo = 0, m_file = 0, m_ftest = 0\<rparr>"]
  by (auto simp: fresh_region)

section \<open>NUMA support\<close>

text \<open>C35. \<^verbatim>\<open>do_pages_stat\<close> always returns; with 0 it has a status for every page, with \<^verbatim>\<open>-EFAULT\<close> for the
  pages of the complete chunks of 16 before the one that could not be copied.\<close>

theorem pages_stat_returns:
  "\<exists>rc st s1. do_pages_stat mm pgs [] s = Inr ((rc, st), s1)
    \<and> (rc = 0 \<and> length st = length pgs \<or> rc = - E_FAULT \<and> (\<exists>k. 16 * k < length pgs \<and> length st = 16 * k))"
  using do_pages_stat_returns [of mm pgs "[]" s] by simp

text \<open>C36. The NUMA rate limit: within one window, requests of at most \<open>n\<close> pages each are granted at most
  \<open>32768 + n\<close> pages in total; the check comes before the addition, so the limit is overshot by one
  request.\<close>

theorem ratelimit_bounds_window:
  assumes "\<forall>(now, nr)\<in>set rs. \<not> time_after now (numabalancing_migrate_next_window P) \<and> unat nr \<le> n"
    and "numabalancing_migrate_nr_pages P = 0" and "n < 2 ^ 32"
  shows "granted win rs P \<le> 32768 + n"
  using granted_bound [OF assms(1), of win] assms(2,3) by simp

theorem ratelimit_bounds_window_witness:
  "granted 100 [(0, 512), (0, 512)] \<lparr>numabalancing_migrate_next_window = 50, numabalancing_migrate_nr_pages = 0\<rparr> \<le> 33280"
  using ratelimit_bounds_window [of "[(0, 512), (0, 512)]"
    "\<lparr>numabalancing_migrate_next_window = 50, numabalancing_migrate_nr_pages = 0\<rparr>" 512 100]
  by (simp add: time_after_def)

text \<open>C37. Migrating a misplaced huge page, in the x86 and in the ARM driver, whenever it returns: the page, locked by the
  caller, is unlocked, every other page's lock, the page-table lock and the notifications of the MMU are
  balanced, and in the ARM driver each memory cgroup's charge, too.\<close>

theorem thp_migration_balances:
  assumes "migrate_misplaced_transhuge_page mm vma pmd entry address p nid s = Inr (ok, s1)"
    and "migrate_misplaced_transhuge_page_arm mm vma pmd entry address p nid s = Inr (ok', s2)"
  shows "(\<forall>s' \<in> {s1, s2}. weight (thp_lock_w q) s' = weight (thp_lock_w q) s - of_bool (p = q)
      \<and> weight ptl_w s' = weight ptl_w s \<and> weight notify_w s' = weight notify_w s)
    \<and> weight (charge_w m) s2 = weight (charge_w m) s"
proof (intro conjI ballI)
  fix s' assume "s' \<in> {s1, s2}"
  then have w: "weight (thp_w a b c q) s' = weight (thp_w a b c q) s - page_held a q p" for a b c
    using shiftsD [OF thp_balances assms(1)] shiftsD [OF thp_balances_arm assms(2)] by auto
  show "weight (thp_lock_w q) s' = weight (thp_lock_w q) s - of_bool (p = q)" "weight ptl_w s' = weight ptl_w s"
    "weight notify_w s' = weight notify_w s"
    using w [of 1 0 0] w [of 0 1 0] w [of 0 0 1] by (simp_all add: weight_thp page_held_def)
next
  show "weight (charge_w m) s2 = weight (charge_w m) s" using shiftsD [OF charge_thp assms(2)] by simp
qed

theorem thp_migration_balances_witness:
  "\<exists>s1. migrate_misplaced_transhuge_page 1 2 5 6 0x200000 3 1 thp_machine = Inr (True, s1) \<and> weight (thp_lock_w 3) s1 = -1
    \<and> weight (thp_lock_w 9) s1 = 0 \<and> weight ptl_w s1 = 0"
proof -
  obtain s1 s2 where r: "migrate_misplaced_transhuge_page 1 2 5 6 0x200000 3 1 thp_machine = Inr (True, s1)"
    "migrate_misplaced_transhuge_page_arm 1 2 5 6 0x200000 3 1 thp_machine = Inr (True, s2)"
    using thp_run_x86 thp_run_arm by blast
  have z: "weight (thp_lock_w q) thp_machine = 0" "weight ptl_w thp_machine = 0" for q by (simp_all add: weight_def)
  from thp_migration_balances [OF r, of 3] thp_migration_balances [OF r, of 9] z r(1) show ?thesis by auto
qed

section \<open>The user-space DMA wrapper\<close>

text \<open>C38. \<^verbatim>\<open>edma3_start_xfer_once1\<close> for a size below 1 GB for which a geometry is found, when the low-level
  driver grants its calls: it returns the handle of the transfer, and the parameter set it has
  triggered copies exactly the bytes of the source buffer to those of the destination, in order.\<close>

theorem edma_transfer_copies_buffer:
  assumes "grants s" and "get_xfer_geometry sz = Inr g" and "unat sz < 2 ^ 30"
  shows "\<exists>s1 P. edma3_start_xfer_once1 ci src dest sz s = Inr (\<lparr>x_hEdma = hedma ci, x_chId = ch ci, x_tcc = tcc ci\<rparr>, s1)
    \<and> triggered s ((psets s)(ch ci := P)) (ch ci) s1 \<and> pset_moves P = copies src dest (unat sz)"
  using start_once1_runs [OF assms(1,2), of ci src dest] once_pset_copies [OF assms(2,3), of src dest "tcc ci"] by blast

theorem edma_transfer_copies_buffer_witness:
  "\<exists>s1 P. edma3_start_xfer_once1 channel 0x1000 0x2000 4096 engine = Inr (\<lparr>x_hEdma = 1, x_chId = 5, x_tcc = 5\<rparr>, s1)
    \<and> psets s1 5 = P \<and> length (pset_moves P) = 4096"
proof -
  obtain g where g: "get_xfer_geometry 4096 = Inr g" using page_geometry by blast
  from edma_transfer_copies_buffer [OF engine(1) g, of channel "0x1000" "0x2000"]
  show ?thesis by (auto simp: triggered_def engine_def channel_def copies_def)
qed

text \<open>C39. The same call for a multiple of 64 KB from 1 GB to below 2 GB: it succeeds, but the number of arrays
  it found, 65536, does not fit the 16 bits of the set, and the set copies nothing.\<close>

theorem edma_gigabyte_copies_nothing:
  assumes "grants s" and "2 ^ 30 \<le> unat sz" and "unat sz < 2 ^ 31" and "unat sz mod 65536 = 0"
  shows "\<exists>s1 P. edma3_start_xfer_once1 ci src dest sz s = Inr (\<lparr>x_hEdma = hedma ci, x_chId = ch ci, x_tcc = tcc ci\<rparr>, s1)
    \<and> triggered s ((psets s)(ch ci := P)) (ch ci) s1 \<and> pset_moves P = []"
proof -
  obtain g where g: "get_xfer_geometry sz = Inr g" "g_bcnt g = 65536" "g_sync g = SYNC_AB"
    using gigabyte_geometry [OF assms(2-4)] by blast
  have "pset_moves (once_pset src dest g (tcc ci)) = []"
    using g(2,3) by (simp add: pset_moves_def once_pset_def load_geometry_def)
  then show ?thesis using start_once1_runs [OF assms(1) g(1), of ci src dest] by blast
qed

theorem edma_gigabyte_copies_nothing_witness:
  "\<exists>s1. edma3_start_xfer_once1 channel 0 0x40000000 0x40000000 engine = Inr (\<lparr>x_hEdma = 1, x_chId = 5, x_tcc = 5\<rparr>, s1)
    \<and> pset_moves (psets s1 5) = []"
  using edma_gigabyte_copies_nothing [OF engine(1), of "0x40000000" channel 0 "0x40000000"]
  by (auto simp: triggered_def engine_def channel_def)

text \<open>C40. The gather with preloaded sets against the plain one, on a channel whose sets have their default
  contents: both return the same handle and trigger the same sets, of which the \<open>i\<close>-th copies the
  \<open>i\<close>-th buffer behind the ones before it; and waiting for the preloaded gather restores the defaults
  for the next one.\<close>

theorem preloaded_gather_is_gather:
  assumes "grants s" and "chan_ok ci" and "preloaded ci g sz s" and "gather_ok s ci a cnt sz" and "unat sz < 2 ^ 30"
  shows "\<exists>s1 s2 s3 F. edma3_start_gather ci a cnt dest s = Inr (gather_handle ci cnt sz, s1) \<and> triggered s F (ch ci) s1
    \<and> edma3_start_gather_preloaded ci a cnt dest s = Inr (gather_handle ci cnt sz, s2) \<and> triggered s F (ch ci) s2
    \<and> (\<forall>i<cnt. pset_moves (F (gather_chan ci i)) = copies (gather_src s a i) (dest + of_nat i * sz) (unat sz))
    \<and> edma3_wait_gather_preloaded (gather_handle ci cnt sz) s2 = Inr (ci, s3) \<and> preloaded ci g sz s3"
proof -
  have g: "get_xfer_geometry sz = Inr g" using assms(3) by (simp add: preloaded_def)
  let ?P = "gather_pset s ci a cnt dest sz g"
  let ?F = "write_sets (gather_chan ci) ?P cnt (psets s)"
  obtain s1 where s1: "edma3_start_gather ci a cnt dest s = Inr (gather_handle ci cnt sz, s1)" "triggered s ?F (ch ci) s1"
    using start_gather_runs [OF assms(4,1,2) g] by blast
  obtain s2 where s2: "edma3_start_gather_preloaded ci a cnt dest s = Inr (gather_handle ci cnt sz, s2)"
    "triggered s ?F (ch ci) s2" "grants s2"
    using start_gather_preloaded_runs [OF assms(4,1,2,3)] by blast
  obtain s3 where s3: "edma3_wait_gather_preloaded (gather_handle ci cnt sz) s2 = Inr (ci, s3)" "preloaded ci g sz s3"
    using wait_gather_preloaded_runs [OF assms(4) s2(3) assms(2,3) s2(2)] by blast
  have "?F (gather_chan ci i) = ?P i" if "i < cnt" for i
    using that gather_chan_eq [OF assms(2)] assms(4) by (intro write_sets_at) (auto simp: gather_ok_def)
  then show ?thesis
    using s1 s2 s3 gather_pset_copies [OF g assms(5)] by (intro exI [of _ s1] exI [of _ s2] exI [of _ s3] exI [of _ ?F]) simp
qed

theorem preloaded_gather_is_gather_witness:
  "\<exists>ci s s2 s3. preload_psets channel 4096 engine = Inr (ci, s)
    \<and> edma3_start_gather_preloaded ci word_args 2 0x10000 s = Inr (gather_handle ci 2 4096, s2)
    \<and> edma3_wait_gather_preloaded (gather_handle ci 2 4096) s2 = Inr (ci, s3)"
proof -
  obtain g where g: "get_xfer_geometry 4096 = Inr g" using page_geometry by blast
  obtain ci s where p: "preload_psets channel 4096 engine = Inr (ci, s)" "preloaded ci g 4096 s" "chan_ok ci"
    "gather_frame s = gather_frame engine" "logic_cnt ci = 1"
    using preload_psets_runs [OF engine(1,2) g engine(3)] engine(4) by auto
  have gr: "grants s" using gather_frame_simps(1) [OF p(4)] engine(1) by simp
  have u: "umem s x = 4096" for x using p(4) engine(5) by (simp add: gather_frame_def)
  have "gather_ok s ci word_args 2 4096"
    using p(5) u by (simp add: gather_ok_def word_args_def stride_ok_def)
  from preloaded_gather_is_gather [OF gr p(3,2) this, of "0x10000"] p(1) show ?thesis by auto
qed

end
